(* ===== verification/Prelude.thy ===== *)
theory Prelude
  imports Main "HOL-Library.AList" "HOL-Library.Word" "HOL-Library.Multiset"
    "HOL-Library.Sublist" "HOL-Library.List_Lexorder" "HOL-Library.Char_ord"
begin

text \<open>
  Shared ground of the development: Go's error values, the state-and-error type in which the
  effectful operations of the repository are written, its small weakest-precondition calculus,
  maps as association lists and the ranges over them, and states with a log beside them.
\<close>

named_theorems wp_simps \<open>weakest preconditions of the building blocks of effectful code\<close>

section \<open>Errors and effectful code\<close>

text \<open>
  An error value is an API status error with reason \<open>NotFound\<close>, an error built by the
  repository with \<open>fmt.Errorf\<close>, or any other error handed over by code outside it. A
  panic is kept apart: no \<open>if err != nil\<close> of the source sees it.
\<close>

datatype error = NotFound string | Errorf string | External string | Panic string

fun error_text :: "error \<Rightarrow> string" where
  "error_text (NotFound m) = m"
| "error_text (Errorf m) = m"
| "error_text (External m) = m"
| "error_text (Panic m) = m"

fun is_not_found :: "error \<Rightarrow> bool" where
  "is_not_found (NotFound _) = True"
| "is_not_found _ = False"

fun is_panic :: "error \<Rightarrow> bool" where
  "is_panic (Panic _) = True"
| "is_panic _ = False"

type_synonym ('s, 'a) io = "'s \<Rightarrow> (error + 'a) \<times> 's"

definition ret :: "'a \<Rightarrow> ('s, 'a) io" where
  "ret x s = (Inr x, s)"

definition fail :: "error \<Rightarrow> ('s, 'a) io" where
  "fail e s = (Inl e, s)"

definition lift_result :: "error + 'a \<Rightarrow> ('s, 'a) io" where
  "lift_result r s = (r, s)"

definition modify_st :: "('s \<Rightarrow> 's) \<Rightarrow> ('s, unit) io" where
  "modify_st f s = (Inr (), f s)"

text \<open>\<open>x, err := m(); if err != nil { return err }; f(x)\<close>\<close>

definition bind_io :: "('s, 'a) io \<Rightarrow> ('a \<Rightarrow> ('s, 'b) io) \<Rightarrow> ('s, 'b) io" where
  "bind_io m f s = (case m s of (Inl e, s') \<Rightarrow> (Inl e, s') | (Inr x, s') \<Rightarrow> f x s')"

text \<open>\<open>x, err := m(); f(x, err)\<close>, where \<open>f\<close> inspects the error; a panic goes past it.\<close>

definition try_io :: "('s, 'a) io \<Rightarrow> (error + 'a \<Rightarrow> ('s, 'b) io) \<Rightarrow> ('s, 'b) io" where
  "try_io m f s =
     (case m s of
        (Inl e, s') \<Rightarrow> if is_panic e then (Inl e, s') else f (Inl e) s'
      | (Inr x, s') \<Rightarrow> f (Inr x) s')"

text \<open>\<open>for _, x := range xs { if err := f(x); err != nil { return err } }\<close>\<close>

fun for_io :: "('a \<Rightarrow> ('s, unit) io) \<Rightarrow> 'a list \<Rightarrow> ('s, unit) io" where
  "for_io f [] = ret ()"
| "for_io f (x # xs) = bind_io (f x) (\<lambda>_. for_io f xs)"

text \<open>The same loop collecting a value per element.\<close>

fun mapM_result :: "('a \<Rightarrow> error + 'b) \<Rightarrow> 'a list \<Rightarrow> error + 'b list" where
  "mapM_result f [] = Inr []"
| "mapM_result f (x # xs) =
     (case f x of Inl e \<Rightarrow> Inl e
      | Inr y \<Rightarrow> (case mapM_result f xs of Inl e \<Rightarrow> Inl e | Inr ys \<Rightarrow> Inr (y # ys)))"

definition bind_result :: "error + 'a \<Rightarrow> ('a \<Rightarrow> error + 'b) \<Rightarrow> error + 'b" where
  "bind_result r f = (case r of Inl e \<Rightarrow> Inl e | Inr x \<Rightarrow> f x)"

lemma bind_result_simps [simp]:
  "bind_result (Inl e) f = Inl e"
  "bind_result (Inr x) f = f x"
  by (simp_all add: bind_result_def)

lemma bind_result_Inr_iff:
  "bind_result r f = Inr y \<longleftrightarrow> (\<exists>x. r = Inr x \<and> f x = Inr y)"
  by (cases r) simp_all

lemma mapM_result_Inr_iff:
  "mapM_result f xs = Inr ys \<longleftrightarrow> list_all2 (\<lambda>x y. f x = Inr y) xs ys"
proof (induction xs arbitrary: ys)
  case Nil
  then show ?case by auto
next
  case (Cons x xs)
  show ?case
    by (cases "f x"; cases "mapM_result f xs"; cases ys) (auto simp: Cons.IH[symmetric])
qed

lemma mapM_result_length: "mapM_result f xs = Inr ys \<Longrightarrow> length ys = length xs"
  by (auto simp: mapM_result_Inr_iff dest: list_all2_lengthD)

lemma mapM_result_Inl:
  "mapM_result f xs = Inl e \<Longrightarrow> \<exists>x \<in> set xs. f x = Inl e"
  by (induction xs) (auto split: sum.splits)

lemma mapM_result_total:
  "(\<And>x. x \<in> set xs \<Longrightarrow> f x = Inr (g x)) \<Longrightarrow> mapM_result f xs = Inr (map g xs)"
  by (induction xs) auto

section \<open>Weakest preconditions\<close>

definition wp :: "('s, 'a) io \<Rightarrow> (error + 'a \<Rightarrow> 's \<Rightarrow> bool) \<Rightarrow> 's \<Rightarrow> bool" where
  "wp m Q s = (case m s of (r, s') \<Rightarrow> Q r s')"

lemma wp_ret [wp_simps]: "wp (ret x) Q s = Q (Inr x) s"
  by (simp add: wp_def ret_def)

lemma wp_fail [wp_simps]: "wp (fail e) Q s = Q (Inl e) s"
  by (simp add: wp_def fail_def)

lemma wp_lift [wp_simps]: "wp (lift_result r) Q s = Q r s"
  by (simp add: wp_def lift_result_def)

lemma wp_modify [wp_simps]: "wp (modify_st f) Q s = Q (Inr ()) (f s)"
  by (simp add: wp_def modify_st_def)

lemma wp_bind [wp_simps]:
  "wp (bind_io m f) Q s =
     wp m (\<lambda>r s'. case r of Inl e \<Rightarrow> Q (Inl e) s' | Inr x \<Rightarrow> wp (f x) Q s') s"
  by (auto simp: wp_def bind_io_def split: prod.splits sum.splits)

lemma wp_try [wp_simps]:
  "wp (try_io m f) Q s =
     wp m (\<lambda>r s'. case r of
                     Inl e \<Rightarrow> if is_panic e then Q (Inl e) s' else wp (f (Inl e)) Q s'
                   | Inr x \<Rightarrow> wp (f (Inr x)) Q s') s"
  by (auto simp: wp_def try_io_def split: prod.splits sum.splits)

lemma wp_if [wp_simps]: "wp (if b then m else n) Q s = (if b then wp m Q s else wp n Q s)"
  by simp

lemma wp_case_option [wp_simps]:
  "wp (case x of None \<Rightarrow> m | Some y \<Rightarrow> f y) Q s =
     (case x of None \<Rightarrow> wp m Q s | Some y \<Rightarrow> wp (f y) Q s)"
  by (cases x) simp_all

lemma wp_case_sum [wp_simps]:
  "wp (case r of Inl e \<Rightarrow> m e | Inr y \<Rightarrow> f y) Q s =
     (case r of Inl e \<Rightarrow> wp (m e) Q s | Inr y \<Rightarrow> wp (f y) Q s)"
  by (cases r) simp_all

lemma wp_mono: "wp m Q s \<Longrightarrow> (\<And>r s'. Q r s' \<Longrightarrow> R r s') \<Longrightarrow> wp m R s"
  by (auto simp: wp_def split: prod.splits)

lemma wp_conj: "wp m (\<lambda>r s'. Q r s' \<and> R r s') s \<longleftrightarrow> wp m Q s \<and> wp m R s"
  by (auto simp: wp_def split: prod.splits)

lemma wpD: "wp m Q s \<Longrightarrow> m s = (r, s') \<Longrightarrow> Q r s'"
  by (simp add: wp_def)

lemma wpI: "(\<And>r s'. m s = (r, s') \<Longrightarrow> Q r s') \<Longrightarrow> wp m Q s"
  by (cases "m s") (simp add: wp_def)

text \<open>
  The loop rule: \<open>I\<close> relates the part of the list that has been run to the state after it.
\<close>

lemma wp_for_io:
  assumes "I [] s"
    and "\<And>done x rest s. xs = done @ x # rest \<Longrightarrow> I done s \<Longrightarrow>
           wp (f x) (\<lambda>r s'. case r of Inl e \<Rightarrow> Q (Inl e) s' | Inr _ \<Rightarrow> I (done @ [x]) s') s"
    and "\<And>s. I xs s \<Longrightarrow> Q (Inr ()) s"
  shows "wp (for_io f xs) Q s"
proof -
  have "xs = ys @ zs \<Longrightarrow> I ys s \<Longrightarrow> wp (for_io f zs) Q s" for ys zs s
  proof (induction zs arbitrary: ys s)
    case Nil
    then show ?case using assms(3) by (simp add: wp_simps)
  next
    case (Cons z zs)
    from Cons.prems assms(2)
    have "wp (f z) (\<lambda>r s'. case r of Inl e \<Rightarrow> Q (Inl e) s' | Inr _ \<Rightarrow> I (ys @ [z]) s') s"
      by blast
    then have "wp (f z) (\<lambda>r s'. case r of Inl e \<Rightarrow> Q (Inl e) s' | Inr x \<Rightarrow> wp (for_io f zs) Q s') s"
    proof (rule wp_mono)
      fix r s'
      assume "case r of Inl e \<Rightarrow> Q (Inl e) s' | Inr _ \<Rightarrow> I (ys @ [z]) s'"
      then show "case r of Inl e \<Rightarrow> Q (Inl e) s' | Inr x \<Rightarrow> wp (for_io f zs) Q s'"
        using Cons.IH[of "ys @ [z]" s'] Cons.prems(1) by (cases r) auto
    qed
    then show ?case by (simp add: wp_simps)
  qed
  from this[of "[]" xs s] assms(1) show ?thesis by simp
qed

lemma wp_for_inv:
  assumes "\<And>x st. x \<in> set xs \<Longrightarrow> I st \<Longrightarrow> wp (f x) (\<lambda>_. I) st" and "I st"
  shows "wp (for_io f xs) (\<lambda>_. I) st"
  by (rule wp_for_io[where I = "\<lambda>_. I"]) (use assms in \<open>auto split: sum.splits elim!: wp_mono\<close>)

text \<open>An invariant of the state that every run of \<open>m\<close> keeps, whatever it returns.\<close>

definition keeps :: "('s \<Rightarrow> bool) \<Rightarrow> ('s, 'a) io \<Rightarrow> bool" where
  "keeps I m \<longleftrightarrow> (\<forall>s. I s \<longrightarrow> wp m (\<lambda>_. I) s)"

lemma keepsI: "(\<And>s. I s \<Longrightarrow> wp m (\<lambda>_. I) s) \<Longrightarrow> keeps I m"
  by (simp add: keeps_def)

lemma keepsD: "keeps I m \<Longrightarrow> I s \<Longrightarrow> m s = (r, s') \<Longrightarrow> I s'"
  by (auto simp: keeps_def wp_def)

lemma keeps_basic [intro!, simp]:
  "keeps I (ret x)" "keeps I (fail e)" "keeps I (lift_result r)"
  by (simp_all add: keeps_def wp_simps)

lemma keeps_bind [intro]: "keeps I m \<Longrightarrow> (\<And>x. keeps I (f x)) \<Longrightarrow> keeps I (bind_io m f)"
  unfolding keeps_def wp_bind
  by (auto elim!: wp_mono split: sum.splits)

lemma keeps_try [intro]: "keeps I m \<Longrightarrow> (\<And>r. keeps I (f r)) \<Longrightarrow> keeps I (try_io m f)"
  unfolding keeps_def wp_try
  by (auto elim!: wp_mono split: sum.splits)

lemma keeps_for [intro]: "(\<And>x. x \<in> set xs \<Longrightarrow> keeps I (f x)) \<Longrightarrow> keeps I (for_io f xs)"
  by (induction xs) auto

section \<open>Ranging over a map\<close>

text \<open>
  A \<open>range\<close> over a map visits each entry once, in an order that is not specified: \<open>rng\<close> chooses it,
  and what it chooses counts only when it is a rearrangement.
\<close>

definition range_over :: "('a list \<Rightarrow> 'a list) \<Rightarrow> 'a list \<Rightarrow> 'a list" where
  "range_over rng xs = (if mset (rng xs) = mset xs then rng xs else xs)"

lemma mset_range_over [simp]: "mset (range_over rng xs) = mset xs"
  by (simp add: range_over_def)

lemma set_range_over [simp]: "set (range_over rng xs) = set xs"
  using mset_range_over by (rule mset_eq_setD)

lemma length_range_over [simp]: "length (range_over rng xs) = length xs"
  using mset_range_over by (rule mset_eq_length)

lemma range_over_Nil [simp]: "range_over rng [] = []"
  using length_range_over[of rng "[]"] by (simp del: length_range_over)

section \<open>Association lists\<close>

lemma map_of_in_dom: "map_of al k = None \<longleftrightarrow> k \<notin> fst ` set al"
  by (simp add: map_of_eq_None_iff)

lemma dom_update: "fst ` set (AList.update k v al) = insert k (fst ` set al)"
  by (simp add: dom_map_of_conv_image_fst[symmetric] update_conv')

lemma in_set_update: "p \<in> set (AList.update key v al) \<Longrightarrow> p = (key, v) \<or> p \<in> set al"
  by (induction al) (auto split: if_splits)

lemma set_delete_subset: "set (AList.delete key al) \<subseteq> set al"
  by (auto simp: AList.delete_eq)

lemma dom_delete: "fst ` set (AList.delete k al) = fst ` set al - {k}"
  by (auto simp: dom_map_of_conv_image_fst[symmetric] delete_conv')

section \<open>States beside other states, and logs\<close>

text \<open>
  \<open>quiet m\<close> runs \<open>m\<close> on the first part of a pair; \<open>logged f m\<close> also adds an event for its result to
  the log that is the second part, newest event first.
\<close>

definition quiet :: "('s, 'a) io \<Rightarrow> ('s \<times> 't, 'a) io" where
  "quiet m st = (case m (fst st) of (r, s') \<Rightarrow> (r, (s', snd st)))"

definition logged :: "(error + 'a \<Rightarrow> 'e) \<Rightarrow> ('s, 'a) io \<Rightarrow> ('s \<times> 'e list, 'a) io" where
  "logged f m st = (case m (fst st) of (r, s') \<Rightarrow> (r, (s', f r # snd st)))"

lemma wp_quiet: "(\<And>r s'. Q r (s', snd st)) \<Longrightarrow> wp (quiet m) Q st"
  by (simp add: wp_def quiet_def split: prod.splits)

lemma wp_logged: "(\<And>r s'. Q r (s', f r # snd st)) \<Longrightarrow> wp (logged f m) Q st"
  by (simp add: wp_def logged_def split: prod.splits)

lemma wp_bind_quiet:
  "(\<And>e s'. Q (Inl e) (s', snd st)) \<Longrightarrow> (\<And>x s'. wp (f x) Q (s', snd st)) \<Longrightarrow>
     wp (bind_io (quiet m) f) Q st"
  unfolding wp_bind by (rule wp_quiet) (simp split: sum.splits)

end
