(* ===== verification/Go_Strings.thy ===== *)
theory Go_Strings
  imports Prelude
begin

text \<open>
  The routines of Go's standard library that the repository uses on strings (packages
  \<open>strings\<close>, \<open>strconv\<close>, \<open>path\<close>), and the contract of \<open>sort.Slice\<close>. A Go string is its
  list of bytes. The lemmas are the laws the components rest on: splitting undoes joining,
  trimming is idempotent, decimal numbers are read back.
\<close>

section \<open>Splitting and joining\<close>

definition has_prefix :: "string \<Rightarrow> string \<Rightarrow> bool" where
  "has_prefix s p \<longleftrightarrow> take (length p) s = p"

definition has_suffix :: "string \<Rightarrow> string \<Rightarrow> bool" where
  "has_suffix s p \<longleftrightarrow> has_prefix (rev s) (rev p)"

lemma has_prefix_iff: "has_prefix s p \<longleftrightarrow> prefix p s"
  by (auto simp: has_prefix_def prefix_def) (metis append_take_drop_id)

lemma has_suffix_iff: "has_suffix s p \<longleftrightarrow> suffix p s"
  by (simp add: has_suffix_def has_prefix_iff suffix_to_prefix)

text \<open>\<open>strings.Split\<close> for a separator that is not empty; \<open>acc\<close> is the current piece, reversed.\<close>

function split_acc :: "string \<Rightarrow> string \<Rightarrow> string \<Rightarrow> string list" where
  "split_acc sep acc [] = [rev acc]"
| "split_acc sep acc (c # s) =
     (if has_prefix (c # s) sep then rev acc # split_acc sep [] (drop (length sep - 1) s)
      else split_acc sep (c # acc) s)"
  by pat_completeness auto
termination
  by (relation "measure (\<lambda>(sep, acc, s). length s)") auto

definition split_str :: "string \<Rightarrow> string \<Rightarrow> string list" where
  "split_str s sep = split_acc sep [] s"

fun join_str :: "string list \<Rightarrow> string \<Rightarrow> string" where
  "join_str [] sep = []"
| "join_str [x] sep = x"
| "join_str (x # y # ys) sep = x @ sep @ join_str (y # ys) sep"

lemma split_acc_nonempty [simp]: "split_acc sep acc s \<noteq> []"
  by (induction sep acc s rule: split_acc.induct) auto

lemma split_str_nonempty [simp]: "split_str s sep \<noteq> []"
  by (simp add: split_str_def)

lemma join_str_Cons: "ys \<noteq> [] \<Longrightarrow> join_str (x # ys) sep = x @ sep @ join_str ys sep"
  by (cases ys) auto

lemma join_split_acc: "sep \<noteq> [] \<Longrightarrow> join_str (split_acc sep acc s) sep = rev acc @ s"
proof (induction sep acc s rule: split_acc.induct)
  case (1 sep acc)
  then show ?case by simp
next
  case (2 sep acc c s)
  show ?case
  proof (cases "has_prefix (c # s) sep")
    case True
    then obtain rest where rest: "c # s = sep @ rest"
      by (auto simp: has_prefix_iff prefix_def)
    with "2.prems" have "drop (length sep - 1) s = rest"
      by (cases sep) auto
    with True 2 have "join_str (split_acc sep acc (c # s)) sep = rev acc @ sep @ rest"
      by (simp add: join_str_Cons)
    then show ?thesis by (simp only: rest)
  next
    case False
    with 2 show ?thesis by simp
  qed
qed

lemma join_split: "sep \<noteq> [] \<Longrightarrow> join_str (split_str s sep) sep = s"
  by (simp add: split_str_def join_split_acc)

text \<open>
  A piece \<open>x\<close> is \<open>clean\<close> for a separator when no occurrence of the separator starts inside it
  once the separator follows it.
\<close>

definition clean_piece :: "string \<Rightarrow> string \<Rightarrow> bool" where
  "clean_piece sep x \<longleftrightarrow> \<not> sublist sep (x @ butlast sep)"

lemma clean_piece_Cons: "clean_piece sep (c # x) \<Longrightarrow> clean_piece sep x"
  by (auto simp: clean_piece_def sublist_Cons_right)

lemma not_prefix_if_clean:
  assumes "clean_piece sep (c # x)" and "sep \<noteq> []"
  shows "\<not> has_prefix (c # x @ sep @ t) sep"
proof
  assume "has_prefix (c # x @ sep @ t) sep"
  then have pre: "prefix sep ((c # x @ butlast sep) @ [last sep] @ t)"
    using assms(2) by (metis append.assoc append_Cons append_Nil append_butlast_last_id has_prefix_iff)
  have "length sep \<le> length (c # x @ butlast sep)"
    using assms(2) by simp
  then have "prefix sep (c # x @ butlast sep)"
    using pre by (metis append_Cons prefix_length_prefix prefix_append prefix_order.order_refl prefixI)
  then have "sublist sep (c # x @ butlast sep)"
    by (auto intro: prefix_imp_sublist)
  with assms(1) show False by (simp add: clean_piece_def)
qed

lemma split_acc_append:
  assumes "clean_piece sep x" and "sep \<noteq> []"
  shows "split_acc sep acc (x @ sep @ t) = (rev acc @ x) # split_acc sep [] t"
  using assms
proof (induction x arbitrary: acc)
  case Nil
  obtain c s where sep: "sep = c # s" using Nil by (cases sep) auto
  show ?case by (simp add: sep has_prefix_iff)
next
  case (Cons c x)
  have "\<not> has_prefix (c # x @ sep @ t) sep"
    using not_prefix_if_clean Cons.prems by blast
  moreover have "split_acc sep (c # acc) (x @ sep @ t) = (rev (c # acc) @ x) # split_acc sep [] t"
    using Cons.IH Cons.prems clean_piece_Cons by blast
  ultimately show ?case by simp
qed

lemma split_acc_last:
  assumes "clean_piece sep x" and "sep \<noteq> []"
  shows "split_acc sep acc x = [rev acc @ x]"
  using assms
proof (induction x arbitrary: acc)
  case Nil
  then show ?case by simp
next
  case (Cons c x)
  have "\<not> has_prefix (c # x) sep"
  proof
    assume "has_prefix (c # x) sep"
    then have "sublist sep ((c # x) @ butlast sep)"
      unfolding has_prefix_iff by (intro prefix_imp_sublist prefix_prefix)
    with Cons.prems(1) show False by (simp add: clean_piece_def)
  qed
  moreover have "split_acc sep (c # acc) x = [rev (c # acc) @ x]"
    using Cons.IH Cons.prems clean_piece_Cons by blast
  ultimately show ?case by simp
qed

lemma split_join:
  assumes "sep \<noteq> []" and "xs \<noteq> []" and "\<forall>x \<in> set xs. clean_piece sep x"
  shows "split_str (join_str xs sep) sep = xs"
  unfolding split_str_def using assms(2,3)
proof (induction xs rule: induct_list012)
  case (3 x y ys)
  then show ?case using assms(1) by (simp add: split_acc_append)
qed (simp_all add: split_acc_last assms(1))

lemma clean_piece_char: "clean_piece [c] x \<longleftrightarrow> c \<notin> set x"
  by (auto simp: clean_piece_def sublist_def in_set_conv_decomp)

lemma split_join_char:
  "xs \<noteq> [] \<Longrightarrow> \<forall>x \<in> set xs. c \<notin> set x \<Longrightarrow> split_str (join_str xs [c]) [c] = xs"
  by (rule split_join) (auto simp: clean_piece_char)

lemma split_acc_char_free: "c \<notin> set acc \<Longrightarrow> p \<in> set (split_acc [c] acc s) \<Longrightarrow> c \<notin> set p"
  by (induction "[c]" acc s rule: split_acc.induct) (auto simp: has_prefix_def split: if_splits)

lemma split_str_char_free: "p \<in> set (split_str s [c]) \<Longrightarrow> c \<notin> set p"
  by (auto simp: split_str_def dest: split_acc_char_free[rotated])

lemma join_str_char_mem:
  "c \<in> set (join_str xs [d]) \<longleftrightarrow> (\<exists>x \<in> set xs. c \<in> set x) \<or> (c = d \<and> 2 \<le> length xs)"
  by (induction xs rule: induct_list012) auto

section \<open>Searching\<close>

text \<open>\<open>strings.Index\<close>, \<open>strings.LastIndex\<close>: \<open>None\<close> stands for -1.\<close>

fun index_str :: "string \<Rightarrow> string \<Rightarrow> nat option" where
  "index_str [] sub = (if sub = [] then Some 0 else None)"
| "index_str (c # s) sub =
     (if has_prefix (c # s) sub then Some 0 else map_option Suc (index_str s sub))"

fun last_index_str :: "string \<Rightarrow> string \<Rightarrow> nat option" where
  "last_index_str [] sub = (if sub = [] then Some 0 else None)"
| "last_index_str (c # s) sub =
     (case last_index_str s sub of
        Some n \<Rightarrow> Some (Suc n)
      | None \<Rightarrow> if has_prefix (c # s) sub then Some 0 else None)"

lemma last_index_str_Some:
  "last_index_str s sub = Some n \<Longrightarrow> n \<le> length s \<and> has_prefix (drop n s) sub"
  by (induction s arbitrary: n) (auto simp: has_prefix_def split: if_splits option.splits)

lemma last_index_str_max:
  "has_prefix (drop k s) sub \<Longrightarrow> k \<le> length s \<Longrightarrow>
     \<exists>n. last_index_str s sub = Some n \<and> k \<le> n"
proof (induction s arbitrary: k)
  case Nil
  then show ?case by (auto simp: has_prefix_def)
next
  case (Cons c s)
  show ?case
  proof (cases k)
    case 0
    with Cons.prems show ?thesis by (auto split: option.splits)
  next
    case (Suc k')
    with Cons.prems Cons.IH[of k'] show ?thesis by auto
  qed
qed

text \<open>\<open>path.Base\<close>\<close>

definition trim_slashes :: "string \<Rightarrow> string" where
  "trim_slashes s = rev (dropWhile (\<lambda>c. c = CHR ''/'') (rev s))"

definition path_base :: "string \<Rightarrow> string" where
  "path_base s =
     (if s = [] then ''.''
      else let t = last (split_str (trim_slashes s) ''/'')
           in if t = [] then ''/'' else t)"

section \<open>White space\<close>

text \<open>
  The UTF-8 encodings of the runes for which \<open>unicode.IsSpace\<close> holds. \<open>strings.TrimSpace\<close> cuts
  such runes off the left end, then off the right end.
\<close>

definition byte :: "nat \<Rightarrow> char" where
  "byte n = char_of n"

definition spaces :: "string list" where
  "spaces =
     [[CHR 0x09], [CHR 0x0A], [CHR 0x0B], [CHR 0x0C], [CHR 0x0D], [CHR 0x20],
      [CHR 0xC2, CHR 0x85], [CHR 0xC2, CHR 0xA0], [CHR 0xE1, CHR 0x9A, CHR 0x80],
      [CHR 0xE2, CHR 0x80, CHR 0x80], [CHR 0xE2, CHR 0x80, CHR 0x81],
      [CHR 0xE2, CHR 0x80, CHR 0x82], [CHR 0xE2, CHR 0x80, CHR 0x83],
      [CHR 0xE2, CHR 0x80, CHR 0x84], [CHR 0xE2, CHR 0x80, CHR 0x85],
      [CHR 0xE2, CHR 0x80, CHR 0x86], [CHR 0xE2, CHR 0x80, CHR 0x87],
      [CHR 0xE2, CHR 0x80, CHR 0x88], [CHR 0xE2, CHR 0x80, CHR 0x89],
      [CHR 0xE2, CHR 0x80, CHR 0x8A], [CHR 0xE2, CHR 0x80, CHR 0xA8],
      [CHR 0xE2, CHR 0x80, CHR 0xA9], [CHR 0xE2, CHR 0x80, CHR 0xAF],
      [CHR 0xE2, CHR 0x81, CHR 0x9F], [CHR 0xE3, CHR 0x80, CHR 0x80]]"

function strip :: "string list \<Rightarrow> string \<Rightarrow> string" where
  "strip ws [] = []"
| "strip ws (c # s) =
     (case find (has_prefix (c # s)) ws of
        None \<Rightarrow> c # s
      | Some w \<Rightarrow> strip ws (drop (length w - 1) s))"
  by pat_completeness auto
termination
  by (relation "measure (\<lambda>(ws, s). length s)") auto

definition trim_left :: "string \<Rightarrow> string" where
  "trim_left s = strip spaces s"

definition trim_right :: "string \<Rightarrow> string" where
  "trim_right s = rev (strip (map rev spaces) (rev s))"

definition trim_space :: "string \<Rightarrow> string" where
  "trim_space s = trim_right (trim_left s)"

lemma strip_suffix: "suffix (strip ws s) s"
proof (induction ws s rule: strip.induct)
  case (2 ws c s)
  have "suffix (drop n s) (c # s)" for n
    by (meson suffix_ConsI suffix_drop)
  with 2 show ?case
    by (auto split: option.splits intro: suffix_order.trans)
qed simp

lemma strip_clean: "w \<in> set ws \<Longrightarrow> w \<noteq> [] \<Longrightarrow> \<not> has_prefix (strip ws s) w"
proof (induction ws s rule: strip.induct)
  case (1 ws)
  then show ?case by (simp add: has_prefix_def)
next
  case (2 ws c s)
  show ?case
  proof (cases "find (has_prefix (c # s)) ws")
    case None
    then have "strip ws (c # s) = c # s" by simp
    with None "2.prems" show ?thesis by (simp add: find_None_iff)
  next
    case (Some v)
    with 2 show ?thesis by simp
  qed
qed

lemma strip_id: "(\<And>w. w \<in> set ws \<Longrightarrow> \<not> has_prefix s w) \<Longrightarrow> strip ws s = s"
proof (cases s)
  case (Cons c t)
  assume "\<And>w. w \<in> set ws \<Longrightarrow> \<not> has_prefix s w"
  then have "find (has_prefix s) ws = None"
    by (auto simp: find_None_iff)
  then show ?thesis by (simp add: Cons)
qed simp

lemma spaces_nonempty: "[] \<notin> set spaces"
  by (simp add: spaces_def)

lemma has_prefix_trans: "prefix s t \<Longrightarrow> has_prefix s w \<Longrightarrow> has_prefix t w"
  unfolding has_prefix_iff by (rule prefix_order.trans)

lemma trim_right_prefix: "prefix (trim_right s) s"
  using strip_suffix[of "map rev spaces" "rev s"]
  by (simp add: trim_right_def suffix_to_prefix)

lemma trim_space_sublist: "sublist (trim_space s) s"
  unfolding trim_space_def trim_left_def
  by (meson strip_suffix trim_right_prefix prefix_imp_sublist suffix_imp_sublist
      sublist_order.order_trans)

text \<open>A string is trimmed when white space neither starts nor ends it.\<close>

definition trimmed :: "string \<Rightarrow> bool" where
  "trimmed s \<longleftrightarrow> (\<forall>w \<in> set spaces. \<not> has_prefix s w \<and> \<not> has_suffix s w)"

lemma trim_space_trimmed: "trimmed (trim_space s)"
  unfolding trimmed_def
proof (intro ballI conjI)
  fix w assume w: "w \<in> set spaces"
  then have ne: "w \<noteq> []" using spaces_nonempty by auto
  show "\<not> has_prefix (trim_space s) w"
    using strip_clean[OF w ne] trim_right_prefix has_prefix_trans
    unfolding trim_space_def trim_left_def by blast
  have "rev w \<in> set (map rev spaces)" "rev w \<noteq> []" using w ne by auto
  from strip_clean[OF this] show "\<not> has_suffix (trim_space s) w"
    by (simp add: has_suffix_def trim_space_def trim_right_def)
qed

lemma trim_space_id: "trimmed s \<Longrightarrow> trim_space s = s"
  unfolding trim_space_def trim_left_def trim_right_def
  by (subst strip_id[of spaces s], simp add: trimmed_def)
     (subst strip_id, auto simp: trimmed_def has_suffix_def)

lemma trim_space_idem [simp]: "trim_space (trim_space s) = trim_space s"
  by (rule trim_space_id) (rule trim_space_trimmed)

section \<open>Decimal numbers\<close>

definition digit_char :: "nat \<Rightarrow> char" where
  "digit_char d = ''0123456789'' ! d"

definition digit_val :: "char \<Rightarrow> nat option" where
  "digit_val c = map_of (zip ''0123456789'' [0..<10]) c"

fun nat_str :: "nat \<Rightarrow> string" where
  "nat_str n = (if n < 10 then [digit_char n] else nat_str (n div 10) @ [digit_char (n mod 10)])"

declare nat_str.simps [simp del]

text \<open>\<open>fmt\<close>'s \<open>%d\<close> and \<open>strconv.Itoa\<close>\<close>

definition int_str :: "int \<Rightarrow> string" where
  "int_str i = (if i < 0 then ''-'' @ nat_str (nat (- i)) else nat_str (nat i))"

fun read_digits :: "nat \<Rightarrow> string \<Rightarrow> nat option" where
  "read_digits n [] = Some n"
| "read_digits n (c # s) =
     (case digit_val c of None \<Rightarrow> None | Some d \<Rightarrow> read_digits (10 * n + d) s)"

text \<open>
  \<open>strconv.Atoi\<close> on a 64-bit platform: an optional sign, at least one digit, and a value in the
  range of \<open>int\<close>.
\<close>

definition atoi_error :: "string \<Rightarrow> error" where
  "atoi_error s = External (''strconv.Atoi: parsing '' @ s)"

definition atoi_sign :: "string \<Rightarrow> bool \<times> string" where
  "atoi_sign s = (case s of
       CHR ''-'' # t \<Rightarrow> (True, t)
     | CHR ''+'' # t \<Rightarrow> (False, t)
     | _ \<Rightarrow> (False, s))"

definition atoi :: "string \<Rightarrow> error + int" where
  "atoi s =
     (case atoi_sign s of (neg, t) \<Rightarrow>
        if t = [] then Inl (atoi_error s)
        else case read_digits 0 t of
            None \<Rightarrow> Inl (atoi_error s)
          | Some n \<Rightarrow>
              (let i = (if neg then - int n else int n)
               in if - (2 ^ 63) \<le> i \<and> i < 2 ^ 63 then Inr i else Inl (atoi_error s)))"

text \<open>
  The number \<open>strconv.Atoi\<close> returns beside its error: 0 for text that is no number, the nearest
  end of the range for a number outside it.
\<close>

definition atoi_val :: "string \<Rightarrow> int" where
  "atoi_val s =
     (case atoi_sign s of (neg, t) \<Rightarrow>
        if t = [] then 0
        else case read_digits 0 t of
            None \<Rightarrow> 0
          | Some n \<Rightarrow> (if neg then max (- (2 ^ 63)) (- int n) else min (2 ^ 63 - 1) (int n)))"

lemma atoi_val_atoi: "atoi s = Inr i \<Longrightarrow> atoi_val s = i"
  by (auto simp: atoi_def atoi_val_def Let_def split: prod.splits option.splits if_splits)

lemma digit_val_digit_char [simp]: "d < 10 \<Longrightarrow> digit_val (digit_char d) = Some d"
  by (auto simp: digit_val_def digit_char_def less_Suc_eq numeral_eq_Suc)

lemma digit_char_eqs:
  "d < 10 \<Longrightarrow> digit_char d \<noteq> CHR ''-''"
  "d < 10 \<Longrightarrow> digit_char d \<noteq> CHR ''+''"
  "d < 10 \<Longrightarrow> digit_char d \<noteq> CHR ''/''"
  by (auto simp: digit_char_def less_Suc_eq numeral_eq_Suc)

lemma read_digits_append:
  "read_digits n (s @ t) = (case read_digits n s of None \<Rightarrow> None | Some m \<Rightarrow> read_digits m t)"
  by (induction n s rule: read_digits.induct) (auto split: option.splits)

lemma nat_str_chars: "c \<in> set (nat_str n) \<Longrightarrow> \<exists>d < 10. c = digit_char d"
proof (induction n rule: nat_str.induct)
  case (1 n)
  show ?case
  proof (cases "n < 10")
    case True
    with "1.prems" show ?thesis by (auto simp: nat_str.simps[of n])
  next
    case False
    with "1.prems" consider "c \<in> set (nat_str (n div 10))" | "c = digit_char (n mod 10)"
      by (auto simp: nat_str.simps[of n])
    then show ?thesis
      by cases (use "1.IH" False in \<open>auto intro: exI[of _ "n mod 10"]\<close>)
  qed
qed

lemma nat_str_nonempty [simp]: "nat_str n \<noteq> []"
  by (subst nat_str.simps) simp

lemma read_nat_str: "read_digits m (nat_str n) = Some (m * 10 ^ length (nat_str n) + n)"
proof (induction n arbitrary: m rule: nat_str.induct)
  case (1 n)
  show ?case
  proof (cases "n < 10")
    case True
    then show ?thesis by (simp add: nat_str.simps[of n])
  next
    case False
    then have "read_digits m (nat_str n) =
        Some (10 * (m * 10 ^ length (nat_str (n div 10)) + n div 10) + n mod 10)"
      using "1.IH"[of m] by (simp add: nat_str.simps[of n] read_digits_append)
    also have "\<dots> = Some (m * 10 ^ length (nat_str n) + n)"
      using False by (simp add: nat_str.simps[of n] algebra_simps)
    finally show ?thesis .
  qed
qed

lemma atoi_sign_nat_str: "atoi_sign (nat_str n) = (False, nat_str n)"
proof -
  obtain c s where cs: "nat_str n = c # s" by (cases "nat_str n") auto
  then obtain d where "d < 10" "c = digit_char d" using nat_str_chars[of c n] by auto
  then show ?thesis unfolding cs
    by (auto simp: atoi_sign_def digit_char_def less_Suc_eq numeral_eq_Suc)
qed

lemma atoi_int_str:
  assumes "- (2 ^ 63) \<le> i" and "i < 2 ^ 63"
  shows "atoi (int_str i) = Inr i"
proof (cases "i < 0")
  case True
  then have "atoi_sign (int_str i) = (True, nat_str (nat (- i)))"
    by (simp add: int_str_def atoi_sign_def)
  with True assms show ?thesis
    by (simp add: atoi_def read_nat_str Let_def)
next
  case False
  with assms show ?thesis
    by (simp add: atoi_def int_str_def atoi_sign_nat_str read_nat_str Let_def)
qed

lemma nat_str_inj: "nat_str m = nat_str n \<longleftrightarrow> m = n"
  by (metis add_0 mult_zero_left option.inject read_nat_str)

lemma nat_str_head_digit: "nat_str n \<noteq> CHR ''-'' # s"
  using nat_str_chars[of "CHR ''-''" n] digit_char_eqs(1) by fastforce

lemma int_str_inj: "int_str i = int_str j \<longleftrightarrow> i = j"
  using nat_str_head_digit[of "nat i"] nat_str_head_digit[of "nat j"]
  by (auto simp: int_str_def nat_str_inj split: if_splits) (metis nat_str_head_digit)+

section \<open>Sorting\<close>

text \<open>
  \<open>sort.Slice\<close> promises a permutation in which no later element is less than an earlier one, and
  no order among elements that are not less than each other. A routine \<open>srt\<close> chooses among these;
  what it chooses counts only when it keeps the promise, and otherwise \<open>insert_sort\<close> does.
\<close>

fun insert_by :: "('a \<Rightarrow> 'a \<Rightarrow> bool) \<Rightarrow> 'a \<Rightarrow> 'a list \<Rightarrow> 'a list" where
  "insert_by lt x [] = [x]"
| "insert_by lt x (y # ys) = (if lt y x then y # insert_by lt x ys else x # y # ys)"

fun insert_sort :: "('a \<Rightarrow> 'a \<Rightarrow> bool) \<Rightarrow> 'a list \<Rightarrow> 'a list" where
  "insert_sort lt [] = []"
| "insert_sort lt (x # xs) = insert_by lt x (insert_sort lt xs)"

lemma mset_insert_by [simp]: "mset (insert_by lt x ys) = add_mset x (mset ys)"
  by (induction ys) auto

lemma mset_insert_sort [simp]: "mset (insert_sort lt xs) = mset xs"
  by (induction xs) auto

lemma set_insert_by [simp]: "set (insert_by lt x ys) = insert x (set ys)"
  by (metis mset_insert_by set_mset_add_mset_insert set_mset_mset)

lemma sorted_insert_by:
  assumes "\<forall>x y. lt x y \<longleftrightarrow> (key x :: int) < key y"
  shows "sorted (map key ys) \<Longrightarrow> sorted (map key (insert_by lt x ys))"
  by (induction ys) (use assms in auto)

lemma insert_sort_sorted:
  assumes "\<And>x y. lt x y \<longleftrightarrow> (key x :: int) < key y"
  shows "sorted (map key (insert_sort lt xs))"
proof -
  have "\<forall>x y. lt x y \<longleftrightarrow> key x < key y" by (simp add: assms)
  then show ?thesis by (induction xs) (auto intro: sorted_insert_by)
qed

type_synonym 'a sorter = "('a \<Rightarrow> 'a \<Rightarrow> bool) \<Rightarrow> 'a list \<Rightarrow> 'a list"

definition sort_over :: "'a sorter \<Rightarrow> ('a \<Rightarrow> 'a \<Rightarrow> bool) \<Rightarrow> 'a list \<Rightarrow> 'a list" where
  "sort_over srt lt xs =
     (if mset (srt lt xs) = mset xs \<and> sorted_wrt (\<lambda>a b. \<not> lt b a) (srt lt xs)
      then srt lt xs else insert_sort lt xs)"

lemma mset_sort_over [simp]: "mset (sort_over srt lt xs) = mset xs"
  by (simp add: sort_over_def)

lemma set_sort_over [simp]: "set (sort_over srt lt xs) = set xs"
  by (rule mset_eq_setD) simp

lemma length_sort_over [simp]: "length (sort_over srt lt xs) = length xs"
  by (rule mset_eq_length) simp

lemma sorted_sort_over:
  assumes "\<And>x y. lt x y \<longleftrightarrow> (key x :: int) < key y"
  shows "sorted (map key (sort_over srt lt xs))"
proof -
  have "(\<lambda>a b. \<not> lt b a) = (\<lambda>a b. key a \<le> key b)" by (simp add: fun_eq_iff assms linorder_not_less)
  then show ?thesis
    using insert_sort_sorted[of lt key, OF assms]
    by (simp add: sort_over_def sorted_map)
qed

lemma sort_over_Nil [simp]: "sort_over srt lt [] = []"
  using length_sort_over[of srt lt "[]"] by (simp del: length_sort_over)

lemma sort_over_single [simp]: "sort_over srt lt [x] = [x]"
proof -
  have "mset (sort_over srt lt [x]) = {#x#}" by simp
  then show ?thesis by (simp del: mset_sort_over)
qed

end
