(* ===== verification/Kube_Objects.thy ===== *)
theory Kube_Objects
  imports Go_Strings
begin

text \<open>
  The data the repository works on, as the API types it imports declare them: kinds, object
  metadata, owner references, the object bodies whose fields the code reads or writes, and the
  release types of \<open>release.caicloud.io/v1alpha1\<close>. Fields the code neither reads nor writes on
  their own are kept together in one opaque component per struct (\<open>*_rest\<close>), so that copying a
  struct copies them.
\<close>

section \<open>Kinds and metadata\<close>

type_synonym int32 = "32 word"

record gvk =
  g_group :: string
  g_version :: string
  g_kind :: string

definition gv_string :: "string \<Rightarrow> string \<Rightarrow> string" where
  "gv_string grp version =
     (if grp = [] \<and> version = [] then []
      else if grp = [] \<and> version = ''v1'' then version
      else if grp \<noteq> [] then grp @ ''/'' @ version
      else version)"

definition gk_string :: "gvk \<Rightarrow> string" where
  "gk_string g = (if g_group g = [] then g_kind g else g_kind g @ ''.'' @ g_group g)"

definition gvk_string :: "gvk \<Rightarrow> string" where
  "gvk_string g = g_group g @ ''/'' @ g_version g @ '', Kind='' @ g_kind g"

definition empty_gvk :: gvk where
  "empty_gvk = \<lparr>g_group = [], g_version = [], g_kind = []\<rparr>"

record owner_ref =
  or_api_version :: string
  or_kind :: string
  or_name :: string
  or_uid :: string

text \<open>
  Time is an integer number of nanoseconds since Go's zero time, so that 0 is the zero value of
  \<open>metav1.Time\<close>. A nil map of annotations or labels is \<open>None\<close>.
\<close>

record objmeta =
  om_name :: string
  om_namespace :: string
  om_uid :: string
  om_resource_version :: string
  om_creation :: int
  om_labels :: "(string \<times> string) list option"
  om_annotations :: "(string \<times> string) list option"
  om_owners :: "owner_ref list"

definition map_get :: "('k \<times> 'v) list option \<Rightarrow> 'k \<Rightarrow> 'v option" where
  "map_get m k = (case m of None \<Rightarrow> None | Some al \<Rightarrow> map_of al k)"

definition new_not_found :: "string \<Rightarrow> string \<Rightarrow> string \<Rightarrow> error" where
  "new_not_found grp resource name =
     NotFound ((if grp = [] then resource else resource @ ''.'' @ grp) @ '' '' @ name @ '' not found'')"

lemma is_not_found_new [simp]: "is_not_found (new_not_found g r n)"
  by (simp add: new_not_found_def)

section \<open>Releases and release histories\<close>

record release_spec =
  rs_description :: string
  rs_template :: "string option"
  rs_config :: string
  rs_suspend :: "bool option"
  rs_rollback_to :: "int32 option"

datatype condition_type = ReleaseAvailable | ReleaseProgressing | ReleaseFailure

record condition =
  co_type :: condition_type
  co_status :: string
  co_time :: int
  co_reason :: string
  co_message :: string

datatype resource_phase =
  ResourceSuspended | ResourcePending | ResourceProgressing | ResourceUpdating
| ResourceRunning | ResourceSucceeded | ResourceFailed

type_synonym resource_counter = "(resource_phase \<times> int32) list"
type_synonym pod_counter = "(string \<times> int32) list"

record detail_status =
  ds_path :: string
  ds_resources :: "(string \<times> resource_counter) list"
  ds_reason :: string
  ds_message :: string

record pod_statistics =
  ps_old :: pod_counter
  ps_updated :: pod_counter

record release_status =
  st_version :: int32
  st_manifest :: string
  st_last_update :: int
  st_details :: "(string \<times> detail_status) list option"
  st_pods :: pod_statistics
  st_conditions :: "condition list"

record release =
  rel_meta :: objmeta
  rel_spec :: release_spec
  rel_status :: release_status

record history_spec =
  hs_description :: string
  hs_version :: int32
  hs_template :: "string option"
  hs_config :: string
  hs_manifest :: string

record history =
  h_meta :: objmeta
  h_spec :: history_spec

abbreviation rel_name :: "release \<Rightarrow> string" where
  "rel_name r \<equiv> om_name (rel_meta r)"

abbreviation rel_namespace :: "release \<Rightarrow> string" where
  "rel_namespace r \<equiv> om_namespace (rel_meta r)"

abbreviation rel_uid :: "release \<Rightarrow> string" where
  "rel_uid r \<equiv> om_uid (rel_meta r)"

abbreviation h_version :: "history \<Rightarrow> int32" where
  "h_version h \<equiv> hs_version (h_spec h)"

definition release_group :: string where
  "release_group = ''release.caicloud.io''"

definition release_api_version :: string where
  "release_api_version = gv_string release_group ''v1alpha1''"

definition gvk_release :: gvk where
  "gvk_release = \<lparr>g_group = release_group, g_version = ''v1alpha1'', g_kind = ''Release''\<rparr>"

definition gvk_release_history :: gvk where
  "gvk_release_history =
     \<lparr>g_group = release_group, g_version = ''v1alpha1'', g_kind = ''ReleaseHistory''\<rparr>"

lemma release_gvks_differ [simp]: "gvk_release \<noteq> gvk_release_history"
  by (simp add: gvk_release_def gvk_release_history_def)

section \<open>Objects\<close>

record service_port =
  sp_port :: int32
  sp_node_port :: int32
  sp_rest :: string

record service_spec =
  svc_cluster_ip :: string
  svc_type :: string
  svc_ports :: "service_port list"
  svc_rest :: string

record statefulset_spec =
  sts_replicas :: "int32 option"
  sts_template :: string
  sts_update_strategy :: string
  sts_rest :: string

record pod_item =
  pi_name :: string
  pi_ip :: string

text \<open>
  The Go type behind a \<open>runtime.Object\<close>. \<open>Opaque\<close> stands for every type whose fields the
  repository does not look at.
\<close>

datatype body =
    Service service_spec string
  | PersistentVolumeClaim string string
  | StatefulSet statefulset_spec string
  | Job string string
  | PodList "pod_item list"
  | ReleaseBody release_spec release_status
  | HistoryBody history_spec
  | Opaque string

text \<open>\<open>o_meta\<close> is \<open>None\<close> for a type that does not implement \<open>ObjectMetaAccessor\<close> (lists).\<close>

record obj =
  o_gvk :: gvk
  o_meta :: "objmeta option"
  o_body :: body

definition obj_of_release :: "release \<Rightarrow> obj" where
  "obj_of_release r =
     \<lparr>o_gvk = gvk_release, o_meta = Some (rel_meta r), o_body = ReleaseBody (rel_spec r) (rel_status r)\<rparr>"

definition obj_of_history :: "history \<Rightarrow> obj" where
  "obj_of_history h =
     \<lparr>o_gvk = gvk_release_history, o_meta = Some (h_meta h), o_body = HistoryBody (h_spec h)\<rparr>"

text \<open>The type assertions \<open>obj.(*Release)\<close> and \<open>obj.(*ReleaseHistory)\<close>; they panic on other types.\<close>

definition as_release :: "obj \<Rightarrow> error + release" where
  "as_release ob =
     (case (o_meta ob, o_body ob) of
        (Some m, ReleaseBody sp st) \<Rightarrow> Inr \<lparr>rel_meta = m, rel_spec = sp, rel_status = st\<rparr>
      | _ \<Rightarrow> Inl (Panic ''interface conversion: not a Release''))"

definition as_history :: "obj \<Rightarrow> error + history" where
  "as_history ob =
     (case (o_meta ob, o_body ob) of
        (Some m, HistoryBody sp) \<Rightarrow> Inr \<lparr>h_meta = m, h_spec = sp\<rparr>
      | _ \<Rightarrow> Inl (Panic ''interface conversion: not a ReleaseHistory''))"

lemma as_release_of_release [simp]: "as_release (obj_of_release r) = Inr r"
  by (simp add: as_release_def obj_of_release_def)

lemma as_history_of_history [simp]: "as_history (obj_of_history h) = Inr h"
  by (simp add: as_history_def obj_of_history_def)

text \<open>What an informer hands out; a deletion may come as a tombstone around the last known object.\<close>

datatype informer_object = Plain obj | Tombstone string "obj option"

fun last_known :: "informer_object \<Rightarrow> obj option" where
  "last_known (Plain ob) = Some ob"
| "last_known (Tombstone _ ob) = ob"

text \<open>
  The pair of strings by which API objects are told apart within one kind, and
  \<open>keyForNamespaceAndName\<close>. Neither part of a key may hold a slash: Kubernetes names are DNS labels.
\<close>

lemma slash_key_inj:
  assumes "CHR ''/'' \<notin> set ns" and "CHR ''/'' \<notin> set ns'"
  shows "ns @ ''/'' @ n = ns' @ ''/'' @ n' \<longleftrightarrow> ns = ns' \<and> n = n'"
proof
  assume eq: "ns @ ''/'' @ n = ns' @ ''/'' @ n'"
  have tw: "takeWhile (\<lambda>c. c \<noteq> CHR ''/'') (m @ ''/'' @ k) = m" if "CHR ''/'' \<notin> set m" for m k
    using that by (induction m) auto
  from arg_cong[OF eq, of "takeWhile (\<lambda>c. c \<noteq> CHR ''/'')"] tw assms have "ns = ns'" by simp
  with eq show "ns = ns' \<and> n = n'" by simp
qed simp

end
