(* ===== verification/API_Resources.thy ===== *)
theory API_Resources
  imports Kube_Objects
begin

text \<open>
  \<open>pkg/kube/resource.go\<close> and \<open>pkg/kube/rest.go\<close>: the table of API resources built from discovery,
  the pool of clients over it, and the requests that a resource client sends. Sending a request
  is code outside the repository: it is the function \<open>rest\<close> the operations are given.
\<close>

section \<open>The table of resources\<close>

record api_resource =
  ar_name :: string
  ar_kind :: string
  ar_namespaced :: bool

definition zero_api_resource :: api_resource where
  "zero_api_resource = \<lparr>ar_name = [], ar_kind = [], ar_namespaced = False\<rparr>"

datatype resource =
  Resource (res_api: api_resource) (res_group: string) (res_version: string)
    (res_subs: "resource list")

definition resource_gvk :: "resource \<Rightarrow> gvk" where
  "resource_gvk r =
     \<lparr>g_group = res_group r, g_version = res_version r, g_kind = ar_kind (res_api r)\<rparr>"

record gvr =
  gvr_group :: string
  gvr_version :: string
  gvr_resource :: string

definition group_version_resource :: "resource \<Rightarrow> gvr" where
  "group_version_resource r =
     \<lparr>gvr_group = res_group r, gvr_version = res_version r, gvr_resource = ar_name (res_api r)\<rparr>"

lemma group_version_resource_simps [simp]:
  "gvr_group (group_version_resource r) = res_group r" "gvr_version (group_version_resource r) = res_version r"
  "gvr_resource (group_version_resource r) = ar_name (res_api r)"
  by (simp_all add: group_version_resource_def)

text \<open>\<open>schema.ParseGroupVersion\<close>\<close>

definition parse_group_version :: "string \<Rightarrow> error + (string \<times> string)" where
  "parse_group_version gv =
     (if gv = [] \<or> gv = ''/'' then Inr ([], [])
      else case split_str gv ''/'' of
          [v] \<Rightarrow> Inr ([], v)
        | [g, v] \<Rightarrow> Inr (g, v)
        | _ \<Rightarrow> Inl (External (''unexpected GroupVersion string: '' @ gv)))"

type_synonym resource_map = "(gvk \<times> resource) list"

text \<open>One round of the inner loop of \<open>NewAPIResources\<close>.\<close>

definition add_api_resource :: "string \<Rightarrow> string \<Rightarrow> api_resource \<Rightarrow> resource_map \<Rightarrow> resource_map" where
  "add_api_resource grp version r m =
     (let g = \<lparr>g_group = grp, g_version = version, g_kind = ar_kind r\<rparr>
      in if CHR ''/'' \<notin> set (ar_name r)
         then (case map_of m g of
                 Some res \<Rightarrow> AList.update g (Resource r (res_group res) (res_version res) (res_subs res)) m
               | None \<Rightarrow> AList.update g (Resource r grp version []) m)
         else (let res = (case map_of m g of
                            Some res \<Rightarrow> res
                          | None \<Rightarrow> Resource zero_api_resource grp version [])
               in AList.update g
                    (Resource (res_api res) (res_group res) (res_version res)
                       (res_subs res @ [Resource r grp version []])) m))"

fun add_api_resources :: "string \<Rightarrow> string \<Rightarrow> api_resource list \<Rightarrow> resource_map \<Rightarrow> resource_map" where
  "add_api_resources grp version [] m = m"
| "add_api_resources grp version (r # rs) m =
     add_api_resources grp version rs (add_api_resource grp version r m)"

fun new_api_resources :: "(string \<times> api_resource list) list \<Rightarrow> resource_map \<Rightarrow> error + resource_map" where
  "new_api_resources [] m = Inr m"
| "new_api_resources ((gv, rs) # rest_lists) m =
     (case parse_group_version gv of
        Inl e \<Rightarrow> Inl e
      | Inr p \<Rightarrow> new_api_resources rest_lists (add_api_resources (fst p) (snd p) rs m))"

definition resource_for :: "resource_map \<Rightarrow> gvk \<Rightarrow> error + resource" where
  "resource_for m g =
     (case map_of m g of
        None \<Rightarrow> Inl (Errorf (''can't find api resource for: '' @ gvk_string g))
      | Some r \<Rightarrow> Inr r)"

text \<open>
  Well-formed tables: every entry stands under its own group and version, its name is that of a
  root resource (or empty, when only subresources were discovered), and its subresources have a
  slash in their names.
\<close>

definition resource_ok :: "gvk \<Rightarrow> resource \<Rightarrow> bool" where
  "resource_ok g r \<longleftrightarrow>
     res_group r = g_group g \<and> res_version r = g_version g \<and>
     CHR ''/'' \<notin> set (ar_name (res_api r)) \<and>
     (res_api r = zero_api_resource \<or> ar_kind (res_api r) = g_kind g) \<and>
     (\<forall>s \<in> set (res_subs r). CHR ''/'' \<in> set (ar_name (res_api s)) \<and> resource_gvk s = g)"

definition table_ok :: "resource_map \<Rightarrow> bool" where
  "table_ok m \<longleftrightarrow> distinct (map fst m) \<and> (\<forall>g r. map_of m g = Some r \<longrightarrow> resource_ok g r)"

lemma table_ok_Nil [simp]: "table_ok []"
  by (simp add: table_ok_def)

lemma table_ok_update:
  "table_ok m \<Longrightarrow> resource_ok g r \<Longrightarrow> table_ok (AList.update g r m)"
  by (auto simp: table_ok_def update_conv' distinct_update split: if_splits)

lemma table_okD: "table_ok m \<Longrightarrow> map_of m g = Some r \<Longrightarrow> resource_ok g r"
  by (simp add: table_ok_def)

lemma resource_ok_root:
  "resource_ok g res \<Longrightarrow> CHR ''/'' \<notin> set (ar_name r) \<Longrightarrow> ar_kind r = g_kind g \<Longrightarrow>
     resource_ok g (Resource r (res_group res) (res_version res) (res_subs res))"
  by (simp add: resource_ok_def)

lemma resource_ok_sub:
  "resource_ok g res \<Longrightarrow> CHR ''/'' \<in> set (ar_name r) \<Longrightarrow> ar_kind r = g_kind g \<Longrightarrow>
     resource_ok g (Resource (res_api res) (res_group res) (res_version res)
       (res_subs res @ [Resource r (g_group g) (g_version g) []]))"
  by (auto simp: resource_ok_def resource_gvk_def)

lemma resource_ok_new:
  "CHR ''/'' \<notin> set (ar_name r) \<Longrightarrow> ar_kind r = g_kind g \<Longrightarrow>
     resource_ok g (Resource r (g_group g) (g_version g) [])"
  "resource_ok g (Resource zero_api_resource (g_group g) (g_version g) [])"
  by (simp_all add: resource_ok_def zero_api_resource_def)

lemma add_api_resource_ok:
  assumes "table_ok m"
  shows "table_ok (add_api_resource grp version r m)"
proof -
  define g where "g = \<lparr>g_group = grp, g_version = version, g_kind = ar_kind r\<rparr>"
  have [simp]: "g_group g = grp" "g_version g = version" "g_kind g = ar_kind r"
    by (simp_all add: g_def)
  note new = resource_ok_new[where g = g, simplified] and sub = resource_ok_sub[where g = g, simplified]
  show ?thesis
  proof (cases "map_of m g")
    case None
    with assms sub[OF new(2), of r] new(1)[of r] show ?thesis
      by (auto simp: add_api_resource_def Let_def g_def[symmetric] intro!: table_ok_update)
  next
    case (Some res)
    with assms have "resource_ok g res" by (rule table_okD)
    with assms Some sub[of res r] resource_ok_root[of g res r] show ?thesis
      by (auto simp: add_api_resource_def Let_def g_def[symmetric] intro!: table_ok_update)
  qed
qed

lemma add_api_resources_ok: "table_ok m \<Longrightarrow> table_ok (add_api_resources grp version rs m)"
  by (induction rs arbitrary: m) (auto intro: add_api_resource_ok)

lemma new_api_resources_ok:
  "new_api_resources rest_lists m = Inr m' \<Longrightarrow> table_ok m \<Longrightarrow> table_ok m'"
proof (induction rest_lists m rule: new_api_resources.induct)
  case (2 gv rs rest_lists m)
  then obtain p where p: "parse_group_version gv = Inr p" by (cases "parse_group_version gv") auto
  with 2 show ?case by (auto intro: add_api_resources_ok)
qed simp

text \<open>A root resource that no later one replaces is the one the table returns.\<close>

lemma map_of_add_api_resource:
  "map_of (add_api_resource grp version r m) g = None \<longleftrightarrow>
     map_of m g = None \<and> g \<noteq> \<lparr>g_group = grp, g_version = version, g_kind = ar_kind r\<rparr>"
  by (auto simp: add_api_resource_def Let_def update_conv' split: option.splits)

section \<open>The pool of clients\<close>

record resource_client =
  rcl_api_path :: string
  rcl_group :: string
  rcl_version :: string
  rcl_resource :: api_resource
  rcl_ns :: string

record client_pool =
  cp_resources :: resource_map
  cp_clients :: "(gvk \<times> resource_client) list"

definition namespace_default :: string where
  "namespace_default = ''default''"

definition base_client :: "gvk \<Rightarrow> resource \<Rightarrow> resource_client" where
  "base_client g r =
     \<lparr>rcl_api_path = (if g_group g = [] then ''/api'' else ''/apis''),
      rcl_group = g_group g, rcl_version = g_version g, rcl_resource = res_api r, rcl_ns = []\<rparr>"

text \<open>
  \<open>clientPool.ClientFor\<close>; \<open>rest_client_for\<close> is \<open>rest.RESTClientFor\<close> on the configuration of a kind.
\<close>

definition client_for ::
  "(gvk \<Rightarrow> error option) \<Rightarrow> gvk \<Rightarrow> string \<Rightarrow> (client_pool, resource_client) io" where
  "client_for rest_client_for g namespace p =
     (case resource_for (cp_resources p) g of
        Inl e \<Rightarrow> (Inl e, p)
      | Inr res \<Rightarrow>
          (let ns = (if \<not> ar_namespaced (res_api res) then []
                     else if namespace = [] then namespace_default else namespace)
           in case map_of (cp_clients p) g of
                Some c \<Rightarrow> (Inr (if ns \<noteq> [] then c\<lparr>rcl_ns := ns\<rparr> else c), p)
              | None \<Rightarrow>
                  (case rest_client_for g of
                     Some e \<Rightarrow> (Inl e, p)
                   | None \<Rightarrow>
                       (let c = base_client g res
                        in (Inr (if ns \<noteq> [] then c\<lparr>rcl_ns := ns\<rparr> else c),
                            p\<lparr>cp_clients := AList.update g c (cp_clients p)\<rparr>)))))"

text \<open>What \<open>ClientFor\<close> returns, without the memory of earlier calls.\<close>

definition client_spec :: "(gvk \<Rightarrow> error option) \<Rightarrow> resource_map \<Rightarrow> gvk \<Rightarrow> string \<Rightarrow> error + resource_client" where
  "client_spec rest_client_for m g namespace =
     (case resource_for m g of
        Inl e \<Rightarrow> Inl e
      | Inr res \<Rightarrow>
          (case rest_client_for g of
             Some e \<Rightarrow> Inl e
           | None \<Rightarrow> Inr ((base_client g res)\<lparr>rcl_ns :=
                 (if \<not> ar_namespaced (res_api res) then []
                  else if namespace = [] then ''default'' else namespace)\<rparr>)))"

definition pool_ok :: "(gvk \<Rightarrow> error option) \<Rightarrow> client_pool \<Rightarrow> bool" where
  "pool_ok rcf p \<longleftrightarrow>
     (\<forall>g c. map_of (cp_clients p) g = Some c \<longrightarrow>
        rcf g = None \<and> (\<exists>r. map_of (cp_resources p) g = Some r \<and> c = base_client g r))"

lemma base_client_ns [simp]: "(base_client g r)\<lparr>rcl_ns := []\<rparr> = base_client g r"
  by (simp add: base_client_def)

lemma client_for_ok:
  assumes "pool_ok rcf p"
  shows "pool_ok rcf (snd (client_for rcf g ns p))"
    and "cp_resources (snd (client_for rcf g ns p)) = cp_resources p"
    and "fst (client_for rcf g ns p) = client_spec rcf (cp_resources p) g ns"
proof -
  note defs = client_for_def client_spec_def resource_for_def Let_def namespace_default_def
  show "cp_resources (snd (client_for rcf g ns p)) = cp_resources p"
    by (simp add: defs split: option.splits)
  show "pool_ok rcf (snd (client_for rcf g ns p))"
    using assms by (auto simp: defs pool_ok_def update_conv' split: option.splits)
  show "fst (client_for rcf g ns p) = client_spec rcf (cp_resources p) g ns"
  proof (cases "map_of (cp_clients p) g")
    case None
    then show ?thesis by (simp add: defs split: option.splits)
  next
    case (Some c)
    with assms obtain r where "rcf g = None" "map_of (cp_resources p) g = Some r" "c = base_client g r"
      unfolding pool_ok_def by blast
    with Some show ?thesis by (simp add: defs)
  qed
qed

section \<open>Requests\<close>

datatype rest_verb = GET | POST | PUT | DELETE | PATCH string

record delete_options =
  do_propagation :: "string option"
  do_precondition_uid :: "string option"

datatype payload = NoBody | BObj obj | BDelete "delete_options option" | BPatch string

record rest_request =
  rq_verb :: rest_verb
  rq_group :: string
  rq_version :: string
  rq_namespace :: "string option"
  rq_resource :: string
  rq_name :: "string option"
  rq_selector :: string
  rq_body :: payload

type_synonym 's rest = "rest_request \<Rightarrow> ('s, obj) io"

definition request :: "resource_client \<Rightarrow> rest_verb \<Rightarrow> string option \<Rightarrow> string \<Rightarrow> payload \<Rightarrow> rest_request" where
  "request c v nm sel b =
     \<lparr>rq_verb = v, rq_group = rcl_group c, rq_version = rcl_version c,
      rq_namespace = (if ar_namespaced (rcl_resource c) then Some (rcl_ns c) else None),
      rq_resource = ar_name (rcl_resource c), rq_name = nm, rq_selector = sel, rq_body = b\<rparr>"

definition rc_list :: "'s rest \<Rightarrow> resource_client \<Rightarrow> string \<Rightarrow> ('s, obj) io" where
  "rc_list rest c sel = rest (request c GET None sel NoBody)"

definition rc_get :: "'s rest \<Rightarrow> resource_client \<Rightarrow> string \<Rightarrow> ('s, obj) io" where
  "rc_get rest c nm = rest (request c GET (Some nm) [] NoBody)"

definition rc_delete :: "'s rest \<Rightarrow> resource_client \<Rightarrow> string \<Rightarrow> delete_options option \<Rightarrow> ('s, unit) io" where
  "rc_delete rest c nm opts =
     bind_io (rest (request c DELETE (Some nm) [] (BDelete opts))) (\<lambda>_. ret ())"

definition rc_delete_collection ::
  "'s rest \<Rightarrow> resource_client \<Rightarrow> delete_options option \<Rightarrow> string \<Rightarrow> ('s, unit) io" where
  "rc_delete_collection rest c opts sel =
     bind_io (rest (request c DELETE None sel (BDelete opts))) (\<lambda>_. ret ())"

definition rc_create :: "'s rest \<Rightarrow> resource_client \<Rightarrow> obj \<Rightarrow> ('s, obj) io" where
  "rc_create rest c ob = rest (request c POST None [] (BObj ob))"

definition rc_update :: "'s rest \<Rightarrow> resource_client \<Rightarrow> obj \<Rightarrow> ('s, obj) io" where
  "rc_update rest c ob =
     (case o_meta ob of
        None \<Rightarrow> fail (Errorf ''unrecognized object'')
      | Some m \<Rightarrow>
          if length (om_name m) = 0 then fail (Errorf ''object missing name'')
          else rest (request c PUT (Some (om_name m)) [] (BObj ob)))"

definition rc_patch :: "'s rest \<Rightarrow> resource_client \<Rightarrow> string \<Rightarrow> string \<Rightarrow> string \<Rightarrow> ('s, obj) io" where
  "rc_patch rest c nm pt data = rest (request c (PATCH pt) (Some nm) [] (BPatch data))"

lemmas rc_defs = rc_list_def rc_get_def rc_delete_def rc_delete_collection_def rc_create_def
  rc_update_def rc_patch_def

text \<open>The requests that change the server's objects.\<close>

fun mutating_verb :: "rest_verb \<Rightarrow> bool" where
  "mutating_verb GET = False"
| "mutating_verb _ = True"

lemma request_simps [simp]:
  "rq_verb (request c v nm sel b) = v" "rq_name (request c v nm sel b) = nm"
  "rq_body (request c v nm sel b) = b" "rq_resource (request c v nm sel b) = ar_name (rcl_resource c)"
  "rq_selector (request c v nm sel b) = sel"
  by (simp_all add: request_def)

end
