(* ===== verification/Cache_Layer.thy ===== *)
theory Cache_Layer
  imports API_Resources
begin

text \<open>
  \<open>pkg/store/store.go\<close>: the layer of recently written objects that is laid over the informer of
  a kind, and the store that keeps one layer per kind. An informer is its indexer, a map from keys
  to objects, which code outside the repository fills; time is read from the clock. Both are
  arguments of the operations. Listers are the generic listers of \<open>client-go/tools/cache\<close>.
\<close>

section \<open>Generic listers\<close>

type_synonym 'i indexer = "(string \<times> 'i) list"

text \<open>A selector of required labels; the empty one is \<open>labels.Everything()\<close>.\<close>

type_synonym selector = "(string \<times> string) list"

definition selector_matches :: "selector \<Rightarrow> objmeta \<Rightarrow> bool" where
  "selector_matches sel m \<longleftrightarrow> (\<forall>(k, v) \<in> set sel. map_get (om_labels m) k = Some v)"

definition generic_get :: "string \<times> string \<Rightarrow> 'i indexer \<Rightarrow> string \<Rightarrow> error + 'i" where
  "generic_get gr ix key =
     (case map_of ix key of
        None \<Rightarrow> Inl (new_not_found (fst gr) (snd gr) key)
      | Some x \<Rightarrow> Inr x)"

text \<open>
  \<open>ListAll\<close> and \<open>ListAllByNamespace\<close>: \<open>accessor\<close> is \<open>meta.Accessor\<close>, \<open>ns_of\<close> the namespace
  index. With the empty selector the metadata of the items is not looked at.
\<close>

fun list_items :: "('i \<Rightarrow> error + objmeta) \<Rightarrow> selector \<Rightarrow> 'i list \<Rightarrow> error + 'i list" where
  "list_items accessor sel [] = Inr []"
| "list_items accessor sel (x # xs) =
     (if sel = [] then bind_result (list_items accessor sel xs) (\<lambda>ys. Inr (x # ys))
      else case accessor x of
          Inl e \<Rightarrow> Inl e
        | Inr m \<Rightarrow>
            bind_result (list_items accessor sel xs)
              (\<lambda>ys. Inr (if selector_matches sel m then x # ys else ys)))"

definition generic_list ::
  "('i \<Rightarrow> error + objmeta) \<Rightarrow> ('i \<Rightarrow> string) \<Rightarrow> string \<Rightarrow> selector \<Rightarrow> 'i indexer \<Rightarrow> error + 'i list" where
  "generic_list accessor ns_of ns sel ix =
     list_items accessor sel (filter (\<lambda>x. ns = [] \<or> ns_of x = ns) (map snd ix))"

definition obj_accessor :: "obj \<Rightarrow> error + objmeta" where
  "obj_accessor ob =
     (case o_meta ob of
        None \<Rightarrow> Inl (External ''object does not implement the Object interfaces'')
      | Some m \<Rightarrow> Inr m)"

definition obj_namespace :: "obj \<Rightarrow> string" where
  "obj_namespace ob = (case o_meta ob of None \<Rightarrow> [] | Some m \<Rightarrow> om_namespace m)"

lemma list_items_everything [simp]: "list_items accessor [] xs = Inr xs"
  by (induction xs) auto

section \<open>Cache objects\<close>

record cache_object =
  co_namespace :: string
  co_name :: string
  co_uuid :: string
  co_creation :: int
  co_version :: int
  co_existing :: bool
  co_object :: obj
  co_deadline :: int

record cache_layer =
  ly_gr :: "string \<times> string"
  ly_indexer :: "cache_object indexer"
  ly_ttl :: int

definition co_expired :: "int \<Rightarrow> cache_object \<Rightarrow> bool" where
  "co_expired now co \<longleftrightarrow> co_deadline co < now"

text \<open>
  A cache object implements neither \<open>metav1.Object\<close> nor \<open>metav1.ObjectMetaAccessor\<close>, so
  \<open>meta.Accessor\<close> fails on it.
\<close>

definition co_accessor :: "cache_object \<Rightarrow> error + objmeta" where
  "co_accessor co = Inl (External ''object does not implement the Object interfaces'')"

definition co_key :: "string \<Rightarrow> string \<Rightarrow> string" where
  "co_key ns nm = (if length ns > 0 then ns @ ''/'' @ nm else nm)"

definition new_cache_layer :: "string \<times> string \<Rightarrow> int \<Rightarrow> cache_layer" where
  "new_cache_layer gr ttl = \<lparr>ly_gr = gr, ly_indexer = [], ly_ttl = ttl\<rparr>"

text \<open>\<open>cacheLayer.get\<close>: the entry of an object, through the lister of its namespace.\<close>

definition layer_entry :: "cache_layer \<Rightarrow> obj \<Rightarrow> cache_object option" where
  "layer_entry c ob =
     (case o_meta ob of
        None \<Rightarrow> None
      | Some m \<Rightarrow>
          (case generic_get (ly_gr c) (ly_indexer c)
                  (if om_namespace m = [] then om_name m else om_namespace m @ ''/'' @ om_name m) of
             Inl _ \<Rightarrow> None
           | Inr co \<Rightarrow> Some co))"

definition layer_add :: "obj \<Rightarrow> bool \<Rightarrow> int \<Rightarrow> cache_layer \<Rightarrow> (error + unit) \<times> cache_layer" where
  "layer_add ob existing now c =
     (case o_meta ob of
        None \<Rightarrow> (Inl (Panic ''interface conversion''), c)
      | Some m \<Rightarrow>
          (let co = \<lparr>co_namespace = om_namespace m, co_name = om_name m, co_uuid = om_uid m,
                     co_creation = om_creation m, co_version = atoi_val (om_resource_version m),
                     co_existing = existing, co_object = ob, co_deadline = now + ly_ttl c\<rparr>
           in (Inr (), c\<lparr>ly_indexer :=
                 AList.update (co_key (co_namespace co) (co_name co)) co (ly_indexer c)\<rparr>)))"

definition layer_remove :: "obj \<Rightarrow> cache_layer \<Rightarrow> cache_layer" where
  "layer_remove ob c =
     (case layer_entry c ob of
        None \<Rightarrow> c
      | Some co \<Rightarrow>
          c\<lparr>ly_indexer := AList.delete (co_key (co_namespace co) (co_name co)) (ly_indexer c)\<rparr>)"

definition layer_created :: "obj \<Rightarrow> int \<Rightarrow> cache_layer \<Rightarrow> (error + unit) \<times> cache_layer" where
  "layer_created ob now c = layer_add ob True now c"

definition layer_updated :: "obj \<Rightarrow> int \<Rightarrow> cache_layer \<Rightarrow> (error + unit) \<times> cache_layer" where
  "layer_updated ob now c = layer_add ob True now c"

definition layer_deleted :: "obj \<Rightarrow> int \<Rightarrow> cache_layer \<Rightarrow> (error + unit) \<times> cache_layer" where
  "layer_deleted ob now c = layer_add ob False now c"

section \<open>Reading through the layer\<close>

text \<open>\<open>selectObject\<close>\<close>

definition select_object ::
  "obj option \<Rightarrow> cache_object option \<Rightarrow> int \<Rightarrow> cache_layer \<Rightarrow> obj option \<times> cache_layer" where
  "select_object current entry now c =
     (case entry of
        None \<Rightarrow> (current, c)
      | Some co \<Rightarrow>
          if co_expired now co then (current, c)
          else
            let meta = (case current of None \<Rightarrow> None | Some ob \<Rightarrow> o_meta ob);
                creation = (case meta of None \<Rightarrow> 0 | Some m \<Rightarrow> om_creation m);
                version = (case meta of
                    None \<Rightarrow> 0
                  | Some m \<Rightarrow> if om_resource_version m \<noteq> [] then atoi_val (om_resource_version m) else 0)
            in if \<not> creation < co_creation co \<or> co_version co \<le> version
               then (current, layer_remove (co_object co) c)
               else if co_existing co then (Some (co_object co), c)
               else (None, c))"

text \<open>\<open>getByKey\<close>\<close>

definition get_by_key ::
  "string \<Rightarrow> error + obj \<Rightarrow> error + cache_object \<Rightarrow> int \<Rightarrow> cache_layer \<Rightarrow> (error + obj) \<times> cache_layer" where
  "get_by_key key found entry now c =
     (case found of
        Inl err \<Rightarrow>
          if \<not> is_not_found err then (Inl err, c)
          else (case entry of
                  Inl _ \<Rightarrow> (Inl err, c)
                | Inr co \<Rightarrow>
                    (case select_object None (Some co) now c of
                       (Some ob, c') \<Rightarrow> (Inr ob, c')
                     | (None, c') \<Rightarrow> (Inl (new_not_found (fst (ly_gr c)) (snd (ly_gr c)) key), c')))
      | Inr ob \<Rightarrow>
          (case entry of
             Inl _ \<Rightarrow> (Inr ob, c)
           | Inr co \<Rightarrow>
               (case select_object (Some ob) (Some co) now c of
                  (Some ob', c') \<Rightarrow> (Inr ob', c')
                | (None, c') \<Rightarrow> (Inl (new_not_found (fst (ly_gr c)) (snd (ly_gr c)) key), c'))))"

text \<open>\<open>Get\<close> on the layer, and on the lister of one namespace.\<close>

definition layer_get :: "obj indexer \<Rightarrow> string \<Rightarrow> int \<Rightarrow> cache_layer \<Rightarrow> (error + obj) \<times> cache_layer" where
  "layer_get informer nm now c =
     get_by_key nm (generic_get (ly_gr c) informer nm) (generic_get (ly_gr c) (ly_indexer c) nm) now c"

definition layer_ns_get ::
  "obj indexer \<Rightarrow> string \<Rightarrow> string \<Rightarrow> int \<Rightarrow> cache_layer \<Rightarrow> (error + obj) \<times> cache_layer" where
  "layer_ns_get informer ns nm now c =
     get_by_key nm (generic_get (ly_gr c) informer (ns @ ''/'' @ nm))
       (generic_get (ly_gr c) (ly_indexer c) (ns @ ''/'' @ nm)) now c"

text \<open>
  \<open>listBySelector\<close>. \<open>entries\<close> is the map of cached objects by key; \<open>now\<close> gives the time at which
  the entry of a key is examined. The objects of an informer are typed API objects and have
  metadata; one without it would panic in the source and is passed over here.
\<close>

definition name_key :: "string \<Rightarrow> string \<Rightarrow> string" where
  "name_key ns nm = ns @ ''/'' @ nm"

fun cache_map :: "cache_object list \<Rightarrow> cache_object indexer \<Rightarrow> cache_object indexer" where
  "cache_map [] m = m"
| "cache_map (co # cos) m = cache_map cos (AList.update (name_key (co_namespace co) (co_name co)) co m)"

fun list_current ::
  "(string \<Rightarrow> int) \<Rightarrow> obj list \<Rightarrow> cache_object indexer \<Rightarrow> cache_layer \<Rightarrow>
     obj list \<times> cache_object indexer \<times> cache_layer" where
  "list_current now [] entries c = ([], entries, c)"
| "list_current now (ob # obs) entries c =
     (let m = (case o_meta ob of None \<Rightarrow> None | Some m \<Rightarrow> Some (name_key (om_namespace m) (om_name m)))
      in case m of
           None \<Rightarrow> list_current now obs entries c
         | Some key \<Rightarrow>
             (case map_of entries key of
                None \<Rightarrow> list_current now obs entries c
              | Some co \<Rightarrow>
                  (case select_object (Some ob) (Some co) (now key) c of (res, c1) \<Rightarrow>
                   case list_current now obs (AList.delete key entries) c1 of (rest, entries', c2) \<Rightarrow>
                     ((case res of None \<Rightarrow> rest | Some r \<Rightarrow> r # rest), entries', c2))))"

fun list_cached ::
  "(string \<Rightarrow> int) \<Rightarrow> cache_object indexer \<Rightarrow> cache_layer \<Rightarrow> obj list \<times> cache_layer" where
  "list_cached now [] c = ([], c)"
| "list_cached now ((key, co) # entries) c =
     (case select_object None (Some co) (now key) c of (res, c1) \<Rightarrow>
      case list_cached now entries c1 of (rest, c2) \<Rightarrow>
        ((case res of None \<Rightarrow> rest | Some r \<Rightarrow> r # rest), c2))"

definition list_by_selector ::
  "error + obj list \<Rightarrow> error + cache_object list \<Rightarrow> (string \<Rightarrow> int) \<Rightarrow> cache_layer \<Rightarrow>
     (error + obj list) \<times> cache_layer" where
  "list_by_selector current cached now c =
     (case current of
        Inl e \<Rightarrow> (Inl e, c)
      | Inr obs \<Rightarrow>
          (case cached of
             Inl _ \<Rightarrow> (Inr obs, c)
           | Inr cos \<Rightarrow>
               if length cos = 0 then (Inr obs, c)
               else
                 (case list_current now obs (cache_map cos []) c of (kept, entries, c1) \<Rightarrow>
                  case list_cached now entries c1 of (added, c2) \<Rightarrow>
                    (Inr (kept @ added), c2))))"

definition layer_ns_list ::
  "obj indexer \<Rightarrow> string \<Rightarrow> selector \<Rightarrow> (string \<Rightarrow> int) \<Rightarrow> cache_layer \<Rightarrow>
     (error + obj list) \<times> cache_layer" where
  "layer_ns_list informer ns sel now c =
     list_by_selector (generic_list obj_accessor obj_namespace ns sel informer)
       (generic_list co_accessor co_namespace ns sel (ly_indexer c)) now c"

definition layer_list ::
  "obj indexer \<Rightarrow> selector \<Rightarrow> (string \<Rightarrow> int) \<Rightarrow> cache_layer \<Rightarrow> (error + obj list) \<times> cache_layer" where
  "layer_list informer sel now c =
     list_by_selector (generic_list obj_accessor obj_namespace [] sel informer)
       (generic_list co_accessor co_namespace [] sel (ly_indexer c)) now c"

section \<open>Laws of the layer\<close>

text \<open>
  Every entry stands under the key of its own object, which is what the key function of the
  indexer makes true.
\<close>

definition layer_ok :: "cache_layer \<Rightarrow> bool" where
  "layer_ok c \<longleftrightarrow>
     (\<forall>key co. map_of (ly_indexer c) key = Some co \<longrightarrow>
        key = co_key (co_namespace co) (co_name co) \<and>
        (\<exists>m. o_meta (co_object co) = Some m \<and> om_namespace m = co_namespace co \<and>
             om_name m = co_name co \<and> om_creation m = co_creation co \<and>
             atoi_val (om_resource_version m) = co_version co))"

lemma layer_ok_new [simp]: "layer_ok (new_cache_layer gr ttl)"
  by (simp add: layer_ok_def new_cache_layer_def)

lemma layer_add_ok: "layer_ok c \<Longrightarrow> layer_ok (snd (layer_add ob ex now c))"
  by (auto simp: layer_ok_def layer_add_def Let_def update_conv' split: option.splits)

lemma layer_remove_indexer:
  "\<exists>key. map_of (ly_indexer (layer_remove ob c)) = (map_of (ly_indexer c))(key := None) \<or>
         ly_indexer (layer_remove ob c) = ly_indexer c"
  by (auto simp: layer_remove_def delete_conv' split: option.splits)

lemma layer_remove_ok: "layer_ok c \<Longrightarrow> layer_ok (layer_remove ob c)"
  by (auto simp: layer_ok_def layer_remove_def delete_conv' split: option.splits if_splits)

lemma layer_remove_frame [simp]:
  "ly_gr (layer_remove ob c) = ly_gr c" "ly_ttl (layer_remove ob c) = ly_ttl c"
  by (simp_all add: layer_remove_def split: option.splits)

lemma select_object_ok: "layer_ok c \<Longrightarrow> layer_ok (snd (select_object cur e now c))"
  by (auto simp: select_object_def Let_def intro: layer_remove_ok split: option.splits)

lemma get_by_key_ok: "layer_ok c \<Longrightarrow> layer_ok (snd (get_by_key key f e now c))"
  using select_object_ok[of c None _ now] select_object_ok[of c _ _ now]
  by (auto simp: get_by_key_def split: sum.splits option.splits prod.splits) (metis snd_conv)+

text \<open>
  When the informer has an object that was not created before the recorded one, or whose version
  is not older, the layer answers with the informer's object and forgets the record.
\<close>

definition newer_than_entry :: "obj \<Rightarrow> cache_object \<Rightarrow> bool" where
  "newer_than_entry ob co \<longleftrightarrow>
     (case o_meta ob of
        None \<Rightarrow> co_creation co \<le> 0 \<or> co_version co \<le> 0
      | Some m \<Rightarrow> co_creation co \<le> om_creation m \<or>
          co_version co \<le> (if om_resource_version m \<noteq> [] then atoi_val (om_resource_version m) else 0))"

lemma select_object_Some:
  "fst (select_object (Some ob) (Some co) now c) =
     (if co_expired now co \<or> newer_than_entry ob co then Some ob
      else if co_existing co then Some (co_object co) else None)"
  by (auto simp: select_object_def newer_than_entry_def Let_def split: option.splits)

lemma select_object_None:
  "fst (select_object None (Some co) now c) =
     (if co_expired now co \<or> co_creation co \<le> 0 \<or> co_version co \<le> 0 then None
      else if co_existing co then Some (co_object co) else None)"
  by (auto simp: select_object_def Let_def)

lemma fst_get_by_key_Inr:
  "fst (get_by_key key (Inr ob) entry now c) =
     (case entry of
        Inl _ \<Rightarrow> Inr ob
      | Inr co \<Rightarrow>
          if co_expired now co \<or> newer_than_entry ob co then Inr ob
          else if co_existing co then Inr (co_object co)
          else Inl (new_not_found (fst (ly_gr c)) (snd (ly_gr c)) key))"
  using select_object_Some[of ob _ now c]
  by (auto simp: get_by_key_def split: sum.splits option.splits prod.splits if_splits)
     (metis fst_conv option.distinct(1) option.inject)+

lemma fst_get_by_key_Inl:
  assumes "is_not_found err"
  shows "fst (get_by_key key (Inl err) entry now c) =
     (case entry of
        Inl _ \<Rightarrow> Inl err
      | Inr co \<Rightarrow>
          if \<not> co_expired now co \<and> 0 < co_creation co \<and> 0 < co_version co \<and> co_existing co
          then Inr (co_object co)
          else Inl (new_not_found (fst (ly_gr c)) (snd (ly_gr c)) key))"
proof (cases entry)
  case (Inr co)
  show ?thesis
    using assms select_object_None[of co now c]
    by (cases "select_object None (Some co) now c")
       (auto simp: get_by_key_def Inr split: option.splits if_splits)
qed (simp add: get_by_key_def assms)

section \<open>What reading keeps\<close>

text \<open>Reading drops entries and does nothing else to a layer.\<close>

definition kept_by_removal :: "(cache_layer \<Rightarrow> bool) \<Rightarrow> bool" where
  "kept_by_removal P \<longleftrightarrow> (\<forall>ob c. P c \<longrightarrow> P (layer_remove ob c))"

lemma select_keeps: "kept_by_removal P \<Longrightarrow> P c \<Longrightarrow> P (snd (select_object cur e now c))"
  by (auto simp: select_object_def Let_def kept_by_removal_def split: option.splits)

lemma layer_ns_get_keeps: "kept_by_removal P \<Longrightarrow> P c \<Longrightarrow> P (snd (layer_ns_get ix ns nm now c))"
  using select_keeps[of P c None _ now] select_keeps[of P c "Some _" _ now]
  by (auto simp: layer_ns_get_def get_by_key_def split: sum.splits option.splits prod.splits) (metis snd_conv)+

lemma list_current_keeps:
  "kept_by_removal P \<Longrightarrow> P c \<Longrightarrow> P (snd (snd (list_current now obs entries c)))"
proof (induction now obs entries c rule: list_current.induct)
  case (2 now ob obs entries c)
  then show ?case
    using select_keeps[OF 2(4,5)] by (auto simp: Let_def split: option.splits prod.splits) (metis snd_conv)+
qed simp

lemma list_cached_keeps: "kept_by_removal P \<Longrightarrow> P c \<Longrightarrow> P (snd (list_cached now entries c))"
proof (induction now entries c rule: list_cached.induct)
  case (2 now key co entries c)
  then show ?case
    using select_keeps[OF 2(2,3)] by (auto split: option.splits prod.splits) (metis snd_conv)+
qed simp

lemma layer_ns_list_keeps:
  assumes "kept_by_removal P" and "P c"
  shows "P (snd (layer_ns_list ix ns sel now c))"
  using list_cached_keeps[OF assms(1) list_current_keeps[OF assms]] assms(2)
  by (auto simp: layer_ns_list_def list_by_selector_def split: sum.splits prod.splits) (metis snd_conv)+

end
