(* ===== verification/Kube_Codec.thy ===== *)
theory Kube_Codec
  imports Kube_Objects
begin

text \<open>
  \<open>pkg/kube/codec.go\<close>: conversion between resources (YAML text) and objects. The serializer is
  code outside the repository: a codec is the pair of its decoding and encoding functions.
\<close>

record codec =
  cd_decode :: "string \<Rightarrow> error + obj"
  cd_encode :: "obj \<Rightarrow> error + string"

definition resource_to_object :: "codec \<Rightarrow> string \<Rightarrow> error + obj" where
  "resource_to_object c res = cd_decode c res"

definition resources_to_objects :: "codec \<Rightarrow> string list \<Rightarrow> error + obj list" where
  "resources_to_objects c rs = mapM_result (resource_to_object c) rs"

definition object_to_resource :: "codec \<Rightarrow> obj \<Rightarrow> error + string" where
  "object_to_resource c ob =
     (case cd_encode c ob of Inl e \<Rightarrow> Inl e | Inr s \<Rightarrow> Inr s)"

definition objects_to_resources :: "codec \<Rightarrow> obj list \<Rightarrow> error + string list" where
  "objects_to_resources c obs = mapM_result (object_to_resource c) obs"

definition accessor_for_object :: "obj \<Rightarrow> error + objmeta" where
  "accessor_for_object ob =
     (case o_meta ob of None \<Rightarrow> Inl (Errorf ''unrecognized object'') | Some m \<Rightarrow> Inr m)"

definition accessor_for_resource :: "codec \<Rightarrow> string \<Rightarrow> error + (obj \<times> objmeta)" where
  "accessor_for_resource c res =
     bind_result (resource_to_object c res) (\<lambda>ob.
     bind_result (accessor_for_object ob) (\<lambda>m. Inr (ob, m)))"

definition accessors_for_objects :: "obj list \<Rightarrow> error + objmeta list" where
  "accessors_for_objects obs = mapM_result accessor_for_object obs"

definition accessors_for_resources :: "codec \<Rightarrow> string list \<Rightarrow> error + (obj list \<times> objmeta list)" where
  "accessors_for_resources c rs =
     bind_result (mapM_result (accessor_for_resource c) rs) (\<lambda>ps. Inr (map fst ps, map snd ps))"

lemma accessor_for_object_Inr [simp]: "accessor_for_object ob = Inr m \<longleftrightarrow> o_meta ob = Some m"
  by (simp add: accessor_for_object_def split: option.splits)

lemma accessor_for_object_cases:
  "accessor_for_object ob = (case o_meta ob of None \<Rightarrow> Inl (Errorf ''unrecognized object'') | Some m \<Rightarrow> Inr m)"
  by (rule accessor_for_object_def)

lemma accessor_for_resource_Inr:
  "accessor_for_resource c res = Inr (ob, m) \<longleftrightarrow> cd_decode c res = Inr ob \<and> o_meta ob = Some m"
  by (auto simp: accessor_for_resource_def resource_to_object_def bind_result_Inr_iff)

text \<open>The objects and the accessors a codec returns run in step with the resources.\<close>

lemma accessors_for_resources_Inr:
  assumes "accessors_for_resources c rs = Inr (obs, ms)"
  shows "length obs = length rs" "length ms = length rs"
    and "\<And>i. i < length rs \<Longrightarrow> cd_decode c (rs ! i) = Inr (obs ! i) \<and> o_meta (obs ! i) = Some (ms ! i)"
proof -
  from assms obtain ps where ps: "mapM_result (accessor_for_resource c) rs = Inr ps"
    and [simp]: "obs = map fst ps" "ms = map snd ps"
    by (auto simp: accessors_for_resources_def bind_result_Inr_iff)
  from ps have all: "list_all2 (\<lambda>r p. accessor_for_resource c r = Inr p) rs ps"
    by (simp add: mapM_result_Inr_iff)
  then have len: "length ps = length rs" by (auto dest: list_all2_lengthD)
  then show "length obs = length rs" "length ms = length rs" by simp_all
  fix i assume "i < length rs"
  with all len have "accessor_for_resource c (rs ! i) = Inr (fst (ps ! i), snd (ps ! i))"
    by (auto simp: list_all2_conv_all_nth)
  with len \<open>i < length rs\<close> show "cd_decode c (rs ! i) = Inr (obs ! i) \<and> o_meta (obs ! i) = Some (ms ! i)"
    by (simp only: accessor_for_resource_Inr) simp
qed

lemma resources_to_objects_Inr:
  "resources_to_objects c rs = Inr obs \<longleftrightarrow> list_all2 (\<lambda>r ob. cd_decode c r = Inr ob) rs obs"
  by (simp add: resources_to_objects_def mapM_result_Inr_iff resource_to_object_def)

lemma object_to_resource_Inr: "object_to_resource c ob = Inr r \<longleftrightarrow> cd_encode c ob = Inr r"
  by (simp add: object_to_resource_def split: sum.splits)

text \<open>Decoding undoes encoding on the objects for which the serializer's own round trip holds.\<close>

lemma objects_roundtrip:
  assumes "objects_to_resources c obs = Inr rs"
    and "\<And>ob r. ob \<in> set obs \<Longrightarrow> cd_encode c ob = Inr r \<Longrightarrow> cd_decode c r = Inr ob"
  shows "resources_to_objects c rs = Inr obs"
proof -
  have enc: "list_all2 (\<lambda>ob r. cd_encode c ob = Inr r) obs rs"
    using assms(1)
    by (simp add: objects_to_resources_def mapM_result_Inr_iff object_to_resource_Inr)
  have "list_all2 (\<lambda>r ob. cd_decode c r = Inr ob) rs obs"
    unfolding list_all2_conv_all_nth
  proof (intro conjI allI impI)
    show "length rs = length obs" using enc by (auto dest: list_all2_lengthD)
    fix i assume "i < length rs"
    with enc have "i < length obs" "cd_encode c (obs ! i) = Inr (rs ! i)"
      by (auto simp: list_all2_conv_all_nth)
    then show "cd_decode c (rs ! i) = Inr (obs ! i)" using assms(2) nth_mem by blast
  qed
  then show ?thesis by (simp add: resources_to_objects_Inr)
qed

end
