(* ===== verification/Kube_Interfaces.thy ===== *)
theory Kube_Interfaces
  imports Cache_Layer Kube_Codec
begin

text \<open>
  The interfaces \<open>CacheLayers\<close> and \<open>CacheLayer\<close> of \<open>pkg/kube/client.go\<close>, as records of
  operations, and the contract a client of them relies on.
\<close>

record 's layer_ops =
  lo_created :: "obj \<Rightarrow> ('s, unit) io"
  lo_updated :: "obj \<Rightarrow> ('s, unit) io"
  lo_deleted :: "obj \<Rightarrow> ('s, unit) io"
  lo_ns_get :: "string \<Rightarrow> string \<Rightarrow> ('s, obj) io"
  lo_ns_list :: "string \<Rightarrow> selector \<Rightarrow> ('s, obj list) io"

record 's cache_layers =
  cls_layer_for :: "gvk \<Rightarrow> ('s, 's layer_ops) io"

definition read_layer :: "'s cache_layers \<Rightarrow> gvk \<Rightarrow> string \<Rightarrow> string \<Rightarrow> ('s, obj) io" where
  "read_layer ls g ns nm = bind_io (cls_layer_for ls g) (\<lambda>ly. lo_ns_get ly ns nm)"

definition record_created :: "'s cache_layers \<Rightarrow> gvk \<Rightarrow> obj \<Rightarrow> ('s, unit) io" where
  "record_created ls g ob = bind_io (cls_layer_for ls g) (\<lambda>ly. lo_created ly ob)"

definition record_updated :: "'s cache_layers \<Rightarrow> gvk \<Rightarrow> obj \<Rightarrow> ('s, unit) io" where
  "record_updated ls g ob = bind_io (cls_layer_for ls g) (\<lambda>ly. lo_updated ly ob)"

definition record_deleted :: "'s cache_layers \<Rightarrow> gvk \<Rightarrow> obj \<Rightarrow> ('s, unit) io" where
  "record_deleted ls g ob = bind_io (cls_layer_for ls g) (\<lambda>ly. lo_deleted ly ob)"

text \<open>
  An object as the server returns it from a creation: it has a creation time and a resource
  version, and lives under the given name.
\<close>

definition recordable :: "string \<Rightarrow> string \<Rightarrow> obj \<Rightarrow> bool" where
  "recordable ns nm ob \<longleftrightarrow>
     (\<exists>m. o_meta ob = Some m \<and> om_namespace m = ns \<and> om_name m = nm \<and>
          0 < om_creation m \<and> 0 < atoi_val (om_resource_version m))"

text \<open>
  The contract: \<open>known g s\<close> says that the layer of kind \<open>g\<close> is there, \<open>absent g ns nm s\<close> that the
  source under the layer does not have the object yet. An object that was
  recorded as created is read back as it was recorded.
\<close>

locale read_your_creates =
  fixes layers :: "'s cache_layers"
    and known :: "gvk \<Rightarrow> 's \<Rightarrow> bool"
    and absent :: "gvk \<Rightarrow> string \<Rightarrow> string \<Rightarrow> 's \<Rightarrow> bool"
  assumes created_then_read:
      "known g s \<Longrightarrow> ns \<noteq> [] \<Longrightarrow> absent g ns nm s \<Longrightarrow> recordable ns nm ob \<Longrightarrow>
         \<exists>s'. record_created layers g ob s = (Inr (), s') \<and> known g s' \<and> absent g ns nm s' \<and>
              read_layer layers g ns nm s' = (Inr ob, s')"
begin

lemma created_succeeds:
  "known g s \<Longrightarrow> ns \<noteq> [] \<Longrightarrow> absent g ns nm s \<Longrightarrow> recordable ns nm ob \<Longrightarrow>
     \<exists>s'. record_created layers g ob s = (Inr (), s') \<and> known g s'"
  using created_then_read by blast

lemma read_after_create:
  assumes "known g s" "ns \<noteq> []" "absent g ns nm s" "recordable ns nm ob"
    and "record_created layers g ob s = (Inr (), s')"
  shows "read_layer layers g ns nm s' = (Inr ob, s')"
  using created_then_read[OF assms(1-4)] assms(5) by auto

end

end
