(* ===== verification/Kube_Sorter.thy ===== *)
theory Kube_Sorter
  imports Kube_Objects
begin

text \<open>
  \<open>pkg/kube/sorter.go\<close>: the order of kinds in which resources are installed and uninstalled.
\<close>

type_synonym sort_order = "(string \<times> 8 word) list"

text \<open>\<open>order[k] = int8(i)\<close> for every position \<open>i\<close>.\<close>

fun order_from :: "nat \<Rightarrow> string list \<Rightarrow> sort_order \<Rightarrow> sort_order" where
  "order_from i [] so = so"
| "order_from i (k # ks) so = order_from (Suc i) ks (AList.update k (word_of_nat i) so)"

definition order_by :: "string list \<Rightarrow> sort_order" where
  "order_by kinds = order_from 0 kinds []"

definition install_kinds :: "string list" where
  "install_kinds =
     [''Namespace'', ''ResourceQuota'', ''LimitRange'', ''Secret'', ''ConfigMap'',
      ''PersistentVolume'', ''PersistentVolumeClaim'', ''ServiceAccount'', ''ClusterRole'',
      ''ClusterRoleBinding'', ''Role'', ''RoleBinding'', ''Service'', ''DaemonSet'', ''Pod'',
      ''ReplicationController'', ''ReplicaSet'', ''Deployment'', ''StatefulSet'', ''Job'',
      ''CronJob'', ''Ingress'']"

definition uninstall_kinds :: "string list" where
  "uninstall_kinds =
     [''Ingress'', ''Service'', ''CronJob'', ''Job'', ''StatefulSet'', ''Deployment'',
      ''ReplicaSet'', ''ReplicationController'', ''Pod'', ''DaemonSet'', ''RoleBinding'',
      ''Role'', ''ClusterRoleBinding'', ''ClusterRole'', ''ServiceAccount'',
      ''PersistentVolumeClaim'', ''PersistentVolume'', ''ConfigMap'', ''Secret'',
      ''LimitRange'', ''ResourceQuota'', ''Namespace'']"

definition install_order :: sort_order where
  "install_order = order_by install_kinds"

definition uninstall_order :: sort_order where
  "uninstall_order = order_by uninstall_kinds"

text \<open>\<open>math.MaxInt8\<close> for a kind that is not in the order.\<close>

definition kind_rank :: "sort_order \<Rightarrow> string \<Rightarrow> 8 word" where
  "kind_rank so k = (case map_of so k of None \<Rightarrow> 127 | Some v \<Rightarrow> v)"

definition kind_less :: "sort_order \<Rightarrow> obj \<Rightarrow> obj \<Rightarrow> bool" where
  "kind_less so a b \<longleftrightarrow> kind_rank so (g_kind (o_gvk a)) <s kind_rank so (g_kind (o_gvk b))"

definition sort_objects ::
  "obj sorter \<Rightarrow> sort_order \<Rightarrow> obj list \<Rightarrow> obj list" where
  "sort_objects srt so obs = sort_over srt (kind_less so) obs"

section \<open>Ranks\<close>

definition rank_int :: "sort_order \<Rightarrow> string \<Rightarrow> int" where
  "rank_int so k = sint (kind_rank so k)"

lemma order_from_notin: "k \<notin> set ks \<Longrightarrow> map_of (order_from i ks so) k = map_of so k"
  by (induction ks arbitrary: i so) (auto simp: update_conv')

lemma order_from_nth:
  "distinct ks \<Longrightarrow> j < length ks \<Longrightarrow>
     map_of (order_from i ks so) (ks ! j) = Some (word_of_nat (i + j))"
proof (induction ks arbitrary: i j so)
  case (Cons k ks)
  show ?case
  proof (cases j)
    case 0
    with Cons.prems show ?thesis by (simp add: order_from_notin update_conv')
  next
    case (Suc j')
    with Cons.prems Cons.IH[of j' "Suc i"] show ?thesis by simp
  qed
qed simp

lemma sint_small_word: "i < 128 \<Longrightarrow> sint (word_of_nat i :: 8 word) = int i"
  by (simp add: signed_of_nat signed_take_bit_int_eq_self)

text \<open>The rank of the \<open>i\<close>-th kind of an order of fewer than 128 kinds is \<open>i\<close>.\<close>

lemma rank_int_nth:
  assumes "distinct ks" and "length ks \<le> 127" and "i < length ks"
  shows "rank_int (order_by ks) (ks ! i) = int i"
  using assms sint_small_word[of i]
  by (simp add: rank_int_def kind_rank_def order_by_def order_from_nth)

lemma rank_int_unknown: "k \<notin> set ks \<Longrightarrow> rank_int (order_by ks) k = 127"
  by (simp add: rank_int_def kind_rank_def order_by_def order_from_notin)

lemma distinct_kinds: "distinct install_kinds" "distinct uninstall_kinds"
  by (simp_all add: install_kinds_def uninstall_kinds_def)

lemma kind_less_iff: "kind_less so a b \<longleftrightarrow>
    rank_int so (g_kind (o_gvk a)) < rank_int so (g_kind (o_gvk b))"
  by (simp add: kind_less_def rank_int_def word_sless_alt)

lemma sort_objects_ok:
  "mset (sort_objects srt so obs) = mset obs"
  "sorted (map (\<lambda>ob. rank_int so (g_kind (o_gvk ob))) (sort_objects srt so obs))"
  by (simp add: sort_objects_def) (simp only: sort_objects_def, rule sorted_sort_over, rule kind_less_iff)

lemma sort_objects_set: "set (sort_objects srt so obs) = set obs"
  by (simp add: sort_objects_def)

end
