(* ===== verification/Kube_Appliers.thy ===== *)
theory Kube_Appliers
  imports Kube_Objects
begin

text \<open>
  \<open>pkg/kube/apply\<close>: before an object is updated, the applier registered for its kind copies into
  the desired object the fields of the current one that may not change.
\<close>

type_synonym applier = "obj option \<Rightarrow> obj option \<Rightarrow> error + obj option"

definition cast_panic :: error where
  "cast_panic = Panic ''interface conversion''"

text \<open>\<open>pvc.go\<close>\<close>

fun apply_pvc :: applier where
  "apply_pvc (Some co) (Some dob) =
     (case (o_body co, o_body dob) of
        (PersistentVolumeClaim spec _, PersistentVolumeClaim _ rest) \<Rightarrow>
          Inr (Some (dob\<lparr>o_body := PersistentVolumeClaim spec rest\<rparr>))
      | _ \<Rightarrow> Inl cast_panic)"
| "apply_pvc _ desired = Inr desired"

text \<open>\<open>ss.go\<close>\<close>

fun apply_statefulset :: applier where
  "apply_statefulset (Some co) (Some dob) =
     (case (o_body co, o_body dob) of
        (StatefulSet cspec _, StatefulSet dspec rest) \<Rightarrow>
          (let replicas = sts_replicas dspec;
               template = sts_template dspec;
               strategy = sts_update_strategy dspec;
               spec = cspec\<lparr>sts_replicas := replicas, sts_template := template,
                            sts_update_strategy := strategy\<rparr>
           in Inr (Some (dob\<lparr>o_body := StatefulSet spec rest\<rparr>)))
      | _ \<Rightarrow> Inl cast_panic)"
| "apply_statefulset _ desired = Inr desired"

text \<open>\<open>service.go\<close>\<close>

fun ports_map :: "service_port list \<Rightarrow> (int32 \<times> int32) list \<Rightarrow> (int32 \<times> int32) list" where
  "ports_map [] m = m"
| "ports_map (p # ps) m = ports_map ps (AList.update (sp_port p) (sp_node_port p) m)"

definition valid_node_port :: "int32 \<Rightarrow> bool" where
  "valid_node_port np \<longleftrightarrow> \<not> (np \<le>s 0 \<or> 65535 <s np)"

definition fix_port :: "(int32 \<times> int32) list \<Rightarrow> service_port \<Rightarrow> service_port" where
  "fix_port m p =
     (if \<not> valid_node_port (sp_node_port p)
      then p\<lparr>sp_node_port := (case map_of m (sp_port p) of None \<Rightarrow> 0 | Some v \<Rightarrow> v)\<rparr>
      else p)"

fun apply_service :: applier where
  "apply_service (Some co) (Some dob) =
     (case (o_meta co, o_body co, o_meta dob, o_body dob) of
        (Some cm, Service cspec _, Some dm, Service dspec rest) \<Rightarrow>
          (let dm' = dm\<lparr>om_resource_version := om_resource_version cm\<rparr>;
               spec = dspec\<lparr>svc_cluster_ip := svc_cluster_ip cspec\<rparr>;
               spec' = (if svc_type spec = ''NodePort'' \<and> svc_type cspec = ''NodePort''
                        then spec\<lparr>svc_ports := map (fix_port (ports_map (svc_ports cspec) []))
                                                  (svc_ports spec)\<rparr>
                        else spec)
           in Inr (Some (dob\<lparr>o_meta := Some dm', o_body := Service spec' rest\<rparr>)))
      | _ \<Rightarrow> Inl cast_panic)"
| "apply_service _ desired = Inr desired"

text \<open>\<open>apply.go\<close>: the registry that the three \<open>init\<close> functions fill.\<close>

type_synonym registry = "(gvk \<times> applier) list"

definition register_applier :: "gvk \<Rightarrow> applier \<Rightarrow> registry \<Rightarrow> registry" where
  "register_applier g a reg = AList.update g a reg"

definition gvk_pvc :: gvk where
  "gvk_pvc = \<lparr>g_group = [], g_version = ''v1'', g_kind = ''PersistentVolumeClaim''\<rparr>"

definition gvk_service :: gvk where
  "gvk_service = \<lparr>g_group = [], g_version = ''v1'', g_kind = ''Service''\<rparr>"

definition gvk_statefulset :: gvk where
  "gvk_statefulset = \<lparr>g_group = ''apps'', g_version = ''v1'', g_kind = ''StatefulSet''\<rparr>"

definition appliers :: registry where
  "appliers =
     register_applier gvk_statefulset apply_statefulset
       (register_applier gvk_service apply_service
         (register_applier gvk_pvc apply_pvc []))"

definition apply_fix :: "gvk \<Rightarrow> obj option \<Rightarrow> obj option \<Rightarrow> error + obj option" where
  "apply_fix g current desired =
     (case map_of appliers g of
        Some a \<Rightarrow> a current desired
      | None \<Rightarrow> Inr desired)"

lemma gvk_applier_differ [simp]:
  "gvk_pvc \<noteq> gvk_service" "gvk_pvc \<noteq> gvk_statefulset" "gvk_service \<noteq> gvk_statefulset"
  "gvk_service \<noteq> gvk_pvc" "gvk_statefulset \<noteq> gvk_pvc" "gvk_statefulset \<noteq> gvk_service"
  by (simp_all add: gvk_pvc_def gvk_service_def gvk_statefulset_def)

lemma map_of_appliers:
  "map_of appliers = [gvk_pvc \<mapsto> apply_pvc, gvk_service \<mapsto> apply_service,
                      gvk_statefulset \<mapsto> apply_statefulset]"
  by (auto simp: appliers_def register_applier_def update_conv' fun_eq_iff)

lemma apply_fix_cases:
  "apply_fix g c d =
     (if g = gvk_pvc then apply_pvc c d
      else if g = gvk_service then apply_service c d
      else if g = gvk_statefulset then apply_statefulset c d
      else Inr d)"
  by (simp add: apply_fix_def map_of_appliers)

section \<open>What the appliers keep\<close>

lemma map_of_ports_map:
  "map_of (ports_map ps m) k =
     (case find (\<lambda>p. sp_port p = k) (rev ps) of
        Some p \<Rightarrow> Some (sp_node_port p) | None \<Rightarrow> map_of m k)"
proof (induction ps arbitrary: m)
  case (Cons p ps)
  have "find (\<lambda>p. sp_port p = k) (xs @ [p]) =
        (case find (\<lambda>p. sp_port p = k) xs of None \<Rightarrow> if sp_port p = k then Some p else None
         | Some q \<Rightarrow> Some q)" for xs
    by (induction xs) auto
  with Cons show ?case by (auto simp: update_conv' split: option.splits)
qed simp

lemma fix_port_idem [simp]: "fix_port m (fix_port m p) = fix_port m p"
  by (simp add: fix_port_def)

lemma fix_port_port [simp]: "sp_port (fix_port m p) = sp_port p" "sp_rest (fix_port m p) = sp_rest p"
  by (simp_all add: fix_port_def)

text \<open>An applier keeps the kind, the name and the owners of the desired object.\<close>

lemma apply_fix_frame:
  assumes "apply_fix g c (Some d) = Inr r"
  obtains d' where "r = Some d'" "o_gvk d' = o_gvk d"
    "map_option om_name (o_meta d') = map_option om_name (o_meta d)"
    "map_option om_owners (o_meta d') = map_option om_owners (o_meta d)"
    "map_option om_namespace (o_meta d') = map_option om_namespace (o_meta d)"
proof -
  have "\<exists>d'. r = Some d' \<and> o_gvk d' = o_gvk d \<and>
    map_option om_name (o_meta d') = map_option om_name (o_meta d) \<and>
    map_option om_owners (o_meta d') = map_option om_owners (o_meta d) \<and>
    map_option om_namespace (o_meta d') = map_option om_namespace (o_meta d)"
    using assms unfolding apply_fix_cases
    by (cases c) (auto simp: Let_def split: if_splits body.splits option.splits)
  with that show ?thesis by blast
qed

lemma apply_service_idem:
  "apply_service c d = Inr r \<Longrightarrow> apply_service c r = Inr r"
  by (cases c; cases d) (auto simp: Let_def comp_def split: option.splits body.splits)

lemma apply_pvc_idem: "apply_pvc c d = Inr r \<Longrightarrow> apply_pvc c r = Inr r"
  by (cases c; cases d) (auto split: body.splits)

lemma apply_statefulset_idem: "apply_statefulset c d = Inr r \<Longrightarrow> apply_statefulset c r = Inr r"
  by (cases c; cases d) (auto simp: Let_def split: body.splits)

end
