(* ===== verification/Specified_IPs.thy ===== *)
theory Specified_IPs
  imports Kube_Objects
begin

text \<open>
  \<open>pkg/kube/specified_ip_util.go\<close> and the test of \<open>pkg/kube/specified_ip.go\<close> that decides whether
  a workload gives up addresses: parsing, validating and formatting the lists of specified IPs
  that annotations carry. \<open>json.Unmarshal\<close> and \<open>net.ParseIP\<close> are functions the model is given.
\<close>

section \<open>Keys of subnets\<close>

text \<open>
  \<open>formatSpecifiedIPsSets\<close> orders sets by network, then by subnet. The pair is a type of its own,
  with the comparison of the source as its order.
\<close>

datatype subnet_key = SubnetKey string string

fun subnet_before :: "subnet_key \<Rightarrow> subnet_key \<Rightarrow> bool" where
  "subnet_before (SubnetKey n s) (SubnetKey n' s') = (if n \<noteq> n' then n < n' else s < s')"

instantiation subnet_key :: linorder
begin

definition less_subnet_key :: "subnet_key \<Rightarrow> subnet_key \<Rightarrow> bool" where
  "less_subnet_key = subnet_before"

definition less_eq_subnet_key :: "subnet_key \<Rightarrow> subnet_key \<Rightarrow> bool" where
  "less_eq_subnet_key k k' \<longleftrightarrow> k = k' \<or> k < k'"

instance
proof
  fix x y z :: subnet_key
  show "(x < y) = (x \<le> y \<and> \<not> y \<le> x)"
    by (cases x; cases y) (auto simp: less_eq_subnet_key_def less_subnet_key_def split: if_splits)
  show "x \<le> x" by (simp add: less_eq_subnet_key_def)
  show "x \<le> y \<Longrightarrow> y \<le> z \<Longrightarrow> x \<le> z"
    by (cases x; cases y; cases z) (auto simp: less_eq_subnet_key_def less_subnet_key_def split: if_splits)
  show "x \<le> y \<Longrightarrow> y \<le> x \<Longrightarrow> x = y"
    by (cases x; cases y) (auto simp: less_eq_subnet_key_def less_subnet_key_def split: if_splits)
  show "x \<le> y \<or> y \<le> x"
    by (cases x; cases y) (auto simp: less_eq_subnet_key_def less_subnet_key_def split: if_splits)
qed

end

lemma less_subnet_key_simp [simp]:
  "SubnetKey n s < SubnetKey n' s' \<longleftrightarrow> (if n \<noteq> n' then n < n' else s < s')"
  by (simp add: less_subnet_key_def)

section \<open>Sets of specified IPs\<close>

record ip_set =
  ip_network :: string
  ip_subnet :: string
  ip_ips :: "string list"

definition anno_specified_ips :: string where
  "anno_specified_ips = ''ipam.caicloud.io/specified-ips''"

definition anno_decreasing :: string where
  "anno_decreasing = ''controller.caicloud.io/specified-ips-decreasing''"

definition label_release :: string where
  "label_release = ''controller.caicloud.io/release''"

definition set_key :: "ip_set \<Rightarrow> subnet_key" where
  "set_key s = SubnetKey (ip_network s) (ip_subnet s)"

fun check_sets :: "string list \<Rightarrow> ip_set list \<Rightarrow> error option" where
  "check_sets keys [] = None"
| "check_sets keys (s # ss) =
     (if ip_network s = [] \<or> length (ip_ips s) = 0
      then Some (Errorf ''network and ips must be set'')
      else let key = ip_network s @ ''/'' @ ip_subnet s
           in if key \<in> set keys then Some (Errorf (''duplicate network and subnet '' @ key))
              else check_sets (key # keys) ss)"

fun check_ips :: "(string \<Rightarrow> bool) \<Rightarrow> string list \<Rightarrow> string list \<Rightarrow> error + string list" where
  "check_ips parse seen [] = Inr seen"
| "check_ips parse seen (ip # ips) =
     (if \<not> parse ip then Inl (Errorf (''bad ip address '' @ ip))
      else if ip \<in> set seen then Inl (Errorf (''duplicate ip '' @ ip))
      else check_ips parse (ip # seen) ips)"

fun check_all_ips :: "(string \<Rightarrow> bool) \<Rightarrow> string list \<Rightarrow> ip_set list \<Rightarrow> error option" where
  "check_all_ips parse seen [] = None"
| "check_all_ips parse seen (s # ss) =
     (case check_ips parse seen (ip_ips s) of
        Inl e \<Rightarrow> Some e
      | Inr seen' \<Rightarrow> check_all_ips parse seen' ss)"

definition validate_ip_sets :: "(string \<Rightarrow> bool) \<Rightarrow> ip_set list \<Rightarrow> error option" where
  "validate_ip_sets parse sets =
     (if length sets = 0 then None
      else case check_sets [] sets of
          Some e \<Rightarrow> Some e
        | None \<Rightarrow> check_all_ips parse [] sets)"

definition format_ip_sets :: "ip_set list \<Rightarrow> ip_set list" where
  "format_ip_sets sets =
     (if length sets = 0 then sets
      else map (\<lambda>s. s\<lparr>ip_ips := sort (ip_ips s)\<rparr>) (sort_key set_key sets))"

definition parse_ip_sets ::
  "(string \<Rightarrow> error + ip_set list) \<Rightarrow> (string \<Rightarrow> bool) \<Rightarrow> string \<Rightarrow> error + ip_set list" where
  "parse_ip_sets unmarshal parse s =
     (if length s = 0 then Inr []
      else case unmarshal s of
          Inl e \<Rightarrow> Inl e
        | Inr sets \<Rightarrow>
            (case validate_ip_sets parse sets of
               Some e \<Rightarrow> Inl e
             | None \<Rightarrow> Inr (format_ip_sets sets)))"

definition address_map :: "ip_set list \<Rightarrow> string list" where
  "address_map sets = concat (map ip_ips sets)"

section \<open>Annotations and labels\<close>

definition annotation_value :: "obj \<Rightarrow> string \<Rightarrow> string option" where
  "annotation_value ob k =
     (case o_meta ob of None \<Rightarrow> None | Some m \<Rightarrow> map_get (om_annotations m) k)"

definition label_value :: "obj \<Rightarrow> string \<Rightarrow> string option" where
  "label_value ob k =
     (case o_meta ob of None \<Rightarrow> None | Some m \<Rightarrow> map_get (om_labels m) k)"

text \<open>The string a lookup returns beside its flag: the empty one for an absent key.\<close>

definition value_or_empty :: "string option \<Rightarrow> string" where
  "value_or_empty v = (case v of None \<Rightarrow> [] | Some s \<Rightarrow> s)"

text \<open>
  \<open>setRuntimeObjectAnnotationValue\<close> writes into the map it read, or into a fresh map when the
  object has none. The fresh map is not stored in the object.
\<close>

definition set_annotation_value :: "obj \<Rightarrow> string \<Rightarrow> string \<Rightarrow> obj \<times> bool" where
  "set_annotation_value ob k v =
     (case o_meta ob of
        None \<Rightarrow> (ob, False)
      | Some m \<Rightarrow>
          (case om_annotations m of
             None \<Rightarrow> (ob, True)
           | Some al \<Rightarrow>
               (ob\<lparr>o_meta := Some (m\<lparr>om_annotations := Some (AList.update k v al)\<rparr>)\<rparr>,
                map_of al k \<noteq> Some v)))"

section \<open>Does the list of addresses shrink?\<close>

definition judge_ip_decreasing ::
  "(string \<Rightarrow> error + ip_set list) \<Rightarrow> (string \<Rightarrow> bool) \<Rightarrow> obj \<Rightarrow> obj \<Rightarrow> error + bool" where
  "judge_ip_decreasing unmarshal parse target existence =
     (if annotation_value existence anno_decreasing \<noteq> None then Inr True
      else
        let target_raw = value_or_empty (annotation_value target anno_specified_ips);
            existence_raw = value_or_empty (annotation_value existence anno_specified_ips)
        in if target_raw = existence_raw then Inr False
           else case parse_ip_sets unmarshal parse target_raw of
               Inl e \<Rightarrow> Inl e
             | Inr target_ips \<Rightarrow>
                 (let existence_ips =
                        (case parse_ip_sets unmarshal parse existence_raw of Inl _ \<Rightarrow> [] | Inr x \<Rightarrow> x)
                  in if length existence_ips = 0 then Inr False
                     else Inr (\<exists>s \<in> set existence_ips. \<exists>ip \<in> set (ip_ips s).
                                 ip \<notin> set (address_map target_ips))))"

section \<open>Laws\<close>

definition subnet_string :: "ip_set \<Rightarrow> string" where
  "subnet_string s = ip_network s @ ''/'' @ ip_subnet s"

lemma check_sets_None:
  "check_sets keys ss = None \<longleftrightarrow>
     (\<forall>s \<in> set ss. ip_network s \<noteq> [] \<and> ip_ips s \<noteq> []) \<and>
     distinct (map subnet_string ss) \<and> set (map subnet_string ss) \<inter> set keys = {}"
  by (induction ss arbitrary: keys) (auto simp: Let_def subnet_string_def)

lemma check_ips_Inr:
  "check_ips parse seen ips = Inr seen' \<longleftrightarrow>
     (\<forall>ip \<in> set ips. parse ip) \<and> distinct ips \<and> set ips \<inter> set seen = {} \<and> seen' = rev ips @ seen"
  by (induction ips arbitrary: seen) auto

lemma check_all_ips_None:
  "check_all_ips parse seen ss = None \<longleftrightarrow>
     (\<forall>ip \<in> set (address_map ss). parse ip) \<and> distinct (address_map ss) \<and>
     set (address_map ss) \<inter> set seen = {}"
proof (induction ss arbitrary: seen)
  case Nil
  then show ?case by (simp add: address_map_def)
next
  case (Cons s ss)
  show ?case
  proof (cases "check_ips parse seen (ip_ips s)")
    case (Inl e)
    then have "\<not> ((\<forall>ip \<in> set (ip_ips s). parse ip) \<and> distinct (ip_ips s) \<and> set (ip_ips s) \<inter> set seen = {})"
      using check_ips_Inr[of parse seen "ip_ips s"] by auto
    with Inl show ?thesis by (auto simp: address_map_def)
  next
    case (Inr seen')
    then have "(\<forall>ip \<in> set (ip_ips s). parse ip) \<and> distinct (ip_ips s) \<and>
        set (ip_ips s) \<inter> set seen = {} \<and> seen' = rev (ip_ips s) @ seen"
      by (simp add: check_ips_Inr)
    with Inr Cons.IH[of seen'] show ?thesis by (auto simp: address_map_def)
  qed
qed

text \<open>Distinct keys, as strings, make distinct pairs.\<close>

lemma distinct_set_keys: "distinct (map subnet_string ss) \<Longrightarrow> distinct (map set_key ss)"
  by (induction ss) (auto simp: subnet_string_def set_key_def)

lemma format_ip_sets_eq:
  "format_ip_sets ss = map (\<lambda>s. s\<lparr>ip_ips := sort (ip_ips s)\<rparr>) (sort_key set_key ss)"
  by (simp add: format_ip_sets_def)

lemma set_key_sorted_ips [simp]: "set_key (s\<lparr>ip_ips := xs\<rparr>) = set_key s"
  by (simp add: set_key_def)

lemma format_ip_sets_sorted: "sorted (map set_key (format_ip_sets ss))"
  by (simp add: format_ip_sets_eq comp_def)

lemma format_ip_sets_keys: "mset (map set_key (format_ip_sets ss)) = mset (map set_key ss)"
  by (simp add: format_ip_sets_eq comp_def)

lemma mset_address_map: "mset (address_map ss) = sum_list (map (mset \<circ> ip_ips) ss)"
  by (induction ss) (auto simp: address_map_def)

lemma mset_address_map_image: "mset (address_map ss) = \<Sum>\<^sub># (image_mset (mset \<circ> ip_ips) (mset ss))"
  by (induction ss) (auto simp: address_map_def)

lemma format_ip_sets_addresses: "mset (address_map (format_ip_sets ss)) = mset (address_map ss)"
proof -
  have "mset (address_map (format_ip_sets ss)) = mset (address_map (sort_key set_key ss))"
    unfolding mset_address_map format_ip_sets_eq by (simp add: comp_def)
  also have "\<dots> = mset (address_map ss)" by (simp add: mset_address_map_image)
  finally show ?thesis .
qed

text \<open>
  With distinct keys every permutation that \<open>sort.Slice\<close> may return is the one the model takes.
\<close>

lemma sort_key_unique:
  assumes "mset ys = mset xs" and "sorted (map set_key ys)" and "distinct (map set_key xs)"
  shows "ys = sort_key set_key xs"
proof -
  have "distinct (map set_key ys)"
    using assms(1,3) by (metis mset_eq_imp_distinct_iff mset_map)
  then have "inj_on set_key (set ys)" by (simp add: distinct_map)
  moreover have "mset (sort_key set_key xs) = mset ys" using assms(1) by simp
  ultimately have "sort_key set_key xs = ys"
    using assms(2) by (metis properties_for_sort_key sort_key_inj_key_eq sorted_sort_key)
  then show ?thesis by simp
qed

end
