(* ===== verification/Kube_Client.thy ===== *)
theory Kube_Client
  imports Kube_Interfaces Kube_Sorter Kube_Appliers Specified_IPs
begin

text \<open>
  \<open>pkg/kube/client.go\<close>, \<open>options.go\<close> and \<open>specified_ip.go\<close>: the client that gets, applies, creates,
  updates and deletes the resources of a release. What it is built from (codec, pool, cache layers)
  and the code outside the repository it calls is the record \<open>kube_env\<close>; the state \<open>'s\<close> is
  whatever the pool, the layers and the server keep.
\<close>

section \<open>Environment and options\<close>

text \<open>
  The functions of Kubernetes and of \<open>mergo\<close> that \<open>setDefaultJob\<close> and \<open>jobEqual\<close> call: job
  defaults, the pod template of a job spec, the two conversions, dropping of disabled pod fields,
  the merge of a source spec over a destination, and the JSON text of a spec.
\<close>

record job_funs =
  jf_defaults :: "obj \<Rightarrow> obj"
  jf_template :: "string \<Rightarrow> string"
  jf_to_internal :: "string \<Rightarrow> error + string"
  jf_drop_disabled :: "string \<Rightarrow> string"
  jf_to_v1 :: "string \<Rightarrow> error + string"
  jf_set_template :: "string \<Rightarrow> string \<Rightarrow> string"
  jf_merge :: "string \<Rightarrow> string \<Rightarrow> error + string"
  jf_json :: "string \<Rightarrow> string"

text \<open>
  \<open>ke_marshal\<close> is \<open>json.Marshal\<close> on objects, \<open>ke_two_way_patch\<close> is
  \<open>strategicpatch.CreateTwoWayMergePatch\<close>, \<open>ke_range\<close> the order in which a \<open>range\<close> over a map visits
  it, \<open>ke_ip_unmarshal\<close> and \<open>ke_ip_parse\<close> are \<open>json.Unmarshal\<close> and \<open>net.ParseIP\<close>, and
  \<open>ke_label_equals\<close> is the text of a selector of one required label.
\<close>

record 's kube_env =
  ke_codec :: codec
  ke_sort :: "obj sorter"
  ke_client_for :: "gvk \<Rightarrow> string \<Rightarrow> ('s, resource_client) io"
  ke_rest :: "'s rest"
  ke_layers :: "'s cache_layers option"
  ke_marshal :: "obj \<Rightarrow> error + string"
  ke_two_way_patch :: "string \<Rightarrow> string \<Rightarrow> obj \<Rightarrow> error + string"
  ke_range :: "(string \<times> nat) list \<Rightarrow> (string \<times> nat) list"
  ke_job :: job_funs
  ke_ip_unmarshal :: "string \<Rightarrow> error + ip_set list"
  ke_ip_parse :: "string \<Rightarrow> bool"
  ke_label_equals :: "string \<Rightarrow> string \<Rightarrow> error + string"

type_synonym owner_refs = "owner_ref list option"

record get_options =
  go_owners :: owner_refs
  go_ignore_nonexistence :: bool

record create_options =
  cr_owners :: owner_refs

record update_options =
  up_owners :: owner_refs
  up_modifier :: "(obj \<Rightarrow> obj \<Rightarrow> obj \<Rightarrow> error + (obj \<times> obj)) option"
  up_filter :: "(obj \<Rightarrow> bool) option"

record apply_options =
  ap_owners :: owner_refs
  ap_checker :: "(obj \<Rightarrow> bool) option"

record delete_opts =
  de_owners :: owner_refs
  de_filter :: "(obj \<Rightarrow> bool) option"

section \<open>Ownership\<close>

definition same_owner :: "owner_ref \<Rightarrow> owner_ref \<Rightarrow> bool" where
  "same_owner a b \<longleftrightarrow>
     or_api_version a = or_api_version b \<and> or_kind a = or_kind b \<and>
     or_name a = or_name b \<and> or_uid a = or_uid b"

definition own :: "owner_refs \<Rightarrow> obj \<Rightarrow> bool" where
  "own refs ob =
     (case accessor_for_object ob of
        Inl _ \<Rightarrow> False
      | Inr m \<Rightarrow>
          (case refs of
             None \<Rightarrow> True
           | Some rs \<Rightarrow> list_all (\<lambda>r. list_ex (same_owner r) (om_owners m)) rs))"

text \<open>\<open>accessor.SetOwnerReferences(append(accessor.GetOwnerReferences(), refs...))\<close>\<close>

definition add_owners :: "owner_ref list \<Rightarrow> obj \<Rightarrow> obj" where
  "add_owners rs ob =
     (case o_meta ob of
        None \<Rightarrow> ob
      | Some m \<Rightarrow> ob\<lparr>o_meta := Some (m\<lparr>om_owners := om_owners m @ rs\<rparr>)\<rparr>)"

section \<open>Reading, and recording what was written\<close>

definition get_object :: "'s kube_env \<Rightarrow> gvk \<Rightarrow> string \<Rightarrow> string \<Rightarrow> ('s, obj) io" where
  "get_object k g ns nm =
     (case ke_layers k of
        Some ls \<Rightarrow> read_layer ls g ns nm
      | None \<Rightarrow> bind_io (ke_client_for k g ns) (\<lambda>c. rc_get (ke_rest k) c nm))"

definition note_created :: "'s kube_env \<Rightarrow> gvk \<Rightarrow> obj \<Rightarrow> ('s, unit) io" where
  "note_created k g ob =
     (case ke_layers k of None \<Rightarrow> ret () | Some ls \<Rightarrow> record_created ls g ob)"

definition note_updated :: "'s kube_env \<Rightarrow> gvk \<Rightarrow> obj \<Rightarrow> ('s, unit) io" where
  "note_updated k g ob =
     (case ke_layers k of None \<Rightarrow> ret () | Some ls \<Rightarrow> record_updated ls g ob)"

definition note_deleted :: "'s kube_env \<Rightarrow> gvk \<Rightarrow> obj \<Rightarrow> ('s, unit) io" where
  "note_deleted k g ob =
     (case ke_layers k of None \<Rightarrow> ret () | Some ls \<Rightarrow> record_deleted ls g ob)"

definition objects_by_order :: "'s kube_env \<Rightarrow> string list \<Rightarrow> sort_order \<Rightarrow> error + obj list" where
  "objects_by_order k rs so =
     bind_result (resources_to_objects (ke_codec k) rs)
       (\<lambda>obs. Inr (sort_objects (ke_sort k) so obs))"

section \<open>Get\<close>

fun get_objects :: "'s kube_env \<Rightarrow> string \<Rightarrow> get_options \<Rightarrow> obj list \<Rightarrow> ('s, obj list) io" where
  "get_objects k ns opts [] = ret []"
| "get_objects k ns opts (ob # obs) =
     (case accessor_for_object ob of
        Inl e \<Rightarrow> fail e
      | Inr m \<Rightarrow>
          try_io (get_object k (o_gvk ob) ns (om_name m)) (\<lambda>r.
            case r of
              Inl e \<Rightarrow> if is_not_found e \<and> go_ignore_nonexistence opts then get_objects k ns opts obs
                       else fail e
            | Inr found \<Rightarrow>
                if \<not> own (go_owners opts) found
                then fail (Errorf (ns @ ''/'' @ om_name m @ ''('' @ g_kind (o_gvk ob) @
                       '') exists but not belong to current owner''))
                else bind_io (get_objects k ns opts obs) (\<lambda>res. ret (found # res))))"

definition client_get :: "'s kube_env \<Rightarrow> string \<Rightarrow> string list \<Rightarrow> get_options \<Rightarrow> ('s, obj list) io" where
  "client_get k ns rs opts =
     (case accessors_for_resources (ke_codec k) rs of
        Inl e \<Rightarrow> fail e
      | Inr (obs, ms) \<Rightarrow> get_objects k ns opts obs)"

section \<open>Specified addresses\<close>

text \<open>
  The loop of \<open>deleteReleasePodsNotInList\<close>. \<open>err\<close> is the named result: a failed deletion that is
  a NotFound leaves it set and the loop goes on.
\<close>

fun delete_pods ::
  "'s rest \<Rightarrow> resource_client \<Rightarrow> string list \<Rightarrow> pod_item list \<Rightarrow> (string \<times> string) list \<Rightarrow> error option
     \<Rightarrow> ('s, (string \<times> string) list \<times> error option) io" where
  "delete_pods rest c ips [] dl err = ret (dl, err)"
| "delete_pods rest c ips (pod # pods) dl err =
     (if pi_ip pod = [] then delete_pods rest c ips pods dl err
      else if pi_ip pod \<in> set ips then delete_pods rest c ips pods dl err
      else try_io (rc_delete rest c (pi_name pod) None) (\<lambda>r.
        case r of
          Inl e \<Rightarrow> if \<not> is_not_found e then ret (dl, Some e)
                   else delete_pods rest c ips pods (dl @ [(pi_name pod, pi_ip pod)]) (Some e)
        | Inr _ \<Rightarrow> delete_pods rest c ips pods (dl @ [(pi_name pod, pi_ip pod)]) None))"

definition delete_release_pods_not_in_list ::
  "'s kube_env \<Rightarrow> resource_client \<Rightarrow> string \<Rightarrow> string list
     \<Rightarrow> ('s, (string \<times> string) list \<times> error option) io" where
  "delete_release_pods_not_in_list k c release_name ips =
     (case ke_label_equals k label_release release_name of
        Inl e \<Rightarrow> ret ([], Some e)
      | Inr sel \<Rightarrow>
          try_io (rc_list (ke_rest k) c sel) (\<lambda>r.
            case r of
              Inl e \<Rightarrow> ret ([], Some e)
            | Inr ob \<Rightarrow>
                (case o_body ob of
                   PodList items \<Rightarrow> delete_pods (ke_rest k) c ips items [] None
                 | _ \<Rightarrow> fail (Panic ''interface conversion: not a PodList''))))"

definition gvk_pod :: gvk where
  "gvk_pod = \<lparr>g_group = [], g_version = ''v1'', g_kind = ''Pod''\<rparr>"

definition apply_ip_decreasing ::
  "'s kube_env \<Rightarrow> resource_client \<Rightarrow> string \<Rightarrow> obj \<Rightarrow> obj \<Rightarrow> ('s, unit) io" where
  "apply_ip_decreasing k c ns ob existence =
     (let value = value_or_empty (annotation_value ob anno_specified_ips)
      in case parse_ip_sets (ke_ip_unmarshal k) (ke_ip_parse k) value of
           Inl e \<Rightarrow> fail e
         | Inr sets \<Rightarrow>
             (let temp = fst (set_annotation_value
                           (fst (set_annotation_value existence anno_specified_ips value))
                           anno_decreasing [])
              in bind_io (rc_update (ke_rest k) c temp) (\<lambda>_.
                 bind_io (ke_client_for k gvk_pod ns) (\<lambda>pod_client.
                   let release_name = value_or_empty (label_value ob label_release)
                   in if length release_name = 0 then fail (Errorf ''get release name empty'')
                      else bind_io (delete_release_pods_not_in_list k pod_client release_name
                                      (address_map sets))
                             (\<lambda>(_, err). case err of None \<Rightarrow> ret () | Some e \<Rightarrow> fail e)))))"

section \<open>Jobs\<close>

definition job_spec :: "obj \<Rightarrow> error + string" where
  "job_spec ob =
     (case o_body ob of
        Job sp _ \<Rightarrow> Inr sp
      | _ \<Rightarrow> Inl (Panic ''interface conversion: not a Job''))"

definition set_job_spec :: "string \<Rightarrow> obj \<Rightarrow> obj" where
  "set_job_spec sp ob =
     (case o_body ob of Job _ rest \<Rightarrow> ob\<lparr>o_body := Job sp rest\<rparr> | _ \<Rightarrow> ob)"

definition set_default_job :: "job_funs \<Rightarrow> obj \<Rightarrow> error + obj" where
  "set_default_job jf job =
     (let job = jf_defaults jf job
      in bind_result (job_spec job) (\<lambda>sp.
         bind_result (jf_to_internal jf (jf_template jf sp)) (\<lambda>internal.
         bind_result (jf_to_v1 jf (jf_drop_disabled jf internal)) (\<lambda>tmpl.
           Inr (set_job_spec (jf_set_template jf sp tmpl) job)))))"

text \<open>\<open>jobEqual\<close>: the verdict and the desired job, which has been given its defaults.\<close>

definition job_equal :: "job_funs \<Rightarrow> obj \<Rightarrow> obj \<Rightarrow> error + (bool \<times> obj)" where
  "job_equal jf desired current =
     bind_result (job_spec desired) (\<lambda>_.
     bind_result (job_spec current) (\<lambda>current_spec.
     bind_result (set_default_job jf desired) (\<lambda>desired'.
     bind_result (job_spec desired') (\<lambda>desired_spec.
     bind_result (jf_merge jf current_spec desired_spec) (\<lambda>dest_spec.
       Inr (jf_json jf current_spec = jf_json jf dest_spec, desired'))))))"

definition background_delete :: "delete_options option" where
  "background_delete = Some \<lparr>do_propagation = Some ''Background'', do_precondition_uid = None\<rparr>"

definition meta_name :: "obj \<Rightarrow> string" where
  "meta_name ob = (case o_meta ob of None \<Rightarrow> [] | Some m \<Rightarrow> om_name m)"

definition apply_job ::
  "'s kube_env \<Rightarrow> resource_client \<Rightarrow> gvk \<Rightarrow> obj \<Rightarrow> obj \<Rightarrow> ('s, unit) io" where
  "apply_job k c g ob existence =
     (case job_equal (ke_job k) ob existence of
        Inl e \<Rightarrow> fail e
      | Inr (equal, desired) \<Rightarrow>
          if equal then ret ()
          else try_io (rc_delete (ke_rest k) c (meta_name desired) background_delete) (\<lambda>r.
            case r of
              Inl e \<Rightarrow>
                if \<not> is_not_found e then fail e
                else bind_io (note_deleted k g desired) (\<lambda>_.
                     bind_io (rc_create (ke_rest k) c desired) (note_created k g))
            | Inr _ \<Rightarrow>
                bind_io (note_deleted k g desired) (\<lambda>_.
                bind_io (rc_create (ke_rest k) c desired) (note_created k g))))"

section \<open>Apply\<close>

definition checker_accepts :: "apply_options \<Rightarrow> obj \<Rightarrow> bool" where
  "checker_accepts opts ob = (case ap_checker opts of None \<Rightarrow> False | Some chk \<Rightarrow> chk ob)"

definition with_owners :: "apply_options \<Rightarrow> obj \<Rightarrow> obj" where
  "with_owners opts ob =
     (case ap_owners opts of
        None \<Rightarrow> ob
      | Some rs \<Rightarrow> if checker_accepts opts ob then ob else add_owners rs ob)"

text \<open>The branch of \<open>Apply\<close> for an object that exists and may be written.\<close>

definition apply_existing ::
  "'s kube_env \<Rightarrow> string \<Rightarrow> resource_client \<Rightarrow> gvk \<Rightarrow> obj \<Rightarrow> obj \<Rightarrow> ('s, unit) io" where
  "apply_existing k ns c g ob existence =
     (if g_kind g = ''Job'' then apply_job k c g ob existence
      else
        bind_io
          (if g_kind g = ''Deployment'' \<or> g_kind g = ''StatefulSet''
           then bind_io (lift_result (judge_ip_decreasing (ke_ip_unmarshal k) (ke_ip_parse k) ob existence))
                  (\<lambda>decreasing. if decreasing then apply_ip_decreasing k c ns ob existence else ret ())
           else ret ())
          (\<lambda>_. case apply_fix g (Some existence) (Some ob) of
                 Inl e \<Rightarrow> fail e
               | Inr None \<Rightarrow> fail (Panic ''nil pointer dereference'')
               | Inr (Some ob') \<Rightarrow> bind_io (rc_update (ke_rest k) c ob') (note_updated k g)))"

definition apply_object :: "'s kube_env \<Rightarrow> string \<Rightarrow> apply_options \<Rightarrow> obj \<Rightarrow> ('s, unit) io" where
  "apply_object k ns opts obj0 =
     (case accessor_for_object obj0 of
        Inl e \<Rightarrow> fail e
      | Inr m \<Rightarrow>
          (let g = o_gvk obj0; ob = with_owners opts obj0
           in bind_io (ke_client_for k g ns) (\<lambda>c.
              try_io (get_object k g ns (om_name m)) (\<lambda>r.
                case r of
                  Inl e \<Rightarrow>
                    if \<not> is_not_found e then fail e
                    else bind_io (rc_create (ke_rest k) c ob) (note_created k g)
                | Inr existence \<Rightarrow>
                    if own (ap_owners opts) existence \<or> checker_accepts opts ob
                    then apply_existing k ns c g ob existence
                    else fail (Errorf (ns @ ''/'' @ om_name m @ ''('' @ g_kind g @
                           '') is not belong to current owner''))))))"

definition client_apply :: "'s kube_env \<Rightarrow> string \<Rightarrow> string list \<Rightarrow> apply_options \<Rightarrow> ('s, unit) io" where
  "client_apply k ns rs opts =
     (case objects_by_order k rs install_order of
        Inl e \<Rightarrow> fail e
      | Inr obs \<Rightarrow> for_io (apply_object k ns opts) obs)"

section \<open>Create\<close>

definition create_object :: "'s kube_env \<Rightarrow> string \<Rightarrow> create_options \<Rightarrow> obj \<Rightarrow> ('s, unit) io" where
  "create_object k ns opts ob =
     (case accessor_for_object ob of
        Inl e \<Rightarrow> fail e
      | Inr m \<Rightarrow>
          (let g = o_gvk ob;
               send = (let ob' = (case cr_owners opts of None \<Rightarrow> ob | Some rs \<Rightarrow> add_owners rs ob)
                       in bind_io (ke_client_for k g ns) (\<lambda>c.
                          bind_io (rc_create (ke_rest k) c ob') (note_created k g)))
           in try_io (get_object k g ns (om_name m)) (\<lambda>r.
                case r of
                  Inl e \<Rightarrow> if \<not> is_not_found e then fail e else send
                | Inr existence \<Rightarrow> if own (cr_owners opts) existence then ret () else send)))"

definition client_create :: "'s kube_env \<Rightarrow> string \<Rightarrow> string list \<Rightarrow> create_options \<Rightarrow> ('s, unit) io" where
  "client_create k ns rs opts =
     (case objects_by_order k rs install_order of
        Inl e \<Rightarrow> fail e
      | Inr obs \<Rightarrow> for_io (create_object k ns opts) obs)"

section \<open>Delete\<close>

definition delete_object :: "'s kube_env \<Rightarrow> string \<Rightarrow> delete_opts \<Rightarrow> obj \<Rightarrow> ('s, unit) io" where
  "delete_object k ns opts ob =
     (if (case de_filter opts of None \<Rightarrow> False | Some flt \<Rightarrow> flt ob) then ret ()
      else case accessor_for_object ob of
        Inl e \<Rightarrow> fail e
      | Inr m \<Rightarrow>
          try_io (get_object k (o_gvk ob) ns (om_name m)) (\<lambda>r.
            case r of
              Inl e \<Rightarrow> if is_not_found e then ret () else fail e
            | Inr found \<Rightarrow>
                if own (de_owners opts) found
                then bind_io (ke_client_for k (o_gvk found) ns) (\<lambda>c.
                     try_io (rc_delete (ke_rest k) c (om_name m) background_delete) (\<lambda>d.
                       case d of
                         Inl e \<Rightarrow> if \<not> is_not_found e then fail e
                                  else note_deleted k (o_gvk found) found
                       | Inr _ \<Rightarrow> note_deleted k (o_gvk found) found))
                else ret ()))"

definition client_delete :: "'s kube_env \<Rightarrow> string \<Rightarrow> string list \<Rightarrow> delete_opts \<Rightarrow> ('s, unit) io" where
  "client_delete k ns rs opts =
     (case objects_by_order k rs uninstall_order of
        Inl e \<Rightarrow> fail e
      | Inr obs \<Rightarrow> for_io (delete_object k ns opts) obs)"

section \<open>Update\<close>

definition key_for :: "obj \<Rightarrow> objmeta \<Rightarrow> string" where
  "key_for ob m =
     g_group (o_gvk ob) @ ''/'' @ g_version (o_gvk ob) @ ''/'' @ g_kind (o_gvk ob) @ ''/'' @ om_name m"

text \<open>\<open>originalInfos\<close>: the index of each original by its key, the last one for a repeated key.\<close>

fun original_infos :: "nat \<Rightarrow> string list \<Rightarrow> (string \<times> nat) list \<Rightarrow> (string \<times> nat) list" where
  "original_infos i [] infos = infos"
| "original_infos i (key # rest_keys) infos =
     original_infos (Suc i) rest_keys (AList.update key i infos)"

text \<open>The loop over the targets: resources to create, pairs to update, and the originals left.\<close>

fun classify ::
  "string list \<Rightarrow> (string \<times> string) list \<Rightarrow> (string \<times> nat) list
     \<Rightarrow> string list \<times> (string \<times> string) list \<times> (string \<times> nat) list" where
  "classify originals [] infos = ([], [], infos)"
| "classify originals ((key, target) # targets) infos =
     (case map_of infos key of
        None \<Rightarrow>
          (case classify originals targets infos of (cs, us, left) \<Rightarrow> (target # cs, us, left))
      | Some i \<Rightarrow>
          (case classify originals targets (AList.delete key infos) of
             (cs, us, left) \<Rightarrow> (cs, (originals ! i, target) # us, left)))"

definition update_object :: "'s kube_env \<Rightarrow> string \<Rightarrow> update_options \<Rightarrow> string \<times> string \<Rightarrow> ('s, unit) io" where
  "update_object k ns opts u =
     (case accessor_for_resource (ke_codec k) (fst u) of
        Inl e \<Rightarrow> fail e
      | Inr (origin, m) \<Rightarrow>
     (case resource_to_object (ke_codec k) (snd u) of
        Inl e \<Rightarrow> fail e
      | Inr target \<Rightarrow>
          (let g = o_gvk target
           in bind_io (get_object k g ns (om_name m)) (\<lambda>current.
              if \<not> own (up_owners opts) current
              then fail (Errorf (''attempt to update a non-affiliated object: '' @ ns @ ''/'' @ om_name m))
              else bind_io (lift_result
                              (case up_modifier opts of
                                 None \<Rightarrow> Inr (origin, target)
                               | Some f \<Rightarrow> f origin target current)) (\<lambda>(origin, target).
                   bind_io (lift_result (ke_marshal k origin)) (\<lambda>old.
                   bind_io (lift_result (ke_marshal k target)) (\<lambda>new.
                   bind_io (lift_result (ke_two_way_patch k old new current)) (\<lambda>patch.
                     if patch = ''{}'' then ret ()
                     else bind_io (ke_client_for k g ns) (\<lambda>c.
                          bind_io (rc_patch (ke_rest k) c (om_name m)
                                     ''application/strategic-merge-patch+json'' patch)
                            (note_updated k g))))))))))"

definition update_objects :: "'s kube_env \<Rightarrow> string \<Rightarrow> (string \<times> string) list \<Rightarrow> update_options \<Rightarrow> ('s, unit) io" where
  "update_objects k ns us opts = for_io (update_object k ns opts) us"

definition client_update ::
  "'s kube_env \<Rightarrow> string \<Rightarrow> string list \<Rightarrow> string list \<Rightarrow> update_options \<Rightarrow> ('s, unit) io" where
  "client_update k ns originals targets opts =
     (case accessors_for_resources (ke_codec k) originals of
        Inl e \<Rightarrow> fail e
      | Inr (obs, ms) \<Rightarrow>
     (case accessors_for_resources (ke_codec k) targets of
        Inl e \<Rightarrow> fail e
      | Inr (tobs, tms) \<Rightarrow>
          (case classify originals (zip (map2 key_for tobs tms) targets)
                  (original_infos 0 (map2 key_for obs ms) []) of
             (to_create, to_update, left) \<Rightarrow>
               (let to_delete = map (\<lambda>p. originals ! snd p) (range_over (ke_range k) left)
                in bind_io (if to_create \<noteq> []
                            then client_create k ns to_create \<lparr>cr_owners = up_owners opts\<rparr> else ret ()) (\<lambda>_.
                   bind_io (if to_update \<noteq> [] then update_objects k ns to_update opts else ret ()) (\<lambda>_.
                     if to_delete \<noteq> []
                     then client_delete k ns to_delete
                            \<lparr>de_owners = up_owners opts, de_filter = up_filter opts\<rparr>
                     else ret ()))))))"

end
