(* ===== verification/Client_Traces.thy ===== *)
theory Client_Traces
  imports Kube_Client
begin

text \<open>
  What the client of \<open>pkg/kube/client.go\<close> reads and sends, and in which order: every request that
  changes the server is justified by a read that came before it.
\<close>

section \<open>Traces\<close>

text \<open>
  To say in which order a client reads and writes, its environment is wrapped so that the state
  carries a log, newest event first: what every read of a layer answered, every request that was
  sent with its answer, and what was recorded in the layers. The wrapped environment behaves as
  the given one on the state it had.
\<close>

datatype event =
    Read gvk string string "error + obj"
  | Sent rest_request "error + obj"
  | NoteCreated obj
  | NoteUpdated obj
  | NoteDeleted obj

type_synonym 's traced_state = "'s \<times> event list"

definition traced_layer :: "gvk \<Rightarrow> 's layer_ops \<Rightarrow> 's traced_state layer_ops" where
  "traced_layer g ly =
     \<lparr>lo_created = (\<lambda>ob. logged (\<lambda>_. NoteCreated ob) (lo_created ly ob)),
      lo_updated = (\<lambda>ob. logged (\<lambda>_. NoteUpdated ob) (lo_updated ly ob)),
      lo_deleted = (\<lambda>ob. logged (\<lambda>_. NoteDeleted ob) (lo_deleted ly ob)),
      lo_ns_get = (\<lambda>ns nm. logged (Read g ns nm) (lo_ns_get ly ns nm)),
      lo_ns_list = (\<lambda>ns sel. quiet (lo_ns_list ly ns sel))\<rparr>"

definition traced_layers :: "'s cache_layers \<Rightarrow> 's traced_state cache_layers" where
  "traced_layers ls =
     \<lparr>cls_layer_for = (\<lambda>g. bind_io (quiet (cls_layer_for ls g)) (\<lambda>ly. ret (traced_layer g ly)))\<rparr>"

definition traced_rest :: "'s rest \<Rightarrow> 's traced_state rest" where
  "traced_rest rest rq = logged (Sent rq) (rest rq)"

definition traced :: "'s kube_env \<Rightarrow> 's traced_state kube_env" where
  "traced k =
     \<lparr>ke_codec = ke_codec k, ke_sort = ke_sort k,
      ke_client_for = (\<lambda>g ns. quiet (ke_client_for k g ns)),
      ke_rest = traced_rest (ke_rest k),
      ke_layers = map_option traced_layers (ke_layers k),
      ke_marshal = ke_marshal k, ke_two_way_patch = ke_two_way_patch k, ke_range = ke_range k,
      ke_job = ke_job k, ke_ip_unmarshal = ke_ip_unmarshal k, ke_ip_parse = ke_ip_parse k,
      ke_label_equals = ke_label_equals k\<rparr>"

lemma traced_simps [simp]:
  "ke_codec (traced k) = ke_codec k" "ke_sort (traced k) = ke_sort k"
  "ke_client_for (traced k) g ns = quiet (ke_client_for k g ns)"
  "ke_rest (traced k) = traced_rest (ke_rest k)"
  "ke_layers (traced k) = map_option traced_layers (ke_layers k)"
  "ke_marshal (traced k) = ke_marshal k" "ke_two_way_patch (traced k) = ke_two_way_patch k"
  "ke_range (traced k) = ke_range k" "ke_job (traced k) = ke_job k"
  "ke_ip_unmarshal (traced k) = ke_ip_unmarshal k" "ke_ip_parse (traced k) = ke_ip_parse k"
  "ke_label_equals (traced k) = ke_label_equals k"
  by (simp_all add: traced_def)

lemma wp_traced_rest: "(\<And>r s'. Q r (s', Sent rq r # snd st)) \<Longrightarrow> wp (traced_rest rest rq) Q st"
  unfolding traced_rest_def by (rule wp_logged)

text \<open>A run of the wrapped environment is a run of the given one, plus a log.\<close>

definition mirrors :: "('s traced_state, 'a) io \<Rightarrow> ('s, 'a) io \<Rightarrow> bool" where
  "mirrors m' m \<longleftrightarrow> (\<forall>st. fst (m' st) = fst (m (fst st)) \<and> fst (snd (m' st)) = snd (m (fst st)))"

named_theorems mirror_intros \<open>runs of the traced environment mirror runs of the plain one\<close>

lemma mirrors_basic [mirror_intros]:
  "mirrors (ret x) (ret x)" "mirrors (fail e) (fail e)" "mirrors (lift_result r) (lift_result r)"
  "mirrors (quiet m) m" "mirrors (logged f m) m"
  by (auto simp: mirrors_def ret_def fail_def lift_result_def quiet_def logged_def split: prod.splits)

lemma mirrors_bind [mirror_intros]:
  assumes "mirrors m' m" "\<And>x. mirrors (f' x) (f x)"
  shows "mirrors (bind_io m' f') (bind_io m f)"
  unfolding mirrors_def
proof
  fix st :: "'a traced_state"
  obtain r s1 where m: "m (fst st) = (r, s1)" by (cases "m (fst st)")
  obtain r' st1 where m': "m' st = (r', st1)" by (cases "m' st")
  from assms(1) have "r' = r" "fst st1 = s1"
    unfolding mirrors_def by (metis m m' fst_conv snd_conv)+
  with assms(2) m m' show "fst (bind_io m' f' st) = fst (bind_io m f (fst st)) \<and>
      fst (snd (bind_io m' f' st)) = snd (bind_io m f (fst st))"
    unfolding mirrors_def by (cases r) (simp_all add: bind_io_def del: split_paired_All)
qed

lemma mirrors_try [mirror_intros]:
  assumes "mirrors m' m" "\<And>x. mirrors (f' x) (f x)"
  shows "mirrors (try_io m' f') (try_io m f)"
  unfolding mirrors_def
proof
  fix st :: "'a traced_state"
  obtain r s1 where m: "m (fst st) = (r, s1)" by (cases "m (fst st)")
  obtain r' st1 where m': "m' st = (r', st1)" by (cases "m' st")
  from assms(1) have "r' = r" "fst st1 = s1"
    unfolding mirrors_def by (metis m m' fst_conv snd_conv)+
  with assms(2) m m' show "fst (try_io m' f' st) = fst (try_io m f (fst st)) \<and>
      fst (snd (try_io m' f' st)) = snd (try_io m f (fst st))"
    unfolding mirrors_def by (cases r) (simp_all add: try_io_def del: split_paired_All)
qed

lemma mirrors_for [mirror_intros]:
  "(\<And>x. mirrors (f' x) (f x)) \<Longrightarrow> mirrors (for_io f' xs) (for_io f xs)"
  by (induction xs) (auto intro: mirror_intros)

lemma mirrors_rest [mirror_intros]: "mirrors (traced_rest rest rq) (rest rq)"
  unfolding traced_rest_def by (rule mirror_intros)

lemma mirrors_rc [mirror_intros]:
  "mirrors (rc_list (traced_rest rest) c sel) (rc_list rest c sel)"
  "mirrors (rc_get (traced_rest rest) c nm) (rc_get rest c nm)"
  "mirrors (rc_delete (traced_rest rest) c nm opts) (rc_delete rest c nm opts)"
  "mirrors (rc_create (traced_rest rest) c ob) (rc_create rest c ob)"
  "mirrors (rc_update (traced_rest rest) c ob) (rc_update rest c ob)"
  "mirrors (rc_patch (traced_rest rest) c nm pt d) (rc_patch rest c nm pt d)"
  by (auto simp: rc_defs intro!: mirror_intros split: option.splits)

lemma mirrors_layer:
  assumes "\<And>ly. mirrors (f' (traced_layer g ly)) (f ly)"
  shows "mirrors (bind_io (cls_layer_for (traced_layers ls) g) f') (bind_io (cls_layer_for ls g) f)"
proof -
  have "bind_io (cls_layer_for (traced_layers ls) g) f' =
      bind_io (quiet (cls_layer_for ls g)) (\<lambda>ly. f' (traced_layer g ly))"
    by (auto simp: traced_layers_def bind_io_def ret_def fun_eq_iff split: prod.splits sum.splits)
  then show ?thesis by (auto intro: mirror_intros assms)
qed

lemma mirrors_layer_ops [mirror_intros]:
  "mirrors (read_layer (traced_layers ls) g ns nm) (read_layer ls g ns nm)"
  "mirrors (record_created (traced_layers ls) g ob) (record_created ls g ob)"
  "mirrors (record_updated (traced_layers ls) g ob) (record_updated ls g ob)"
  "mirrors (record_deleted (traced_layers ls) g ob) (record_deleted ls g ob)"
  unfolding read_layer_def record_created_def record_updated_def record_deleted_def
  by (rule mirrors_layer, simp add: traced_layer_def, rule mirror_intros)+

lemma mirrors_object_ops [mirror_intros]:
  "mirrors (get_object (traced k) g ns nm) (get_object k g ns nm)"
  "mirrors (note_created (traced k) g ob) (note_created k g ob)"
  "mirrors (note_updated (traced k) g ob) (note_updated k g ob)"
  "mirrors (note_deleted (traced k) g ob) (note_deleted k g ob)"
  by (auto simp: get_object_def note_created_def note_updated_def note_deleted_def
      split: option.splits intro!: mirror_intros)

lemma mirrors_apply_job [mirror_intros]:
  "mirrors (apply_job (traced k) c g ob existence) (apply_job k c g ob existence)"
  unfolding apply_job_def traced_simps
  by (auto split: sum.splits prod.splits intro!: mirror_intros)

lemma mirrors_delete_pods [mirror_intros]:
  "mirrors (delete_pods (traced_rest rest) c ips pods dl err) (delete_pods rest c ips pods dl err)"
  by (induction pods arbitrary: dl err) (auto split: sum.splits intro!: mirror_intros)

lemma mirrors_release_pods [mirror_intros]:
  "mirrors (delete_release_pods_not_in_list (traced k) c rn ips) (delete_release_pods_not_in_list k c rn ips)"
  unfolding delete_release_pods_not_in_list_def traced_simps
  by (auto split: sum.splits body.splits intro!: mirror_intros)

lemma mirrors_apply_ip [mirror_intros]:
  "mirrors (apply_ip_decreasing (traced k) c ns ob existence) (apply_ip_decreasing k c ns ob existence)"
  unfolding apply_ip_decreasing_def traced_simps
  by (auto simp: Let_def split: sum.splits option.splits intro!: mirror_intros)

lemma mirrors_apply_existing [mirror_intros]:
  "mirrors (apply_existing (traced k) ns c g ob existence) (apply_existing k ns c g ob existence)"
  unfolding apply_existing_def traced_simps
  by (auto split: sum.splits option.splits intro!: mirror_intros)

lemma mirrors_objects [mirror_intros]:
  "mirrors (apply_object (traced k) ns aopts ob) (apply_object k ns aopts ob)"
  "mirrors (create_object (traced k) ns copts ob) (create_object k ns copts ob)"
  "mirrors (delete_object (traced k) ns dopts ob) (delete_object k ns dopts ob)"
  "mirrors (update_object (traced k) ns uopts u) (update_object k ns uopts u)"
  unfolding apply_object_def create_object_def delete_object_def update_object_def traced_simps
  by (auto simp: Let_def accessor_for_object_cases split: sum.splits option.splits intro!: mirror_intros)

lemma objects_by_order_traced [simp]: "objects_by_order (traced k) rs so = objects_by_order k rs so"
  by (simp add: objects_by_order_def)

lemma mirrors_client [mirror_intros]:
  "mirrors (client_apply (traced k) ns rs aopts) (client_apply k ns rs aopts)"
  "mirrors (client_create (traced k) ns rs copts) (client_create k ns rs copts)"
  "mirrors (client_delete (traced k) ns rs dopts) (client_delete k ns rs dopts)"
  "mirrors (update_objects (traced k) ns us uopts) (update_objects k ns us uopts)"
  unfolding client_apply_def client_create_def client_delete_def update_objects_def
  by (auto split: sum.splits intro!: mirror_intros)

lemma mirrors_client_update [mirror_intros]:
  "mirrors (client_update (traced k) ns os ts uopts) (client_update k ns os ts uopts)"
  unfolding client_update_def traced_simps Let_def
  by (auto split: sum.splits prod.splits intro!: mirror_intros)

text \<open>A successful read of one object, from a layer or from the server.\<close>

fun found_by :: "string \<Rightarrow> event \<Rightarrow> obj option" where
  "found_by nm (Read g ns n (Inr ob)) = (if n = nm then Some ob else None)"
| "found_by nm (Sent rq (Inr ob)) = (if rq_verb rq = GET \<and> rq_name rq = Some nm then Some ob else None)"
| "found_by nm _ = None"

fun missed_by :: "string \<Rightarrow> event \<Rightarrow> bool" where
  "missed_by nm (Read g ns n (Inl e)) = (n = nm \<and> is_not_found e)"
| "missed_by nm (Sent rq (Inl e)) = (rq_verb rq = GET \<and> rq_name rq = Some nm \<and> is_not_found e)"
| "missed_by nm _ = False"

text \<open>Every event of a log satisfies \<open>G\<close> against the events before it.\<close>

fun log_ok :: "(event \<Rightarrow> event list \<Rightarrow> bool) \<Rightarrow> event list \<Rightarrow> bool" where
  "log_ok G [] = True"
| "log_ok G (ev # log) = (G ev log \<and> log_ok G log)"

definition sent_write :: "event \<Rightarrow> bool" where
  "sent_write ev = (case ev of Sent rq _ \<Rightarrow> mutating_verb (rq_verb rq) | _ \<Rightarrow> False)"

lemma sent_write_simps [simp]:
  "\<not> sent_write (Read g ns nm r)" "\<not> sent_write (NoteCreated ob)"
  "\<not> sent_write (NoteUpdated ob)" "\<not> sent_write (NoteDeleted ob)"
  "sent_write (Sent rq a) = mutating_verb (rq_verb rq)"
  by (simp_all add: sent_write_def)

definition write_guard :: "(event \<Rightarrow> event list \<Rightarrow> bool) \<Rightarrow> bool" where
  "write_guard G \<longleftrightarrow> (\<forall>ev log. \<not> sent_write ev \<longrightarrow> G ev log)"

lemma log_ok_reads:
  "write_guard G \<Longrightarrow> (\<forall>ev \<in> set evs. \<not> sent_write ev) \<Longrightarrow> log_ok G (evs @ log) = log_ok G log"
  by (induction evs) (auto simp: write_guard_def)

text \<open>What a read adds to the log, and what recording does.\<close>

definition read_events :: "string \<Rightarrow> error + obj \<Rightarrow> event list \<Rightarrow> bool" where
  "read_events nm r evs \<longleftrightarrow>
     (\<forall>ev \<in> set evs. \<not> sent_write ev) \<and>
     (\<forall>found. r = Inr found \<longrightarrow> (\<exists>ev \<in> set evs. found_by nm ev = Some found))"

lemma wp_get_object:
  assumes "\<And>r s' evs. read_events nm r evs \<Longrightarrow> Q r (s', evs @ snd st)"
  shows "wp (get_object (traced k) g ns nm) Q st"
proof -
  have none: "Q (Inl e) (s', snd st)" for e s'
    using assms[of "Inl e" "[]" s'] by (simp add: read_events_def)
  have read: "Q r (s', Read g ns nm r # snd st)" for r s'
    using assms[of r "[Read g ns nm r]" s'] by (simp add: read_events_def)
  have sent: "Q r (s', Sent (request c GET (Some nm) [] NoBody) r # snd st)" for c r s'
    using assms[of r "[Sent (request c GET (Some nm) [] NoBody) r]" s'] by (simp add: read_events_def)
  show ?thesis
    using none read sent
    by (cases "ke_layers k")
      (auto simp: get_object_def read_layer_def traced_layers_def traced_layer_def rc_defs wp_simps
        split: sum.splits intro!: wp_quiet wp_logged wp_traced_rest)
qed

lemma wp_notes:
  assumes "\<And>r s' evs. (\<forall>ev \<in> set evs. \<not> sent_write ev) \<Longrightarrow> Q r (s', evs @ snd st)"
  shows "wp (note_created (traced k) g ob) Q st"
    and "wp (note_updated (traced k) g ob) Q st"
    and "wp (note_deleted (traced k) g ob) Q st"
proof -
  have none: "Q r (s', snd st)" for r s'
    using assms[of "[]" r s'] by simp
  have one: "Q r (s', NoteCreated ob # snd st)" "Q r (s', NoteUpdated ob # snd st)"
    "Q r (s', NoteDeleted ob # snd st)" for r s'
    using assms[of "[NoteCreated ob]"] assms[of "[NoteUpdated ob]"] assms[of "[NoteDeleted ob]"]
    by simp_all
  have [simp]: "Q r st" for r using none[of r "fst st"] by simp
  show "wp (note_created (traced k) g ob) Q st" "wp (note_updated (traced k) g ob) Q st"
    "wp (note_deleted (traced k) g ob) Q st"
    using none one
    by (cases "ke_layers k";
        auto simp: note_created_def note_updated_def note_deleted_def record_created_def
          record_updated_def record_deleted_def traced_layers_def traced_layer_def wp_simps
        split: sum.splits intro!: wp_quiet wp_logged)+
qed

text \<open>A name is backed when a read found an object under it that satisfies \<open>P\<close>.\<close>

definition backed :: "(string \<Rightarrow> obj \<Rightarrow> bool) \<Rightarrow> string \<Rightarrow> event list \<Rightarrow> bool" where
  "backed P n log \<longleftrightarrow>
     (\<exists>nm found. (\<exists>ev \<in> set log. found_by nm ev = Some found) \<and> P nm found \<and>
        (n = nm \<or> n = meta_name found))"

lemma backed_mono: "backed P n log \<Longrightarrow> set log \<subseteq> set log' \<Longrightarrow> backed P n log'"
  unfolding backed_def by blast

lemma backed_read:
  "read_events nm (Inr found) evs \<Longrightarrow> P nm found \<Longrightarrow> backed P nm (evs @ log)"
  "read_events nm (Inr found) evs \<Longrightarrow> P nm found \<Longrightarrow> backed P (meta_name found) (evs @ log)"
  unfolding backed_def read_events_def by auto

section \<open>What Delete sends\<close>

definition filtered :: "delete_opts \<Rightarrow> obj \<Rightarrow> bool" where
  "filtered opts ob = (case de_filter opts of None \<Rightarrow> False | Some flt \<Rightarrow> flt ob)"

text \<open>
  The only changes \<open>Delete\<close> asks for are deletions of unfiltered objects of its list that a read
  found to be owned.
\<close>

definition delete_guard :: "delete_opts \<Rightarrow> obj list \<Rightarrow> event \<Rightarrow> event list \<Rightarrow> bool" where
  "delete_guard opts obs ev log \<longleftrightarrow>
     (sent_write ev \<longrightarrow>
       (\<exists>rq a ob. ev = Sent rq a \<and> rq_verb rq = DELETE \<and> ob \<in> set obs \<and> \<not> filtered opts ob \<and>
          rq_name rq = Some (meta_name ob) \<and> backed (\<lambda>_. own (de_owners opts)) (meta_name ob) log))"

lemma delete_guard_reads [simp]: "write_guard (delete_guard opts obs)"
  by (simp add: write_guard_def delete_guard_def)

lemma write_guard_mono:
  "(\<And>ev log. delete_guard opts obs ev log \<Longrightarrow> G ev log) \<Longrightarrow> write_guard G"
  by (simp add: write_guard_def delete_guard_def)

lemma meta_name_Some [simp]: "o_meta ob = Some m \<Longrightarrow> meta_name ob = om_name m"
  by (simp add: meta_name_def)

lemma delete_object_guarded:
  assumes ob: "ob \<in> set obs" and G: "\<And>ev log. delete_guard opts obs ev log \<Longrightarrow> G ev log"
    and inv: "log_ok G (snd st)"
  shows "wp (delete_object (traced k) ns opts ob) (\<lambda>_ st. log_ok G (snd st)) st"
proof (cases "filtered opts ob \<or> o_meta ob = None")
  case True
  with inv show ?thesis
    by (auto simp: delete_object_def filtered_def accessor_for_object_cases wp_simps split: option.splits)
next
  case False
  then obtain m where m: "o_meta ob = Some m" and nf: "\<not> filtered opts ob" by auto
  have [simp]: "write_guard G" using G by (rule write_guard_mono)
  have del: "G (Sent (request c DELETE (Some (om_name m)) [] b) a) (evs @ log)"
    if "read_events (om_name m) (Inr found) evs" "own (de_owners opts) found" for c b a found evs log
    using that ob nf m backed_read(1)[OF that(1), of "\<lambda>_. own (de_owners opts)" log]
    by (intro G) (unfold delete_guard_def, fastforce)
  show ?thesis
    using nf inv
    by (auto simp: delete_object_def filtered_def[symmetric] accessor_for_object_cases m wp_simps
        rc_defs log_ok_reads read_events_def[THEN iffD1, THEN conjunct1] del
        split: sum.splits intro!: wp_get_object wp_quiet wp_traced_rest wp_notes)
qed

section \<open>What Create sends\<close>

definition given_owners :: "owner_refs \<Rightarrow> obj \<Rightarrow> obj" where
  "given_owners refs ob = (case refs of None \<Rightarrow> ob | Some rs \<Rightarrow> add_owners rs ob)"

definition create_guard :: "create_options \<Rightarrow> obj list \<Rightarrow> event \<Rightarrow> event list \<Rightarrow> bool" where
  "create_guard opts obs ev log \<longleftrightarrow>
     (sent_write ev \<longrightarrow>
       (\<exists>rq a ob. ev = Sent rq a \<and> rq_verb rq = POST \<and> ob \<in> set obs \<and>
          rq_body rq = BObj (given_owners (cr_owners opts) ob)))"

lemma create_guard_reads [simp]: "write_guard (create_guard opts obs)"
  by (simp add: write_guard_def create_guard_def)

lemma own_given_owners: "o_meta ob \<noteq> None \<Longrightarrow> own refs (given_owners refs ob)"
  by (auto simp: own_def given_owners_def add_owners_def accessor_for_object_cases same_owner_def
      list_all_iff list_ex_iff split: option.splits)

lemma create_object_guarded:
  assumes ob: "ob \<in> set obs" and G: "\<And>ev log. create_guard opts obs ev log \<Longrightarrow> G ev log"
    and inv: "log_ok G (snd st)"
  shows "wp (create_object (traced k) ns opts ob) (\<lambda>_ st. log_ok G (snd st)) st"
proof (cases "o_meta ob")
  case None
  with inv show ?thesis by (simp add: create_object_def accessor_for_object_cases wp_simps)
next
  case (Some m)
  have [simp]: "write_guard G" using G by (simp add: write_guard_def create_guard_def)
  have post: "G (Sent (request c POST None [] (BObj (case cr_owners opts of None \<Rightarrow> ob | Some rs \<Rightarrow> add_owners rs ob))) a) log"
    for c a log
    using ob by (intro G) (unfold create_guard_def given_owners_def[symmetric], auto)
  show ?thesis
    using inv
    by (auto simp: create_object_def accessor_for_object_cases Some wp_simps Let_def
        rc_defs log_ok_reads read_events_def[THEN iffD1, THEN conjunct1] post
        split: sum.splits intro!: wp_get_object wp_quiet wp_traced_rest wp_notes)
qed

section \<open>What Apply sends\<close>

text \<open>An object that was found may be written when it is owned or the checker lets it pass.\<close>

definition may_write :: "apply_options \<Rightarrow> obj list \<Rightarrow> string \<Rightarrow> obj \<Rightarrow> bool" where
  "may_write opts obs nm found \<longleftrightarrow>
     own (ap_owners opts) found \<or>
     (\<exists>ob \<in> set obs. meta_name ob = nm \<and> checker_accepts opts (with_owners opts ob))"

text \<open>The name of a pod that an earlier list request returned, with an address.\<close>

definition listed_pod :: "string \<Rightarrow> event list \<Rightarrow> bool" where
  "listed_pod n log \<longleftrightarrow>
     (\<exists>rq l items pod. Sent rq (Inr l) \<in> set log \<and> rq_verb rq = GET \<and> rq_name rq = None \<and>
        o_body l = PodList items \<and> pod \<in> set items \<and> pi_name pod = n \<and> pi_ip pod \<noteq> [])"

definition created_body :: "'s kube_env \<Rightarrow> apply_options \<Rightarrow> obj list \<Rightarrow> payload \<Rightarrow> bool" where
  "created_body k opts obs b \<longleftrightarrow>
     (\<exists>ob \<in> set obs. b = BObj (with_owners opts ob) \<or>
        (\<exists>job. set_default_job (ke_job k) (with_owners opts ob) = Inr job \<and> b = BObj job))"

definition apply_guard :: "'s kube_env \<Rightarrow> apply_options \<Rightarrow> obj list \<Rightarrow> event \<Rightarrow> event list \<Rightarrow> bool" where
  "apply_guard k opts obs ev log \<longleftrightarrow>
     (sent_write ev \<longrightarrow>
       (\<exists>rq a. ev = Sent rq a \<and>
          (case rq_verb rq of
             GET \<Rightarrow> True
           | POST \<Rightarrow> created_body k opts obs (rq_body rq)
           | PUT \<Rightarrow> (\<exists>n. rq_name rq = Some n \<and> backed (may_write opts obs) n log)
           | DELETE \<Rightarrow> (\<exists>n. rq_name rq = Some n \<and> (backed (may_write opts obs) n log \<or> listed_pod n log))
           | PATCH _ \<Rightarrow> False)))"

lemma apply_guard_reads [simp]: "write_guard (apply_guard k opts obs)"
  by (simp add: write_guard_def apply_guard_def)

text \<open>An event of \<open>Apply\<close>, by its verb.\<close>

lemma apply_guard_post [simp]:
  "apply_guard k opts obs (Sent (request c POST nm sel b) a) log \<longleftrightarrow> created_body k opts obs b"
  by (simp add: apply_guard_def)

lemma apply_guard_put [simp]:
  "apply_guard k opts obs (Sent (request c PUT (Some n) sel b) a) log \<longleftrightarrow> backed (may_write opts obs) n log"
  by (simp add: apply_guard_def)

lemma apply_guard_delete [simp]:
  "apply_guard k opts obs (Sent (request c DELETE (Some n) sel b) a) log \<longleftrightarrow>
     backed (may_write opts obs) n log \<or> listed_pod n log"
  by (simp add: apply_guard_def)

lemma apply_guard_get [simp]: "apply_guard k opts obs (Sent (request c GET nm sel b) a) log"
  by (simp add: apply_guard_def)

lemma delete_pods_guarded:
  assumes "log_ok (apply_guard k opts obs) (snd st)"
    and "\<And>pod. pod \<in> set pods \<Longrightarrow> pi_ip pod \<noteq> [] \<Longrightarrow> listed_pod (pi_name pod) (snd st)"
  shows "wp (delete_pods (traced_rest rest) c ips pods dl err)
           (\<lambda>_ st'. log_ok (apply_guard k opts obs) (snd st') \<and> set (snd st) \<subseteq> set (snd st')) st"
  using assms
proof (induction pods arbitrary: dl err st)
  case Nil
  then show ?case by (simp add: wp_simps)
next
  case (Cons pod pods)
  show ?case
  proof (cases "pi_ip pod = [] \<or> pi_ip pod \<in> set ips")
    case True
    with Cons show ?thesis by auto
  next
    case False
    let ?ev = "\<lambda>a. Sent (request c DELETE (Some (pi_name pod)) [] (BDelete None)) a"
    have ok: "log_ok (apply_guard k opts obs) (?ev a # snd st)" for a
      using Cons.prems False by simp
    have more: "listed_pod n (?ev a # snd st)" if "listed_pod n (snd st)" for n a
      using that unfolding listed_pod_def by auto
    have rec: "wp (delete_pods (traced_rest rest) c ips pods dl' err')
        (\<lambda>_ st'. log_ok (apply_guard k opts obs) (snd st') \<and> set (snd st) \<subseteq> set (snd st'))
        (s', ?ev a # snd st)" for dl' err' s' a
      by (rule wp_mono[OF Cons.IH[of "(s', ?ev a # snd st)"]]) (use ok more Cons.prems in auto)
    show ?thesis
      using False ok rec
      by (auto simp: wp_simps rc_defs split: sum.splits intro!: wp_traced_rest)
  qed
qed

text \<open>The invariant of one run of \<open>Apply\<close>: the log is justified and only grows.\<close>

abbreviation apply_inv :: "'s kube_env \<Rightarrow> apply_options \<Rightarrow> obj list \<Rightarrow> event list \<Rightarrow> 's traced_state \<Rightarrow> bool" where
  "apply_inv k opts obs log st \<equiv> log_ok (apply_guard k opts obs) (snd st) \<and> set log \<subseteq> set (snd st)"

lemma delete_release_pods_guarded:
  assumes "log_ok (apply_guard k opts obs) (snd st)"
  shows "wp (delete_release_pods_not_in_list (traced k) c rn ips)
           (\<lambda>_. apply_inv k opts obs (snd st)) st"
proof (cases "ke_label_equals k label_release rn")
  case (Inl e)
  with assms show ?thesis by (simp add: delete_release_pods_not_in_list_def wp_simps)
next
  case (Inr sel)
  let ?rq = "request c GET None sel NoBody"
  have pods: "wp (delete_pods (traced_rest (ke_rest k)) c ips items [] None)
      (\<lambda>_. apply_inv k opts obs (snd st)) (s', Sent ?rq (Inr l) # snd st)"
    if "o_body l = PodList items" for l items s'
  proof (rule wp_mono[OF delete_pods_guarded])
    show "log_ok (apply_guard k opts obs) (snd (s', Sent ?rq (Inr l) # snd st))" using assms by simp
  next
    fix pod assume "pod \<in> set items" "pi_ip pod \<noteq> []"
    with that show "listed_pod (pi_name pod) (snd (s', Sent ?rq (Inr l) # snd st))"
      unfolding listed_pod_def
      by (intro exI[of _ ?rq] exI[of _ l] exI[of _ items] exI[of _ pod]) simp
  qed auto
  show ?thesis
    using assms pods
    by (auto simp: delete_release_pods_not_in_list_def Inr wp_simps rc_defs
        split: sum.splits body.splits intro!: wp_traced_rest)
qed

lemma meta_name_set_annotation [simp]:
  "meta_name (fst (set_annotation_value ob k v)) = meta_name ob"
  by (simp add: set_annotation_value_def meta_name_def split: option.splits)

lemma rc_update_guarded:
  assumes "log_ok (apply_guard k opts obs) (snd st)"
    and "o_meta ob \<noteq> None \<Longrightarrow> backed (may_write opts obs) (meta_name ob) (snd st)"
    and "\<And>e. Q (Inl e) st"
    and "\<And>r s' a. log_ok (apply_guard k opts obs) (a # snd st) \<Longrightarrow> Q r (s', a # snd st)"
  shows "wp (rc_update (traced_rest rest) c ob) Q st"
  using assms
  by (auto simp: rc_defs wp_simps split: option.splits intro!: wp_traced_rest)

lemma wp_delete_release_pods:
  assumes "log_ok (apply_guard k opts obs) (snd st)"
    and "\<And>r st'. apply_inv k opts obs (snd st) st' \<Longrightarrow> Q r st'"
  shows "wp (delete_release_pods_not_in_list (traced k) c rn ips) Q st"
  by (rule wp_mono[OF delete_release_pods_guarded[OF assms(1)]]) (rule assms(2))

lemma apply_ip_decreasing_guarded:
  assumes "log_ok (apply_guard k opts obs) (snd st)"
    and "backed (may_write opts obs) (meta_name existence) (snd st)"
    and Q: "\<And>r st'. apply_inv k opts obs (snd st) st' \<Longrightarrow> Q r st'"
  shows "wp (apply_ip_decreasing (traced k) c ns ob existence) Q st"
  using assms(1,2)
  by (auto simp: apply_ip_decreasing_def wp_simps Let_def split: sum.splits option.splits prod.splits
      intro!: rc_update_guarded wp_quiet wp_delete_release_pods Q)

lemma set_default_job_name:
  assumes "\<And>j. meta_name (jf_defaults jf j) = meta_name j" and "set_default_job jf job = Inr job'"
  shows "meta_name job' = meta_name job"
proof -
  from assms(2) obtain sp where "job' = set_job_spec sp (jf_defaults jf job)"
    by (auto simp: set_default_job_def Let_def bind_result_Inr_iff)
  then have "meta_name job' = meta_name (jf_defaults jf job)"
    by (simp add: set_job_spec_def meta_name_def split: body.splits)
  with assms(1) show ?thesis by simp
qed

lemma job_equal_desired:
  "job_equal jf ob existence = Inr (eq, desired) \<Longrightarrow> set_default_job jf ob = Inr desired"
  by (auto simp: job_equal_def bind_result_Inr_iff)

lemma apply_job_guarded:
  assumes inv: "log_ok (apply_guard k opts obs) (snd st)"
    and bk: "backed (may_write opts obs) (meta_name ob) (snd st)"
    and names: "\<And>j. meta_name (jf_defaults (ke_job k) j) = meta_name j"
    and ob: "obj0 \<in> set obs" "ob = with_owners opts obj0"
  shows "wp (apply_job (traced k) c g ob existence) (\<lambda>_. apply_inv k opts obs (snd st)) st"
proof (cases "job_equal (ke_job k) ob existence")
  case (Inl e)
  with inv show ?thesis by (simp add: apply_job_def wp_simps)
next
  case (Inr p)
  then obtain eq desired where p: "p = (eq, desired)" and je: "job_equal (ke_job k) ob existence = Inr (eq, desired)"
    by (cases p) auto
  note default = job_equal_desired[OF je]
  have name: "meta_name desired = meta_name ob" by (rule set_default_job_name[OF names default])
  have body: "created_body k opts obs (BObj desired)"
    using default ob unfolding created_body_def by blast
  show ?thesis
    using inv bk body
    by (auto simp: apply_job_def je wp_simps rc_defs name log_ok_reads split: sum.splits
        intro!: wp_traced_rest wp_notes)
qed

lemma apply_existing_guarded:
  assumes inv: "log_ok (apply_guard k opts obs) (snd st)"
    and bk: "backed (may_write opts obs) (meta_name ob) (snd st)"
      "backed (may_write opts obs) (meta_name existence) (snd st)"
    and names: "\<And>j. meta_name (jf_defaults (ke_job k) j) = meta_name j"
    and ob: "obj0 \<in> set obs" "ob = with_owners opts obj0"
  shows "wp (apply_existing (traced k) ns c g ob existence) (\<lambda>_ st'. log_ok (apply_guard k opts obs) (snd st')) st"
proof (cases "g_kind g = ''Job''")
  case True
  show ?thesis
    using wp_mono[OF apply_job_guarded[OF inv bk(1) names ob]] True by (auto simp: apply_existing_def)
next
  case False
  have fix_name: "meta_name ob' = meta_name ob" if "apply_fix g (Some existence) (Some ob) = Inr (Some ob')" for ob'
    by (rule apply_fix_frame[OF that]) (auto simp: meta_name_def split: option.splits)
  have fix_om: "om_name y = meta_name ob"
    if "apply_fix g (Some existence) (Some ob) = Inr (Some ob')" "o_meta ob' = Some y" for ob' y
    using fix_name[OF that(1)] that(2) by simp
  define last where "last = (case apply_fix g (Some existence) (Some ob) of
                 Inl e \<Rightarrow> fail e
               | Inr None \<Rightarrow> fail (Panic ''nil pointer dereference'')
               | Inr (Some ob') \<Rightarrow> bind_io (rc_update (traced_rest (ke_rest k)) c ob') (note_updated (traced k) g))"
  let ?ok = "\<lambda>_ st'. log_ok (apply_guard k opts obs) (snd st')"
  have final: "wp last ?ok st1" if "apply_inv k opts obs (snd st) st1" for st1
    using that bk(1) unfolding last_def
    by (auto simp: wp_simps fix_om backed_mono log_ok_reads split: sum.splits option.splits
        intro!: rc_update_guarded wp_notes)
  have dec: "wp (bind_io (apply_ip_decreasing (traced k) c ns ob existence) (\<lambda>_. last)) ?ok st"
    unfolding wp_bind
    by (rule apply_ip_decreasing_guarded[OF inv bk(2)]) (use final in \<open>auto split: sum.splits\<close>)
  have eq: "apply_existing (traced k) ns c g ob existence =
      bind_io (if g_kind g = ''Deployment'' \<or> g_kind g = ''StatefulSet''
               then bind_io (lift_result (judge_ip_decreasing (ke_ip_unmarshal k) (ke_ip_parse k) ob existence))
                  (\<lambda>decreasing. if decreasing then apply_ip_decreasing (traced k) c ns ob existence else ret ())
               else ret ()) (\<lambda>_. last)"
    unfolding apply_existing_def last_def traced_simps using False by simp
  show ?thesis
    using inv dec final[of st]
    by (cases "judge_ip_decreasing (ke_ip_unmarshal k) (ke_ip_parse k) ob existence") (simp_all add: eq wp_simps)
qed

text \<open>Everything \<open>Apply\<close> does to one object is justified.\<close>

lemma with_owners_name [simp]: "meta_name (with_owners opts ob) = meta_name ob"
  by (simp add: with_owners_def add_owners_def meta_name_def split: option.splits)

lemma apply_object_guarded:
  assumes inv: "log_ok (apply_guard k opts obs) (snd st)"
    and names: "\<And>j. meta_name (jf_defaults (ke_job k) j) = meta_name j"
    and ob: "ob \<in> set obs"
  shows "wp (apply_object (traced k) ns opts ob) (\<lambda>_ st'. log_ok (apply_guard k opts obs) (snd st')) st"
proof (cases "o_meta ob")
  case None
  with inv show ?thesis by (simp add: apply_object_def accessor_for_object_cases wp_simps)
next
  case (Some m)
  have body: "created_body k opts obs (BObj (with_owners opts ob))"
    using ob unfolding created_body_def by blast
  have existing: "wp (apply_existing (traced k) ns c (o_gvk ob) (with_owners opts ob) found)
      (\<lambda>_ st'. log_ok (apply_guard k opts obs) (snd st')) (s', evs @ snd st)"
    if "read_events (om_name m) (Inr found) evs"
      and "own (ap_owners opts) found \<or> checker_accepts opts (with_owners opts ob)" for c found s' evs
  proof -
    have mw: "may_write opts obs (om_name m) found"
      using that(2) ob Some unfolding may_write_def by auto
    have name: "om_name m = meta_name (with_owners opts ob)" using Some by simp
    show ?thesis
    proof (rule apply_existing_guarded[OF _ _ _ names ob refl])
      show "log_ok (apply_guard k opts obs) (snd (s', evs @ snd st))"
        using inv that(1) by (simp add: log_ok_reads read_events_def)
      show "backed (may_write opts obs) (meta_name (with_owners opts ob)) (snd (s', evs @ snd st))"
        using backed_read(1)[where P = "may_write opts obs", OF that(1) mw] by (simp add: name)
      show "backed (may_write opts obs) (meta_name found) (snd (s', evs @ snd st))"
        using backed_read(2)[where P = "may_write opts obs", OF that(1) mw] by simp
    qed
  qed
  show ?thesis
    using inv body
    by (auto simp: apply_object_def accessor_for_object_cases Some wp_simps Let_def rc_defs log_ok_reads
        read_events_def[THEN iffD1, THEN conjunct1]
        split: sum.splits intro!: wp_get_object wp_quiet wp_traced_rest wp_notes existing)
qed

section \<open>What Update sends\<close>

text \<open>
  The changes of an update: creations for the first list, patches of owned objects for the pairs,
  and deletions of owned, unfiltered objects of the last list.
\<close>

definition patch_guard :: "'s kube_env \<Rightarrow> update_options \<Rightarrow> (string \<times> string) list \<Rightarrow> event \<Rightarrow> event list \<Rightarrow> bool" where
  "patch_guard k opts us ev log \<longleftrightarrow>
     (sent_write ev \<longrightarrow>
       (\<exists>rq a u origin pt. ev = Sent rq a \<and> rq_verb rq = PATCH pt \<and> u \<in> set us \<and>
          cd_decode (ke_codec k) (fst u) = Inr origin \<and> rq_name rq = Some (meta_name origin) \<and>
          rq_body rq \<noteq> BPatch ''{}'' \<and>
          backed (\<lambda>_. own (up_owners opts)) (meta_name origin) log))"

lemma update_object_guarded:
  assumes u: "u \<in> set us" and G: "\<And>ev log. patch_guard k opts us ev log \<Longrightarrow> G ev log"
    and inv: "log_ok G (snd st)"
  shows "wp (update_object (traced k) ns opts u) (\<lambda>_ st. log_ok G (snd st)) st"
proof (cases "accessor_for_resource (ke_codec k) (fst u)")
  case (Inl e)
  with inv show ?thesis by (simp add: update_object_def wp_simps)
next
  case (Inr p)
  then obtain origin m where p: "p = (origin, m)" and
    dec: "cd_decode (ke_codec k) (fst u) = Inr origin" and m: "o_meta origin = Some m"
    by (cases p) (auto simp: accessor_for_resource_Inr)
  have [simp]: "write_guard G" using G by (simp add: write_guard_def patch_guard_def)
  have patch: "G (Sent (request c (PATCH pt) (Some (om_name m)) [] (BPatch d)) a) (evs @ log)"
    if "read_events (om_name m) (Inr found) evs" "own (up_owners opts) found" "d \<noteq> ''{}''"
    for c pt d a found evs log
    using that u dec m backed_read(1)[OF that(1), of "\<lambda>_. own (up_owners opts)" log]
    by (intro G) (unfold patch_guard_def, fastforce)
  show ?thesis
    using inv
    by (auto simp: update_object_def Inr p wp_simps Let_def rc_defs log_ok_reads
        read_events_def[THEN iffD1, THEN conjunct1] patch
        split: sum.splits option.splits intro!: wp_get_object wp_quiet wp_traced_rest wp_notes)
qed

section \<open>Whole runs\<close>

lemma client_create_guarded:
  assumes "objects_by_order k rs install_order = Inr obs"
    and "\<And>ev log. create_guard opts obs ev log \<Longrightarrow> G ev log" and "log_ok G (snd st)"
  shows "wp (client_create (traced k) ns rs opts) (\<lambda>_ st. log_ok G (snd st)) st"
  using assms
  by (auto simp: client_create_def objects_by_order_def bind_result_def split: sum.splits
      intro!: wp_for_inv create_object_guarded)

lemma client_delete_guarded:
  assumes "objects_by_order k rs uninstall_order = Inr obs"
    and "\<And>ev log. delete_guard opts obs ev log \<Longrightarrow> G ev log" and "log_ok G (snd st)"
  shows "wp (client_delete (traced k) ns rs opts) (\<lambda>_ st. log_ok G (snd st)) st"
  using assms
  by (auto simp: client_delete_def objects_by_order_def bind_result_def split: sum.splits
      intro!: wp_for_inv delete_object_guarded)

lemma client_apply_guarded:
  assumes "objects_by_order k rs install_order = Inr obs"
    and "\<And>j. meta_name (jf_defaults (ke_job k) j) = meta_name j"
    and "log_ok (apply_guard k opts obs) (snd st)"
  shows "wp (client_apply (traced k) ns rs opts) (\<lambda>_ st. log_ok (apply_guard k opts obs) (snd st)) st"
  using assms
  by (auto simp: client_apply_def objects_by_order_def bind_result_def split: sum.splits
      intro!: wp_for_inv apply_object_guarded)

definition update_guard ::
  "'s kube_env \<Rightarrow> update_options \<Rightarrow> string list \<Rightarrow> (string \<times> string) list \<Rightarrow> string list
     \<Rightarrow> event \<Rightarrow> event list \<Rightarrow> bool" where
  "update_guard k opts cs us ds ev log \<longleftrightarrow>
     (\<exists>obs. objects_by_order k cs install_order = Inr obs \<and>
            create_guard \<lparr>cr_owners = up_owners opts\<rparr> obs ev log) \<or>
     patch_guard k opts us ev log \<or>
     (\<exists>obs. objects_by_order k ds uninstall_order = Inr obs \<and>
            delete_guard \<lparr>de_owners = up_owners opts, de_filter = up_filter opts\<rparr> obs ev log)"

definition update_plan ::
  "'s kube_env \<Rightarrow> string list \<Rightarrow> string list \<Rightarrow> error + (string list \<times> (string \<times> string) list \<times> string list)" where
  "update_plan k originals targets =
     bind_result (accessors_for_resources (ke_codec k) originals) (\<lambda>(obs, ms).
     bind_result (accessors_for_resources (ke_codec k) targets) (\<lambda>(tobs, tms).
       Inr (case classify originals (zip (map2 key_for tobs tms) targets)
              (original_infos 0 (map2 key_for obs ms) []) of
              (cs, us, left) \<Rightarrow> (cs, us, map (\<lambda>p. originals ! snd p) (range_over (ke_range k) left)))))"

text \<open>\<open>Update\<close> is the plan followed by the three phases, each run only when it has work.\<close>

lemma client_update_plan:
  "client_update k ns originals targets opts =
     (case update_plan k originals targets of
        Inl e \<Rightarrow> fail e
      | Inr (cs, us, ds) \<Rightarrow>
          bind_io (if cs \<noteq> [] then client_create k ns cs \<lparr>cr_owners = up_owners opts\<rparr> else ret ()) (\<lambda>_.
          bind_io (if us \<noteq> [] then update_objects k ns us opts else ret ()) (\<lambda>_.
            if ds \<noteq> []
            then client_delete k ns ds \<lparr>de_owners = up_owners opts, de_filter = up_filter opts\<rparr>
            else ret ())))"
  by (simp add: client_update_def update_plan_def Let_def split: sum.splits prod.splits)

lemma update_plan_traced [simp]: "update_plan (traced k) = update_plan k"
  by (simp add: update_plan_def fun_eq_iff)

lemma wp_phase:
  "(log_ok G (snd st) \<Longrightarrow> wp m (\<lambda>_ st. log_ok G (snd st)) st) \<Longrightarrow> log_ok G (snd st) \<Longrightarrow>
   (\<And>st. log_ok G (snd st) \<Longrightarrow> wp m' (\<lambda>_ st. log_ok G (snd st)) st) \<Longrightarrow>
     wp (bind_io m (\<lambda>_. m')) (\<lambda>_ st. log_ok G (snd st)) st"
  by (auto simp: wp_bind split: sum.splits elim!: wp_mono)

lemma wp_optional:
  "log_ok G (snd st) \<Longrightarrow> (log_ok G (snd st) \<Longrightarrow> wp m (\<lambda>_ st. log_ok G (snd st)) st) \<Longrightarrow>
     wp (if b then m else ret ()) (\<lambda>_ st. log_ok G (snd st)) st"
  by (simp add: wp_simps)

lemma client_update_guarded:
  assumes plan: "update_plan k originals targets = Inr (cs, us, ds)"
    and inv: "log_ok (update_guard k opts cs us ds) (snd st)"
  shows "wp (client_update (traced k) ns originals targets opts)
           (\<lambda>_ st. log_ok (update_guard k opts cs us ds) (snd st)) st"
proof -
  let ?G = "update_guard k opts cs us ds"
  have create: "wp (client_create (traced k) ns cs \<lparr>cr_owners = up_owners opts\<rparr>) (\<lambda>_ st. log_ok ?G (snd st)) st1"
    if "log_ok ?G (snd st1)" for st1 :: "'a traced_state"
  proof (cases "objects_by_order k cs install_order")
    case (Inl e)
    with that show ?thesis by (simp add: client_create_def wp_simps)
  next
    case (Inr obs)
    with that show ?thesis
      by (intro client_create_guarded[OF Inr]) (auto simp: update_guard_def)
  qed
  have delete: "wp (client_delete (traced k) ns ds \<lparr>de_owners = up_owners opts, de_filter = up_filter opts\<rparr>)
      (\<lambda>_ st. log_ok ?G (snd st)) st1" if "log_ok ?G (snd st1)" for st1 :: "'a traced_state"
  proof (cases "objects_by_order k ds uninstall_order")
    case (Inl e)
    with that show ?thesis by (simp add: client_delete_def wp_simps)
  next
    case (Inr obs)
    with that show ?thesis
      by (intro client_delete_guarded[OF Inr]) (auto simp: update_guard_def)
  qed
  have update: "wp (update_objects (traced k) ns us opts) (\<lambda>_ st. log_ok ?G (snd st)) st1"
    if "log_ok ?G (snd st1)" for st1 :: "'a traced_state"
    unfolding update_objects_def using that
    by (intro wp_for_inv update_object_guarded) (auto simp: update_guard_def)
  show ?thesis
    unfolding client_update_plan update_plan_traced plan using inv
    by (simp only: sum.case prod.case) (intro wp_phase wp_optional create update delete)
qed

section \<open>The partition of an update\<close>

lemma map_of_original_infos:
  "distinct keys \<Longrightarrow> map_of (original_infos i keys infos) key =
     (if key \<in> set keys then Some (i + length (takeWhile (\<lambda>x. x \<noteq> key) keys)) else map_of infos key)"
  by (induction keys arbitrary: i infos) (auto simp: update_conv')

lemma first_position:
  assumes "key \<in> set keys"
  shows "length (takeWhile (\<lambda>x. x \<noteq> key) keys) < length keys"
    and "keys ! length (takeWhile (\<lambda>x. x \<noteq> key) keys) = key"
proof -
  obtain ys zs where keys: "keys = ys @ key # zs" "key \<notin> set ys"
    using split_list_first[OF assms] by blast
  then have "takeWhile (\<lambda>x. x \<noteq> key) keys = ys"
    by (induction ys arbitrary: keys) auto
  with keys show "length (takeWhile (\<lambda>x. x \<noteq> key) keys) < length keys"
    "keys ! length (takeWhile (\<lambda>x. x \<noteq> key) keys) = key" by simp_all
qed

lemma original_infos_nth:
  assumes "distinct keys"
  shows "map_of (original_infos 0 keys []) key = Some i \<longleftrightarrow> i < length keys \<and> keys ! i = key"
  using first_position[of key keys] assms
  by (auto simp: map_of_original_infos[OF assms] nth_eq_iff_index_eq split: if_splits)

lemma distinct_original_infos:
  "distinct (map fst infos) \<Longrightarrow> distinct (map fst (original_infos i keys infos))"
  by (induction keys arbitrary: i infos) (auto simp: distinct_update)

lemma classify_lists:
  assumes "classify originals targets infos = (cs, us, left)" and "distinct (map fst targets)"
  shows "cs = map snd (filter (\<lambda>p. map_of infos (fst p) = None) targets)"
    and "us = map (\<lambda>p. (originals ! the (map_of infos (fst p)), snd p))
                (filter (\<lambda>p. map_of infos (fst p) \<noteq> None) targets)"
    and "left = filter (\<lambda>p. fst p \<notin> set (map fst targets)) infos"
proof -
  have "cs = map snd (filter (\<lambda>p. map_of infos (fst p) = None) targets) \<and>
    us = map (\<lambda>p. (originals ! the (map_of infos (fst p)), snd p))
                (filter (\<lambda>p. map_of infos (fst p) \<noteq> None) targets) \<and>
    left = filter (\<lambda>p. fst p \<notin> set (map fst targets)) infos"
    using assms
  proof (induction originals targets infos arbitrary: cs us left rule: classify.induct)
    case (2 originals key target targets infos)
    show ?case
    proof (cases "map_of infos key")
      case None
      then have "key \<notin> fst ` set infos" by (simp add: map_of_eq_None_iff)
      then have left: "filter (\<lambda>p. fst p \<noteq> key \<and> fst p \<notin> fst ` set targets) infos =
          filter (\<lambda>p. fst p \<notin> fst ` set targets) infos"
        by (intro filter_cong) auto
      from 2 None show ?thesis by (auto simp: left split: prod.splits)
    next
      case (Some i)
      have same: "map_of (AList.delete key infos) (fst p) = map_of infos (fst p)" if "p \<in> set targets" for p
        using 2(4) that by (auto simp: delete_conv')
      have left: "filter (\<lambda>p. fst p \<notin> fst ` set targets) (AList.delete key infos) =
          filter (\<lambda>p. fst p \<noteq> key \<and> fst p \<notin> fst ` set targets) infos"
        by (auto simp: AList.delete_eq intro!: filter_cong)
      obtain cs' us' left' where rec: "classify originals targets (AList.delete key infos) = (cs', us', left')"
        by (cases "classify originals targets (AList.delete key infos)") auto
      from 2(2)[OF Some rec] 2(3,4) Some rec show ?thesis
        by (auto simp: left same cong: filter_cong map_cong split: prod.splits)
    qed
  qed simp
  then show "cs = map snd (filter (\<lambda>p. map_of infos (fst p) = None) targets)"
    and "us = map (\<lambda>p. (originals ! the (map_of infos (fst p)), snd p))
                (filter (\<lambda>p. map_of infos (fst p) \<noteq> None) targets)"
    and "left = filter (\<lambda>p. fst p \<notin> set (map fst targets)) infos" by simp_all
qed

end
