(* ===== verification/Integration_Store.thy ===== *)
theory Integration_Store
  imports Kube_Interfaces
begin

text \<open>
  \<open>integrationStore\<close> of \<open>pkg/store/store.go\<close>: one informer and one cache layer per kind, created
  on first use. \<open>ss_content\<close> (what the informers hold) and \<open>ss_now\<close> (the clock) are written by
  the world outside; the informer factory is given as two functions.
\<close>

record store_state =
  ss_resources :: resource_map
  ss_informers :: "(gvk \<times> cache_layer) list"
  ss_ttl :: int
  ss_content :: "gvk \<Rightarrow> obj indexer"
  ss_now :: int

record informer_factory =
  if_for_resource :: "resource \<Rightarrow> error option"
  if_wait_sync :: "resource \<Rightarrow> bool"

definition default_ttl :: int where
  "default_ttl = 10 * 10 ^ 9"

definition new_integration_store_ttl :: "resource_map \<Rightarrow> int \<Rightarrow> (gvk \<Rightarrow> obj indexer) \<Rightarrow> int \<Rightarrow> store_state" where
  "new_integration_store_ttl m ttl content now =
     \<lparr>ss_resources = m, ss_informers = [], ss_ttl = ttl, ss_content = content, ss_now = now\<rparr>"

definition new_integration_store :: "resource_map \<Rightarrow> (gvk \<Rightarrow> obj indexer) \<Rightarrow> int \<Rightarrow> store_state" where
  "new_integration_store m content now = new_integration_store_ttl m default_ttl content now"

text \<open>\<open>newCacheInformer\<close>: the layer of an informer is named by the group and the resource.\<close>

definition new_cache_informer :: "gvr \<Rightarrow> int \<Rightarrow> cache_layer" where
  [simp]: "new_cache_informer v ttl = new_cache_layer (gvr_group v, gvr_resource v) ttl"

text \<open>\<open>informerFor\<close>; the layer stays registered when the informer does not sync.\<close>

definition informer_for :: "informer_factory \<Rightarrow> gvk \<Rightarrow> (store_state, unit) io" where
  "informer_for fac g s =
     (case map_of (ss_informers s) g of
        Some _ \<Rightarrow> (Inr (), s)
      | None \<Rightarrow>
          (case resource_for (ss_resources s) g of
             Inl e \<Rightarrow> (Inl e, s)
           | Inr res \<Rightarrow>
               (case if_for_resource fac res of
                  Some e \<Rightarrow> (Inl e, s)
                | None \<Rightarrow>
                    (let c = new_cache_informer (group_version_resource res) (ss_ttl s);
                         s' = s\<lparr>ss_informers := AList.update g c (ss_informers s)\<rparr>
                     in if \<not> if_wait_sync fac res
                        then (Inl (Errorf (''can't sync informer for: '' @ gvk_string g)), s')
                        else (Inr (), s')))))"

text \<open>An operation of the layer of one kind, acting on the store.\<close>

definition on_layer :: "gvk \<Rightarrow> (cache_layer \<Rightarrow> (error + 'a) \<times> cache_layer) \<Rightarrow> (store_state, 'a) io" where
  "on_layer g f s =
     (case map_of (ss_informers s) g of
        None \<Rightarrow> (Inl (Panic ''nil pointer dereference''), s)
      | Some c \<Rightarrow>
          (case f c of (r, c') \<Rightarrow> (r, s\<lparr>ss_informers := AList.update g c' (ss_informers s)\<rparr>)))"

definition store_layer_ops :: "gvk \<Rightarrow> store_state layer_ops" where
  "store_layer_ops g =
     \<lparr>lo_created = (\<lambda>ob s. on_layer g (layer_created ob (ss_now s)) s),
      lo_updated = (\<lambda>ob s. on_layer g (layer_updated ob (ss_now s)) s),
      lo_deleted = (\<lambda>ob s. on_layer g (layer_deleted ob (ss_now s)) s),
      lo_ns_get = (\<lambda>ns nm s. on_layer g (layer_ns_get (ss_content s g) ns nm (ss_now s)) s),
      lo_ns_list = (\<lambda>ns sel s. on_layer g (layer_ns_list (ss_content s g) ns sel (\<lambda>_. ss_now s)) s)\<rparr>"

definition store_layer_for :: "informer_factory \<Rightarrow> gvk \<Rightarrow> (store_state, store_state layer_ops) io" where
  "store_layer_for fac g = bind_io (informer_for fac g) (\<lambda>_. ret (store_layer_ops g))"

definition store_layers :: "informer_factory \<Rightarrow> store_state cache_layers" where
  "store_layers fac = \<lparr>cls_layer_for = store_layer_for fac\<rparr>"

section \<open>The store keeps its layers well-formed\<close>

definition store_ok :: "store_state \<Rightarrow> bool" where
  "store_ok s \<longleftrightarrow> (\<forall>g c. map_of (ss_informers s) g = Some c \<longrightarrow> layer_ok c)"

lemma informer_for_ok: "store_ok s \<Longrightarrow> store_ok (snd (informer_for fac g s))"
  by (auto simp: store_ok_def informer_for_def Let_def update_conv' split: option.splits sum.splits)

lemma on_layer_ok:
  assumes "store_ok s" and "\<And>c. layer_ok c \<Longrightarrow> layer_ok (snd (f c))"
  shows "store_ok (snd (on_layer g f s))"
proof (cases "map_of (ss_informers s) g")
  case None
  with assms(1) show ?thesis by (simp add: on_layer_def)
next
  case (Some c)
  with assms have "layer_ok (snd (f c))" by (simp add: store_ok_def)
  with Some assms(1) show ?thesis
    by (auto simp: on_layer_def store_ok_def update_conv' split: prod.splits)
qed

section \<open>The store honours the contract of cache layers\<close>

definition store_known :: "gvk \<Rightarrow> store_state \<Rightarrow> bool" where
  "store_known g s \<longleftrightarrow> 0 \<le> ss_ttl s \<and> (\<exists>c. map_of (ss_informers s) g = Some c \<and> 0 \<le> ly_ttl c)"

definition store_absent :: "gvk \<Rightarrow> string \<Rightarrow> string \<Rightarrow> store_state \<Rightarrow> bool" where
  "store_absent g ns nm s \<longleftrightarrow> map_of (ss_content s g) (ns @ ''/'' @ nm) = None"

lemma store_layer_for_known:
  "store_known g s \<Longrightarrow> store_layer_for fac g s = (Inr (store_layer_ops g), s)"
  by (auto simp: store_known_def store_layer_for_def informer_for_def bind_io_def ret_def)

lemma store_read_layer:
  "store_known g s \<Longrightarrow> read_layer (store_layers fac) g ns nm s =
     on_layer g (layer_ns_get (ss_content s g) ns nm (ss_now s)) s"
  by (simp add: read_layer_def store_layers_def bind_io_def store_layer_for_known store_layer_ops_def)

lemma store_record_created:
  "store_known g s \<Longrightarrow> record_created (store_layers fac) g ob s =
     on_layer g (layer_created ob (ss_now s)) s"
  by (simp add: record_created_def store_layers_def bind_io_def store_layer_for_known store_layer_ops_def)

lemma layer_ns_get_created:
  assumes "layer_created ob now c = (Inr (), c')" and "recordable ns nm ob" and "ns \<noteq> []"
    and "map_of informer (ns @ ''/'' @ nm) = None" and "0 \<le> ly_ttl c"
  shows "layer_ns_get informer ns nm now c' = (Inr ob, c')"
  using assms
  by (auto simp: layer_created_def layer_add_def recordable_def Let_def layer_ns_get_def generic_get_def
        get_by_key_def select_object_def co_expired_def update_conv' co_key_def)

lemma AList_update_same: "map_of al k = Some v \<Longrightarrow> AList.update k v al = al"
  by (rule update_triv)

interpretation store_cache: read_your_creates "store_layers fac" store_known store_absent
  for fac :: informer_factory
proof
  fix g s ns nm ob
  assume known: "store_known g s" and ns: "ns \<noteq> []" and absent: "store_absent g ns nm s"
    and rec: "recordable ns nm ob"
  obtain c where c: "map_of (ss_informers s) g = Some c" "0 \<le> ly_ttl c"
    using known by (auto simp: store_known_def)
  obtain m where m: "o_meta ob = Some m" using rec by (auto simp: recordable_def)
  define c' where "c' = snd (layer_created ob (ss_now s) c)"
  have cr: "layer_created ob (ss_now s) c = (Inr (), c')" and ttl: "ly_ttl c' = ly_ttl c"
    by (simp_all add: c'_def layer_created_def layer_add_def m Let_def)
  define s' where "s' = s\<lparr>ss_informers := AList.update g c' (ss_informers s)\<rparr>"
  have s'c: "map_of (ss_informers s') g = Some c'" by (simp add: s'_def update_conv')
  have step: "record_created (store_layers fac) g ob s = (Inr (), s')"
    by (simp add: store_record_created[OF known] on_layer_def c(1) cr s'_def)
  have known': "store_known g s'"
    using known s'c ttl c(2) by (auto simp: store_known_def s'_def)
  have absent': "store_absent g ns nm s'"
    using absent by (simp add: store_absent_def s'_def)
  have "layer_ns_get (ss_content s' g) ns nm (ss_now s') c' = (Inr ob, c')"
    using layer_ns_get_created[OF cr rec ns _ c(2)] absent
    by (simp add: store_absent_def s'_def)
  then have "read_layer (store_layers fac) g ns nm s' = (Inr ob, s')"
    by (simp add: store_read_layer[OF known'] on_layer_def s'c update_triv[OF s'c])
  with step known' absent' show "\<exists>s'. record_created (store_layers fac) g ob s = (Inr (), s') \<and>
      store_known g s' \<and> store_absent g ns nm s' \<and>
      read_layer (store_layers fac) g ns nm s' = (Inr ob, s')" by blast
qed

section \<open>The life of a store\<close>

text \<open>
  What happens to a store: a layer is asked for, an operation of a layer runs, or the world moves
  on: time passes and the informers see other objects.
\<close>

inductive store_reach :: "informer_factory \<Rightarrow> resource_map \<Rightarrow> int \<Rightarrow> store_state \<Rightarrow> bool"
  for fac :: informer_factory and m :: resource_map and ttl :: int where
  fresh: "store_reach fac m ttl (new_integration_store_ttl m ttl content now)"
| layer_for: "store_reach fac m ttl s \<Longrightarrow> store_reach fac m ttl (snd (store_layer_for fac g s))"
| created: "store_reach fac m ttl s \<Longrightarrow> store_reach fac m ttl (snd (lo_created (store_layer_ops g) ob s))"
| updated: "store_reach fac m ttl s \<Longrightarrow> store_reach fac m ttl (snd (lo_updated (store_layer_ops g) ob s))"
| deleted: "store_reach fac m ttl s \<Longrightarrow> store_reach fac m ttl (snd (lo_deleted (store_layer_ops g) ob s))"
| get_one: "store_reach fac m ttl s \<Longrightarrow> store_reach fac m ttl (snd (lo_ns_get (store_layer_ops g) ns nm s))"
| get_list: "store_reach fac m ttl s \<Longrightarrow> store_reach fac m ttl (snd (lo_ns_list (store_layer_ops g) ns sel s))"
| world: "store_reach fac m ttl s \<Longrightarrow> ss_now s \<le> now \<Longrightarrow>
     store_reach fac m ttl (s\<lparr>ss_content := content, ss_now := now\<rparr>)"

definition layer_within :: "string \<times> string \<Rightarrow> int \<Rightarrow> int \<Rightarrow> cache_layer \<Rightarrow> bool" where
  "layer_within gr ttl now c \<longleftrightarrow>
     layer_ok c \<and> ly_gr c = gr \<and> ly_ttl c = ttl \<and>
     (\<forall>key co. map_of (ly_indexer c) key = Some co \<longrightarrow> co_deadline co \<le> now + ttl)"

definition store_within :: "resource_map \<Rightarrow> int \<Rightarrow> store_state \<Rightarrow> bool" where
  "store_within m ttl s \<longleftrightarrow>
     ss_resources s = m \<and> ss_ttl s = ttl \<and>
     (\<forall>g c. map_of (ss_informers s) g = Some c \<longrightarrow>
        (\<exists>r. resource_for m g = Inr r \<and> layer_within (res_group r, ar_name (res_api r)) ttl (ss_now s) c))"

lemma layer_within_removal: "kept_by_removal (layer_within gr ttl now)"
proof -
  have "layer_within gr ttl now (layer_remove ob c)" if "layer_within gr ttl now c" for ob c
    using that layer_remove_ok[of c ob] layer_remove_indexer[of ob c]
    by (auto simp: layer_within_def split: if_splits)
  then show ?thesis by (simp add: kept_by_removal_def)
qed

lemma layer_within_add: "layer_within gr ttl now c \<Longrightarrow> layer_within gr ttl now (snd (layer_add ob ex now c))"
  using layer_add_ok[of c ob ex now]
  by (auto simp: layer_within_def layer_add_def Let_def update_conv' split: option.splits)

lemma on_layer_within:
  assumes "store_within m ttl s" and "\<And>gr c. layer_within gr ttl (ss_now s) c \<Longrightarrow> layer_within gr ttl (ss_now s) (snd (f c))"
  shows "store_within m ttl (snd (on_layer g f s))"
proof (cases "map_of (ss_informers s) g")
  case None
  with assms(1) show ?thesis by (simp add: on_layer_def)
next
  case (Some c)
  obtain r c' where f: "f c = (r, c')" by (cases "f c")
  with Some assms show ?thesis
    by (auto simp: on_layer_def store_within_def update_conv') (metis snd_conv)
qed

lemma informer_for_within:
  assumes "store_within m ttl s"
  shows "store_within m ttl (snd (store_layer_for fac g s))"
proof -
  have new: "layer_within gr ttl now (new_cache_layer gr ttl)" for gr now
    by (simp add: layer_within_def) (simp add: new_cache_layer_def)
  have "store_within m ttl (snd (informer_for fac g s))"
    using assms new
    by (auto simp: store_within_def informer_for_def Let_def update_conv' split: option.splits sum.splits)
  then show ?thesis
    by (auto simp: store_layer_for_def bind_io_def ret_def split: prod.splits sum.splits)
qed

lemma layer_ops_within:
  assumes "store_within m ttl s"
  shows "store_within m ttl (snd (lo_created (store_layer_ops g) ob s))"
    and "store_within m ttl (snd (lo_updated (store_layer_ops g) ob s))"
    and "store_within m ttl (snd (lo_deleted (store_layer_ops g) ob s))"
    and "store_within m ttl (snd (lo_ns_get (store_layer_ops g) ns nm s))"
    and "store_within m ttl (snd (lo_ns_list (store_layer_ops g) ns sel s))"
  unfolding store_layer_ops_def layer_ops.simps
  by (rule on_layer_within[OF assms],
      simp add: layer_created_def layer_updated_def layer_deleted_def layer_within_add layer_ns_get_keeps
        layer_ns_list_keeps layer_within_removal)+

end
