(* ===== verification/Client_Caching.thy ===== *)
theory Client_Caching
  imports Kube_Client Integration_Store
begin

text \<open>
  The client over cache layers that honour \<open>read_your_creates\<close>: what it created it finds again,
  so that creating the same resource a second time sends nothing, whatever the server would answer.
\<close>

text \<open>The pool and the server answer a creation and leave the state of the layers as it is.\<close>

definition creation_answered ::
  "'s kube_env \<Rightarrow> gvk \<Rightarrow> string \<Rightarrow> resource_client \<Rightarrow> obj \<Rightarrow> 's \<Rightarrow> bool" where
  "creation_answered k g ns c srv s \<longleftrightarrow>
     ke_client_for k g ns s = (Inr c, s) \<and>
     (\<forall>ob. ke_rest k (request c POST None [] (BObj ob)) s = (Inr srv, s))"

lemma objects_by_order_single:
  "cd_decode (ke_codec k) r = Inr ob \<Longrightarrow>
     objects_by_order k [r] so = Inr [ob]"
  by (simp add: objects_by_order_def resources_to_objects_def resource_to_object_def sort_objects_def)

context read_your_creates
begin

lemma create_object_records:
  assumes k: "ke_layers k = Some layers" and m: "o_meta ob = Some m"
    and st: "known (o_gvk ob) s" "ns \<noteq> []" "absent (o_gvk ob) ns (om_name m) s"
    and miss: "read_layer layers (o_gvk ob) ns (om_name m) s = (Inl e, s)" "is_not_found e"
    and ans: "creation_answered k (o_gvk ob) ns c srv s"
    and srv: "recordable ns (om_name m) srv"
  obtains s1 where "create_object k ns opts ob s = (Inr (), s1)"
    and "read_layer layers (o_gvk ob) ns (om_name m) s1 = (Inr srv, s1)"
proof -
  obtain s1 where s1: "record_created layers (o_gvk ob) srv s = (Inr (), s1)"
    "read_layer layers (o_gvk ob) ns (om_name m) s1 = (Inr srv, s1)"
    using created_then_read[OF st srv] by blast
  have "\<not> is_panic e" using miss(2) by (cases e) simp_all
  with assms(1,2) miss ans s1(1) have "create_object k ns opts ob s = (Inr (), s1)"
    by (simp add: create_object_def Let_def accessor_for_object_cases get_object_def try_io_def bind_io_def
        rc_create_def creation_answered_def note_created_def)
  with s1(2) that show thesis by blast
qed

lemma create_object_again:
  assumes "ke_layers k = Some layers" and "o_meta ob = Some m"
    and "read_layer layers (o_gvk ob) ns (om_name m) s1 = (Inr srv, s1)"
    and "own (cr_owners opts) srv"
  shows "create_object k ns opts ob s1 = (Inr (), s1)"
  using assms
  by (simp add: create_object_def Let_def accessor_for_object_cases get_object_def try_io_def ret_def)

lemma client_create_twice:
  assumes k: "ke_layers k = Some layers"
    and ob: "cd_decode (ke_codec k) r = Inr ob" "o_meta ob = Some m"
    and st: "known (o_gvk ob) s" "ns \<noteq> []" "absent (o_gvk ob) ns (om_name m) s"
    and miss: "read_layer layers (o_gvk ob) ns (om_name m) s = (Inl e, s)" "is_not_found e"
    and ans: "creation_answered k (o_gvk ob) ns c srv s"
    and srv: "recordable ns (om_name m) srv" "own (cr_owners opts) srv"
  shows "\<exists>s1. client_create k ns [r] opts s = (Inr (), s1) \<and>
           (\<forall>rest'. client_create (k\<lparr>ke_rest := rest'\<rparr>) ns [r] opts s1 = (Inr (), s1))"
proof -
  obtain s1 where s1: "create_object k ns opts ob s = (Inr (), s1)"
    "read_layer layers (o_gvk ob) ns (om_name m) s1 = (Inr srv, s1)"
    using create_object_records[OF k ob(2) st miss ans srv(1)] by blast
  have again: "create_object (k\<lparr>ke_rest := rest'\<rparr>) ns opts ob s1 = (Inr (), s1)" for rest'
    using k s1(2) by (intro create_object_again[OF _ ob(2) _ srv(2)]) simp_all
  show ?thesis
    by (intro exI[of _ s1])
      (simp add: client_create_def objects_by_order_single ob(1) bind_io_def ret_def s1(1) again)
qed

end

end
