(* ===== verification/Kube_Properties.thy ===== *)
theory Kube_Properties
  imports Client_Traces Client_Caching
begin

text \<open>
  What the packages \<open>kube\<close>, \<open>kube/apply\<close> and \<open>store\<close> promise, each property with a concrete run on
  which its hypotheses hold.
\<close>

section \<open>A small cluster\<close>

text \<open>
  A resource text names its own kind and object. The server knows no object, accepts every
  creation, and answers the other requests with the same object.
\<close>

definition demo_meta :: "string \<Rightarrow> objmeta" where
  "demo_meta nm =
     \<lparr>om_name = nm, om_namespace = ''ns'', om_uid = ''u'', om_resource_version = ''7'', om_creation = 5,
      om_labels = None, om_annotations = None, om_owners = []\<rparr>"

definition demo_obj :: "string \<Rightarrow> obj" where
  "demo_obj nm =
     \<lparr>o_gvk = \<lparr>g_group = [], g_version = ''v1'', g_kind = nm\<rparr>, o_meta = Some (demo_meta nm), o_body = Opaque []\<rparr>"

definition demo_codec :: codec where
  "demo_codec = \<lparr>cd_decode = (\<lambda>r. Inr (demo_obj r)), cd_encode = (\<lambda>ob. Inr (g_kind (o_gvk ob)))\<rparr>"

definition demo_client :: resource_client where
  "demo_client =
     \<lparr>rcl_api_path = ''/api'', rcl_group = [], rcl_version = ''v1'',
      rcl_resource = \<lparr>ar_name = ''things'', ar_kind = ''Thing'', ar_namespaced = True\<rparr>, rcl_ns = ''ns''\<rparr>"

definition demo_rest :: "'s rest" where
  "demo_rest rq =
     (case rq_verb rq of
        GET \<Rightarrow> fail (NotFound ''gone'')
      | _ \<Rightarrow> ret (demo_obj ''Pod''))"

definition demo_job :: job_funs where
  "demo_job =
     \<lparr>jf_defaults = id, jf_template = id, jf_to_internal = Inr, jf_drop_disabled = id, jf_to_v1 = Inr,
      jf_set_template = (\<lambda>sp t. sp), jf_merge = (\<lambda>a b. Inr b), jf_json = id\<rparr>"

definition demo_env :: "'s cache_layers option \<Rightarrow> 's kube_env" where
  "demo_env ls =
     \<lparr>ke_codec = demo_codec, ke_sort = insert_sort, ke_client_for = (\<lambda>g ns. ret demo_client),
      ke_rest = demo_rest, ke_layers = ls, ke_marshal = (\<lambda>ob. Inr (g_kind (o_gvk ob))),
      ke_two_way_patch = (\<lambda>a b ob. Inr b), ke_range = id, ke_job = demo_job,
      ke_ip_unmarshal = (\<lambda>s. Inr []), ke_ip_parse = (\<lambda>s. True), ke_label_equals = (\<lambda>k v. Inr v)\<rparr>"

lemmas demo_defs = demo_meta_def demo_obj_def demo_codec_def demo_client_def demo_job_def demo_env_def

lemma demo_env_simps [simp]:
  "ke_codec (demo_env ls) = demo_codec" "ke_sort (demo_env ls) = insert_sort"
  "ke_layers (demo_env ls) = ls" "ke_job (demo_env ls) = demo_job"
  "ke_client_for (demo_env ls) g ns = ret demo_client" "ke_rest (demo_env ls) = demo_rest"
  by (simp_all add: demo_env_def)

lemma demo_codec_simps [simp]: "cd_decode demo_codec r = Inr (demo_obj r)"
  by (simp add: demo_codec_def)

lemma demo_obj_simps [simp]: "o_meta (demo_obj nm) = Some (demo_meta nm)" "g_kind (o_gvk (demo_obj nm)) = nm"
  "om_name (demo_meta nm) = nm" "meta_name (demo_obj nm) = nm"
  by (simp_all add: demo_obj_def demo_meta_def meta_name_def)

section \<open>Order\<close>

definition kind_position :: "string list \<Rightarrow> string \<Rightarrow> nat" where
  "kind_position ks k = (if k \<in> set ks then length (takeWhile (\<lambda>x. x \<noteq> k) ks) else 127)"

lemma rank_position: "distinct ks \<Longrightarrow> length ks \<le> 127 \<Longrightarrow> rank_int (order_by ks) k = int (kind_position ks k)"
  using rank_int_nth[of ks "length (takeWhile (\<lambda>x. x \<noteq> k) ks)"] first_position[of k ks] rank_int_unknown[of k ks]
  by (auto simp: kind_position_def)

lemma sorted_by_position:
  assumes "distinct ks" and "length ks \<le> 127" and "i < j" and "j < length obs"
  shows "kind_position ks (g_kind (o_gvk (sort_objects srt (order_by ks) obs ! i))) \<le>
     kind_position ks (g_kind (o_gvk (sort_objects srt (order_by ks) obs ! j)))"
proof -
  have len: "length (sort_objects srt (order_by ks) obs) = length obs" by (simp add: sort_objects_def)
  have "map (\<lambda>ob. rank_int (order_by ks) (g_kind (o_gvk ob))) (sort_objects srt (order_by ks) obs) ! i \<le>
      map (\<lambda>ob. rank_int (order_by ks) (g_kind (o_gvk ob))) (sort_objects srt (order_by ks) obs) ! j"
    using assms(3,4) len by (intro sorted_nth_mono[OF sort_objects_ok(2)]) simp_all
  with assms len show ?thesis by (simp add: rank_position)
qed


lemma demo_objects:
  "objects_by_order (demo_env ls) rs so = Inr (sort_objects insert_sort so (map demo_obj rs))"
proof -
  have "resources_to_objects demo_codec rs = Inr (map demo_obj rs)"
    unfolding resources_to_objects_def by (rule mapM_result_total) (simp add: resource_to_object_def)
  then show ?thesis by (simp add: objects_by_order_def)
qed


section \<open>Writes are justified by reads\<close>

lemma mirrors_run:
  assumes "mirrors m' m" and "m' (s, log) = (r, (s', log'))"
  shows "m s = (r, s')"
proof -
  have "fst (m' (s, log)) = fst (m s) \<and> fst (snd (m' (s, log))) = snd (m s)"
    using assms(1) unfolding mirrors_def by (metis fst_conv)
  with assms(2) show ?thesis by (cases "m s") simp
qed

definition ordered_objects :: "'s kube_env \<Rightarrow> string list \<Rightarrow> sort_order \<Rightarrow> obj list" where
  "ordered_objects k rs so = (case objects_by_order k rs so of Inl _ \<Rightarrow> [] | Inr obs \<Rightarrow> obs)"

lemma demo_ordered [simp]: "ordered_objects (demo_env ls) [r] so = [demo_obj r]"
  by (simp add: ordered_objects_def demo_objects sort_objects_def)

lemma demo_job_name: "meta_name (jf_defaults (ke_job (demo_env ls)) j) = meta_name j"
  by (simp add: demo_job_def)

text \<open>
  C2: every request of \<open>Apply\<close> that changes the server is one of these: the creation of an object of
  the list (a job with its defaults) with the owners of the release; an update or a deletion under
  the name of an object that an earlier read in the same run found, and found to be owned by the
  given owners or accepted by the checker; or the deletion of a pod that an earlier list returned.
  The logged run computes what the plain run computes.
\<close>

theorem apply_writes_justified:
  assumes "\<And>j. meta_name (jf_defaults (ke_job k) j) = meta_name j"
    and "client_apply (traced k) ns rs opts (s, []) = (r, (s', log))"
  shows "client_apply k ns rs opts s = (r, s') \<and>
     log_ok (apply_guard k opts (ordered_objects k rs install_order)) log"
proof -
  have "log_ok (apply_guard k opts (ordered_objects k rs install_order)) log"
  proof (cases "objects_by_order k rs install_order")
    case (Inl e)
    with assms(2) show ?thesis by (simp add: client_apply_def fail_def)
  next
    case (Inr obs)
    from wpD[OF client_apply_guarded[OF Inr assms(1)] assms(2)] Inr show ?thesis
      by (simp add: ordered_objects_def)
  qed
  with mirrors_run[OF mirrors_client(1) assms(2)] show ?thesis by simp
qed

definition demo_request :: "rest_verb \<Rightarrow> string option \<Rightarrow> payload \<Rightarrow> rest_request" where
  "demo_request v nm b = request demo_client v nm [] b"

definition no_options :: apply_options where
  "no_options = \<lparr>ap_owners = None, ap_checker = None\<rparr>"

lemmas io_defs = bind_io_def try_io_def quiet_def logged_def ret_def fail_def lift_result_def

lemmas run_defs = io_defs get_object_def rc_defs traced_rest_def demo_rest_def demo_request_def
  note_created_def note_updated_def note_deleted_def

theorem apply_writes_justified_witness:
  "\<exists>log. client_apply (traced (demo_env None)) ''ns'' [''Pod''] no_options ((), []) = (Inr (), ((), log)) \<and>
     log = [Sent (demo_request POST None (BObj (demo_obj ''Pod''))) (Inr (demo_obj ''Pod'')),
            Sent (demo_request GET (Some ''Pod'') NoBody) (Inl (NotFound ''gone''))] \<and>
     log_ok (apply_guard (demo_env None :: unit kube_env) no_options [demo_obj ''Pod'']) log"
proof -
  let ?log = "[Sent (demo_request POST None (BObj (demo_obj ''Pod''))) (Inr (demo_obj ''Pod'')),
            Sent (demo_request GET (Some ''Pod'') NoBody) (Inl (NotFound ''gone''))]"
  have run: "client_apply (traced (demo_env None)) ''ns'' [''Pod''] no_options ((), []) = (Inr (), ((), ?log))"
    by (simp add: client_apply_def demo_objects sort_objects_def apply_object_def accessor_for_object_cases Let_def
        with_owners_def no_options_def run_defs)
  from apply_writes_justified[OF demo_job_name run] show ?thesis using run by simp
qed

text \<open>
  Every request of \<open>Delete\<close> that changes the server is the deletion of an object of the list that
  the filter does not name and that an earlier read of the same run found to be owned.
\<close>

lemma delete_writes_justified:
  assumes "client_delete (traced k) ns rs opts (s, []) = (r, (s', log))"
  shows "client_delete k ns rs opts s = (r, s') \<and>
     log_ok (delete_guard opts (ordered_objects k rs uninstall_order)) log"
proof -
  have "log_ok (delete_guard opts (ordered_objects k rs uninstall_order)) log"
  proof (cases "objects_by_order k rs uninstall_order")
    case (Inl e)
    with assms show ?thesis by (simp add: client_delete_def fail_def)
  next
    case (Inr obs)
    from wpD[OF client_delete_guarded[OF Inr, where G = "delete_guard opts obs"] assms] Inr show ?thesis
      by (simp add: ordered_objects_def)
  qed
  with mirrors_run[OF mirrors_client(3) assms] show ?thesis by simp
qed

text \<open>A server that knows every object it is asked for.\<close>

definition full_rest :: "'s rest" where
  "full_rest rq =
     (case (rq_verb rq, rq_name rq) of
        (GET, Some nm) \<Rightarrow> ret (demo_obj nm)
      | _ \<Rightarrow> ret (demo_obj ''Pod''))"

definition full_env :: "'s kube_env" where
  "full_env = (demo_env None)\<lparr>ke_rest := full_rest\<rparr>"

lemma full_env_simps [simp]:
  "ke_codec full_env = demo_codec" "ke_sort full_env = insert_sort" "ke_layers full_env = None"
  "ke_client_for full_env g ns = ret demo_client" "ke_rest full_env = full_rest"
  by (simp_all add: full_env_def)

lemma full_objects: "objects_by_order full_env rs so = Inr (sort_objects insert_sort so (map demo_obj rs))"
  using demo_objects[of None rs so] by (simp add: objects_by_order_def)

lemma delete_writes_justified_example:
  "\<exists>log. client_delete (traced full_env) ''ns'' [''Pod''] \<lparr>de_owners = None, de_filter = None\<rparr> ((), []) =
       (Inr (), ((), log)) \<and> length log = 2 \<and>
     log_ok (delete_guard \<lparr>de_owners = None, de_filter = None\<rparr> [demo_obj ''Pod'']) log"
proof -
  let ?log = "[Sent (request demo_client DELETE (Some ''Pod'') [] (BDelete background_delete)) (Inr (demo_obj ''Pod'')),
            Sent (request demo_client GET (Some ''Pod'') [] NoBody) (Inr (demo_obj ''Pod''))]"
  have run: "client_delete (traced full_env) ''ns'' [''Pod''] \<lparr>de_owners = None, de_filter = None\<rparr> ((), []) =
      (Inr (), ((), ?log))"
    by (simp add: client_delete_def full_objects sort_objects_def delete_object_def accessor_for_object_cases
        own_def full_rest_def run_defs)
  from delete_writes_justified[OF run] run show ?thesis
    by (intro exI[of _ ?log]) (simp add: ordered_objects_def full_objects sort_objects_def)
qed

section \<open>Update\<close>

text \<open>The keys by which \<open>Update\<close> pairs originals with targets.\<close>

definition resource_keys :: "codec \<Rightarrow> string list \<Rightarrow> string list" where
  "resource_keys c rs =
     (case accessors_for_resources c rs of Inl _ \<Rightarrow> [] | Inr (obs, ms) \<Rightarrow> map2 key_for obs ms)"

definition decodes :: "codec \<Rightarrow> string list \<Rightarrow> bool" where
  "decodes c rs \<longleftrightarrow> (case accessors_for_resources c rs of Inl _ \<Rightarrow> False | Inr _ \<Rightarrow> True)"

definition new_targets :: "codec \<Rightarrow> string list \<Rightarrow> string list \<Rightarrow> string list" where
  "new_targets c originals targets =
     map snd (filter (\<lambda>p. fst p \<notin> set (resource_keys c originals)) (zip (resource_keys c targets) targets))"

definition paired_targets :: "codec \<Rightarrow> string list \<Rightarrow> string list \<Rightarrow> (string \<times> string) list" where
  "paired_targets c originals targets =
     List.map_filter (\<lambda>(key, targ). map_option (\<lambda>orig. (orig, targ))
         (map_of (zip (resource_keys c originals) originals) key))
       (zip (resource_keys c targets) targets)"

definition dropped_originals :: "codec \<Rightarrow> string list \<Rightarrow> string list \<Rightarrow> string list" where
  "dropped_originals c originals targets =
     map snd (filter (\<lambda>p. fst p \<notin> set (resource_keys c targets)) (zip (resource_keys c originals) originals))"

lemma resource_keys_length: "decodes c rs \<Longrightarrow> length (resource_keys c rs) = length rs"
  using accessors_for_resources_Inr(1,2)[of c rs]
  by (auto simp: decodes_def resource_keys_def split: sum.splits)

lemma map_of_zip_infos:
  assumes "distinct keys" and "length keys = length rs"
  shows "map_of (zip keys rs) key = map_option (\<lambda>i. rs ! i) (map_of (original_infos 0 keys []) key)"
proof (cases "map_of (original_infos 0 keys []) key")
  case None
  then have "key \<notin> set keys" by (simp add: map_of_original_infos[OF assms(1)] split: if_splits)
  with assms(2) None show ?thesis by (simp add: map_of_zip_is_None[THEN iffD2])
next
  case (Some i)
  with assms(1) have "i < length keys" "keys ! i = key" by (simp_all add: original_infos_nth)
  moreover from this assms have "(key, rs ! i) \<in> set (zip keys rs)" by (auto simp: in_set_zip)
  ultimately show ?thesis using Some assms by (simp add: map_of_eq_Some_iff)
qed

lemma infos_left:
  assumes "distinct keys" and "length keys = length rs"
  shows "mset (map (\<lambda>p. rs ! snd p) (filter (\<lambda>p. P (fst p)) (original_infos 0 keys []))) =
         mset (map snd (filter (\<lambda>p. P (fst p)) (zip keys rs)))"
proof -
  have d: "distinct (map fst (original_infos 0 keys []))" by (rule distinct_original_infos) simp
  have "set (original_infos 0 keys []) = set (zip keys [0..<length keys])"
  proof (intro set_eqI)
    fix p
    show "p \<in> set (original_infos 0 keys []) \<longleftrightarrow> p \<in> set (zip keys [0..<length keys])"
      using original_infos_nth[OF assms(1), of "fst p" "snd p"] map_of_eq_Some_iff[OF d, of "fst p" "snd p"]
      by (cases p) (auto simp: in_set_zip)
  qed
  moreover have "distinct (zip keys [0..<length keys])" by (simp add: distinct_zipI1 assms(1))
  ultimately have "mset (original_infos 0 keys []) = mset (zip keys [0..<length keys])"
    using d by (simp add: set_eq_iff_mset_eq_distinct[symmetric] distinct_map)
  then have "mset (map (\<lambda>p. rs ! snd p) (filter (\<lambda>p. P (fst p)) (original_infos 0 keys []))) =
      mset (map (\<lambda>p. rs ! snd p) (filter (\<lambda>p. P (fst p)) (zip keys [0..<length keys])))"
    by (simp add: mset_filter)
  also have "map (\<lambda>p. rs ! snd p) (filter (\<lambda>p. P (fst p)) (zip keys [0..<length keys])) =
      map snd (filter (\<lambda>p. P (fst p)) (map (\<lambda>(k, i). (k, rs ! i)) (zip keys [0..<length keys])))"
    by (simp add: filter_map comp_def case_prod_beta)
  also have "map (\<lambda>(k, i). (k, rs ! i)) (zip keys [0..<length keys]) = zip keys rs"
    using assms(2) by (intro nth_equalityI) auto
  finally show ?thesis .
qed

lemma classify_keys:
  assumes "decodes (ke_codec k) originals" and "decodes (ke_codec k) targets"
    and "distinct (resource_keys (ke_codec k) originals)" and "distinct (resource_keys (ke_codec k) targets)"
  shows "\<exists>ds. mset ds = mset (dropped_originals (ke_codec k) originals targets) \<and>
     update_plan k originals targets = Inr (new_targets (ke_codec k) originals targets,
       paired_targets (ke_codec k) originals targets, ds)"
proof -
  let ?ok = "resource_keys (ke_codec k) originals" and ?tk = "resource_keys (ke_codec k) targets"
  let ?infos = "original_infos 0 ?ok []"
  note len = resource_keys_length[OF assms(1)] resource_keys_length[OF assms(2)]
  obtain cs us left where cl: "classify originals (zip ?tk targets) ?infos = (cs, us, left)"
    by (cases "classify originals (zip ?tk targets) ?infos") auto
  have td: "distinct (map fst (zip ?tk targets))" using assms(4) len by simp
  note parts = classify_lists[OF cl td]
  have zi: "map_of (zip ?ok originals) key = map_option (\<lambda>i. originals ! i) (map_of ?infos key)" for key
    using map_of_zip_infos[OF assms(3) len(1)] .
  have cs: "cs = new_targets (ke_codec k) originals targets"
    unfolding parts(1) new_targets_def using map_of_original_infos[OF assms(3), of 0 "[]"]
    by (intro arg_cong[where f = "map snd"] filter_cong) auto
  have us: "us = paired_targets (ke_codec k) originals targets"
    unfolding parts(2) paired_targets_def map_filter_def zi
    by (auto simp: option.map_sel split: prod.splits intro!: map_cong filter_cong)
  have left: "mset (map (\<lambda>p. originals ! snd p) (range_over (ke_range k) left)) =
      mset (dropped_originals (ke_codec k) originals targets)"
    using infos_left[OF assms(3) len(1), of "\<lambda>key. key \<notin> set ?tk"] len(2)
    by (simp add: parts(3) dropped_originals_def)
  have plan: "update_plan k originals targets = Inr (case classify originals (zip ?tk targets) ?infos of
      (cs, us, left) \<Rightarrow> (cs, us, map (\<lambda>p. originals ! snd p) (range_over (ke_range k) left)))"
    using assms(1,2) by (auto simp: update_plan_def decodes_def resource_keys_def split: sum.splits)
  show ?thesis unfolding plan cl prod.case
    by (intro exI[of _ "map (\<lambda>p. originals ! snd p) (range_over (ke_range k) left)"] conjI left)
      (simp add: cs us)
qed

text \<open>
  C3: when no two originals and no two targets share a key, \<open>Update\<close> creates the targets whose key no
  original has, in their order, then patches each remaining target from the original with its key,
  then deletes the originals whose key no target has; a phase without work is skipped, and a phase
  that fails stops the update.
\<close>

theorem update_partition:
  assumes "decodes (ke_codec k) originals" and "decodes (ke_codec k) targets"
    and "distinct (resource_keys (ke_codec k) originals)" and "distinct (resource_keys (ke_codec k) targets)"
  shows "\<exists>ds. mset ds = mset (dropped_originals (ke_codec k) originals targets) \<and>
     client_update k ns originals targets opts =
       (let cs = new_targets (ke_codec k) originals targets; us = paired_targets (ke_codec k) originals targets
        in bind_io (if cs \<noteq> [] then client_create k ns cs \<lparr>cr_owners = up_owners opts\<rparr> else ret ()) (\<lambda>_.
           bind_io (if us \<noteq> [] then update_objects k ns us opts else ret ()) (\<lambda>_.
             if ds \<noteq> []
             then client_delete k ns ds \<lparr>de_owners = up_owners opts, de_filter = up_filter opts\<rparr>
             else ret ())))"
proof -
  from classify_keys[OF assms] obtain ds where
    "mset ds = mset (dropped_originals (ke_codec k) originals targets)"
    "update_plan k originals targets = Inr (new_targets (ke_codec k) originals targets,
       paired_targets (ke_codec k) originals targets, ds)" by blast
  then show ?thesis by (intro exI[of _ ds]) (simp add: client_update_plan Let_def)
qed

definition no_update_options :: update_options where
  "no_update_options = \<lparr>up_owners = None, up_modifier = None, up_filter = None\<rparr>"

lemma demo_decodes: "accessors_for_resources demo_codec rs = Inr (map demo_obj rs, map demo_meta rs)"
proof -
  have "mapM_result (accessor_for_resource demo_codec) rs = Inr (map (\<lambda>r. (demo_obj r, demo_meta r)) rs)"
    by (rule mapM_result_total) (simp add: accessor_for_resource_Inr)
  then show ?thesis by (simp add: accessors_for_resources_def comp_def)
qed

lemma demo_keys: "resource_keys demo_codec [] = []"
  "resource_keys demo_codec (r # rs) = (''/v1/'' @ r @ ''/'' @ r) # resource_keys demo_codec rs"
  by (simp_all add: resource_keys_def demo_decodes key_for_def demo_obj_def demo_meta_def)

lemma demo_decodes_all [simp]: "decodes demo_codec rs"
  by (simp add: decodes_def demo_decodes)

theorem update_partition_witness:
  "client_update (full_env :: unit kube_env) ''ns'' [''a'', ''b''] [''b'', ''c''] no_update_options =
     bind_io (client_create full_env ''ns'' [''c''] \<lparr>cr_owners = None\<rparr>) (\<lambda>_.
     bind_io (update_objects full_env ''ns'' [(''b'', ''b'')] no_update_options) (\<lambda>_.
       client_delete full_env ''ns'' [''a''] \<lparr>de_owners = None, de_filter = None\<rparr>))"
  using update_partition[of "full_env :: unit kube_env" "[''a'', ''b'']" "[''b'', ''c'']" "''ns''" no_update_options]
  by (auto simp: demo_keys new_targets_def paired_targets_def dropped_originals_def map_filter_def
      no_update_options_def Let_def)

text \<open>
  C19: every request of \<open>Update\<close> that changes the server is the creation of a resource that has no
  original, a patch, never the empty one, under the name of a paired original that an earlier read
  of the run found to be owned, or the deletion of an unfiltered dropped original that was found to
  be owned.
\<close>

theorem update_writes_justified:
  assumes "update_plan k originals targets = Inr (cs, us, ds)"
    and "client_update (traced k) ns originals targets opts (s, []) = (r, (s', log))"
  shows "client_update k ns originals targets opts s = (r, s') \<and> log_ok (update_guard k opts cs us ds) log"
  using wpD[OF client_update_guarded[OF assms(1)] assms(2)] mirrors_run[OF mirrors_client_update assms(2)]
  by simp

lemma full_plan: "update_plan full_env [''a''] [] = Inr ([], [], [''a''])"
  using classify_keys[of full_env "[''a'']" "[]"]
  by (auto simp: demo_keys new_targets_def paired_targets_def dropped_originals_def map_filter_def)

theorem update_writes_justified_witness:
  "\<exists>log. client_update (traced (full_env :: unit kube_env)) ''ns'' [''a''] [] no_update_options ((), []) =
       (Inr (), ((), log)) \<and> length log = 2 \<and> log_ok (update_guard (full_env :: unit kube_env) no_update_options [] [] [''a'']) log"
proof -
  have "\<exists>log. client_update (traced (full_env :: unit kube_env)) ''ns'' [''a''] [] no_update_options ((), []) =
      (Inr (), ((), log)) \<and> length log = 2"
    by (simp add: client_update_plan full_plan client_delete_def full_objects sort_objects_def delete_object_def
        accessor_for_object_cases own_def full_rest_def no_update_options_def run_defs)
  with update_writes_justified[OF full_plan[where 'a = unit]] show ?thesis by blast
qed

section \<open>Pods of released addresses\<close>

text \<open>The pods that have an address which is not in the list.\<close>

definition stray_pods :: "string list \<Rightarrow> pod_item list \<Rightarrow> pod_item list" where
  "stray_pods ips pods = filter (\<lambda>p. pi_ip p \<noteq> [] \<and> pi_ip p \<notin> set ips) pods"

definition pod_deletion :: "resource_client \<Rightarrow> pod_item \<Rightarrow> rest_request" where
  "pod_deletion c p = request c DELETE (Some (pi_name p)) [] (BDelete None)"

fun sent_request :: "event \<Rightarrow> rest_request option" where
  "sent_request (Sent rq _) = Some rq"
| "sent_request _ = None"

text \<open>The error of the newest answer of a log.\<close>

fun last_error :: "event list \<Rightarrow> error option" where
  "last_error (Sent rq (Inl e) # log) = Some e"
| "last_error _ = None"

lemma delete_pods_step:
  assumes "rest (pod_deletion c p) s = (a, s1)" and "pi_ip p \<noteq> []" and "pi_ip p \<notin> set ips"
  shows "delete_pods (traced_rest rest) c ips (p # pods) dl err (s, log) =
     (let log' = Sent (pod_deletion c p) a # log; dl' = dl @ [(pi_name p, pi_ip p)]
      in case a of
           Inr _ \<Rightarrow> delete_pods (traced_rest rest) c ips pods dl' None (s1, log')
         | Inl e \<Rightarrow>
             if is_panic e then (Inl e, (s1, log'))
             else if is_not_found e then delete_pods (traced_rest rest) c ips pods dl' (Some e) (s1, log')
             else (Inr (dl, Some e), (s1, log')))"
  using assms
  by (cases a) (simp_all add: pod_deletion_def rc_delete_def traced_rest_def logged_def try_io_def bind_io_def
      ret_def Let_def)

lemma delete_pods_run:
  assumes "delete_pods (traced_rest rest) c ips pods dl0 err0 (s, log0) = (Inr (dl, err), (s', log))"
    and "err0 = last_error log0"
  shows "\<exists>ps left evs. stray_pods ips pods = ps @ left \<and> log = evs @ log0 \<and> err = last_error log \<and>
     map sent_request (rev evs) = map (Some \<circ> pod_deletion c) ps \<and>
     (err = None \<or> is_not_found (the err) \<longrightarrow> left = [] \<and> dl = dl0 @ map (\<lambda>p. (pi_name p, pi_ip p)) ps)"
  using assms
proof (induction pods arbitrary: dl0 err0 s log0)
  case Nil
  then show ?case by (auto simp: stray_pods_def ret_def)
next
  case (Cons p pods)
  show ?case
  proof (cases "pi_ip p \<noteq> [] \<and> pi_ip p \<notin> set ips")
    case False
    with Cons.prems Cons.IH[of dl0 err0 s log0] show ?thesis by (auto simp: stray_pods_def split: if_splits)
  next
    case True
    obtain a s1 where a: "rest (pod_deletion c p) s = (a, s1)" by (cases "rest (pod_deletion c p) s")
    let ?log1 = "Sent (pod_deletion c p) a # log0" and ?dl1 = "dl0 @ [(pi_name p, pi_ip p)]"
    have stray: "stray_pods ips (p # pods) = p # stray_pods ips pods"
      using True by (simp add: stray_pods_def)
    note run = Cons.prems(1)[unfolded delete_pods_step[where rest = rest, OF a conjunct1[OF True] conjunct2[OF True]] Let_def]
    have later: ?thesis if "delete_pods (traced_rest rest) c ips pods ?dl1 (last_error ?log1) (s1, ?log1) =
        (Inr (dl, err), (s', log))"
    proof -
      from Cons.IH[OF that refl] obtain ps left evs where IH: "stray_pods ips pods = ps @ left"
        "log = evs @ ?log1" "err = last_error log" "map sent_request (rev evs) = map (Some \<circ> pod_deletion c) ps"
        "err = None \<or> is_not_found (the err) \<longrightarrow> left = [] \<and> dl = ?dl1 @ map (\<lambda>p. (pi_name p, pi_ip p)) ps"
        by blast
      then show ?thesis
        by (intro exI[of _ "p # ps"] exI[of _ left] exI[of _ "evs @ [Sent (pod_deletion c p) a]"])
          (simp add: stray)
    qed
    show ?thesis
    proof (cases a)
      case (Inr ob)
      with later run show ?thesis by simp
    next
      case (Inl e)
      show ?thesis
      proof (cases "is_not_found e")
        case True
        with Inl later run show ?thesis by (cases e) simp_all
      next
        case False
        with Inl run have "dl = dl0" "err = Some e" "log = ?log1" by (simp_all split: if_splits)
        with Inl False show ?thesis
          by (intro exI[of _ "[p]"] exI[of _ "stray_pods ips pods"] exI[of _ "[Sent (pod_deletion c p) a]"])
            (simp add: stray)
      qed
    qed
  qed
qed

text \<open>
  After a list of addresses shrank, exactly the pods whose address is no longer in the list are
  deleted, in the order in which they were listed, and a pod that is already gone does not stop the
  loop. The error that is returned is the one of the last deletion: when the last pod was already
  gone, all deletions are done and the caller is still told NotFound.
\<close>

lemma released_pods_deleted:
  assumes "delete_pods (traced_rest rest) c ips pods [] None (s, []) = (Inr (dl, err), (s', log))"
  shows "\<exists>ps left. stray_pods ips pods = ps @ left \<and>
     map sent_request (rev log) = map (Some \<circ> pod_deletion c) ps \<and> err = last_error log \<and>
     (err = None \<or> is_not_found (the err) \<longrightarrow> left = [] \<and> dl = map (\<lambda>p. (pi_name p, pi_ip p)) ps)"
proof -
  from delete_pods_run[OF assms] obtain ps left evs where run: "stray_pods ips pods = ps @ left" "log = evs @ []"
    "err = last_error log" "map sent_request (rev evs) = map (Some \<circ> pod_deletion c) ps"
    "err = None \<or> is_not_found (the err) \<longrightarrow> left = [] \<and> dl = [] @ map (\<lambda>p. (pi_name p, pi_ip p)) ps"
    by auto
  then show ?thesis by (intro exI[of _ ps] exI[of _ left]) simp
qed

lemma released_pods_deleted_example:
  "\<exists>dl log. delete_pods (traced_rest (\<lambda>rq. if rq_name rq = Some ''a'' then ret (demo_obj ''Pod'')
         else fail (NotFound ''gone''))) demo_client [''1'']
       [\<lparr>pi_name = ''a'', pi_ip = ''2''\<rparr>, \<lparr>pi_name = ''b'', pi_ip = ''1''\<rparr>, \<lparr>pi_name = ''c'', pi_ip = ''3''\<rparr>] [] None
       ((), []) = (Inr (dl, Some (NotFound ''gone'')), ((), log)) \<and>
     dl = [(''a'', ''2''), (''c'', ''3'')] \<and> length log = 2"
proof -
  let ?rest = "\<lambda>rq. if rq_name rq = Some ''a'' then ret (demo_obj ''Pod'') else fail (NotFound ''gone'')"
  let ?pods = "[\<lparr>pi_name = ''a'', pi_ip = ''2''\<rparr>, \<lparr>pi_name = ''b'', pi_ip = ''1''\<rparr>,
      \<lparr>pi_name = ''c'', pi_ip = ''3''\<rparr>]"
  obtain dl log where run: "delete_pods (traced_rest ?rest) demo_client [''1''] ?pods [] None ((), []) =
      (Inr (dl, Some (NotFound ''gone'')), ((), log))" and len: "length log = 2"
    by (simp add: run_defs)
  from released_pods_deleted[OF run] have "dl = [(''a'', ''2''), (''c'', ''3'')]"
    by (auto simp: stray_pods_def)
  with run len show ?thesis by blast
qed

end
