(* ===== verification/Store_Properties.thy ===== *)
theory Store_Properties
  imports Kube_Properties
begin

text \<open>
  What the data behind the client promise: the codec, the corrections of live objects, the lists of
  addresses, the table and the pool of \<open>pkg/kube\<close>, and the layers of \<open>pkg/store\<close>.
\<close>

section \<open>Objects\<close>

text \<open>
  The correction registered for a kind is idempotent: correcting a corrected object again
  against the same live object changes nothing. It keeps the kind, name, namespace and owners.
\<close>

lemma correction_idempotent:
  assumes "apply_fix g current (Some desired) = Inr corrected"
  shows "apply_fix g current corrected = Inr corrected \<and>
     (\<exists>ob. corrected = Some ob \<and> o_gvk ob = o_gvk desired \<and>
        map_option (\<lambda>m. (om_name m, om_namespace m, om_owners m)) (o_meta ob) =
        map_option (\<lambda>m. (om_name m, om_namespace m, om_owners m)) (o_meta desired))"
proof -
  obtain ob where ob: "corrected = Some ob" "o_gvk ob = o_gvk desired"
    "map_option om_name (o_meta ob) = map_option om_name (o_meta desired)"
    "map_option om_owners (o_meta ob) = map_option om_owners (o_meta desired)"
    "map_option om_namespace (o_meta ob) = map_option om_namespace (o_meta desired)"
    using assms by (rule apply_fix_frame)
  have "apply_fix g current corrected = Inr corrected"
    using assms by (auto simp: apply_fix_cases dest: apply_service_idem apply_pvc_idem apply_statefulset_idem
        split: if_splits)
  with ob show ?thesis by (cases "o_meta ob"; cases "o_meta desired") auto
qed

definition demo_service_spec :: "string \<Rightarrow> int32 \<Rightarrow> service_spec" where
  "demo_service_spec ip np =
     \<lparr>svc_cluster_ip = ip, svc_type = ''NodePort'',
      svc_ports = [\<lparr>sp_port = 80, sp_node_port = np, sp_rest = []\<rparr>], svc_rest = []\<rparr>"

definition demo_service :: "string \<Rightarrow> string \<Rightarrow> int32 \<Rightarrow> obj" where
  "demo_service nm ip np =
     \<lparr>o_gvk = gvk_service, o_meta = Some (demo_meta nm), o_body = Service (demo_service_spec ip np) []\<rparr>"

lemma demo_service_parts: "o_meta (demo_service nm ip np) = Some (demo_meta nm)"
  "o_body (demo_service nm ip np) = Service (demo_service_spec ip np) []"
  by (simp_all add: demo_service_def)

lemma demo_correction:
  "apply_fix gvk_service (Some (demo_service ''a'' ''10.0.0.1'' 30080)) (Some (demo_service ''a'' [] 0)) =
     Inr (Some (demo_service ''a'' ''10.0.0.1'' 30080))"
  by (simp add: apply_fix_cases demo_service_def demo_service_spec_def Let_def fix_port_def valid_node_port_def)

lemma correction_idempotent_example:
  "apply_fix gvk_service (Some (demo_service ''a'' ''10.0.0.1'' 30080)) (Some (demo_service ''a'' ''10.0.0.1'' 30080)) =
     Inr (Some (demo_service ''a'' ''10.0.0.1'' 30080))"
  using correction_idempotent[OF demo_correction] by simp

text \<open>
  A service keeps the address and the resource version of the live one. When both are of type
  NodePort, a port without a valid node port takes the one the live service has for the same port
  number, the last one when there are several and 0 when there is none; every other field is the
  desired one.
\<close>

lemma service_keeps_address:
  assumes "apply_service (Some current) (Some desired) = Inr r"
    and "o_meta current = Some cm" and "o_body current = Service cs crest"
    and "o_meta desired = Some dm" and "o_body desired = Service ds rest"
  shows "\<exists>ports. r = Some (desired\<lparr>o_meta := Some (dm\<lparr>om_resource_version := om_resource_version cm\<rparr>),
       o_body := Service (ds\<lparr>svc_cluster_ip := svc_cluster_ip cs, svc_ports := ports\<rparr>) rest\<rparr>) \<and>
     length ports = length (svc_ports ds) \<and>
     (\<forall>i < length ports.
        let want = svc_ports ds ! i;
            live = find (\<lambda>p. sp_port p = sp_port want) (rev (svc_ports cs))
        in ports ! i =
           (if svc_type ds = ''NodePort'' \<and> svc_type cs = ''NodePort'' \<and>
               (sint (sp_node_port want) \<le> 0 \<or> 65535 < sint (sp_node_port want))
            then want\<lparr>sp_node_port := (case live of None \<Rightarrow> 0 | Some p \<Rightarrow> sp_node_port p)\<rparr>
            else want))"
proof -
  let ?both = "svc_type ds = ''NodePort'' \<and> svc_type cs = ''NodePort''"
  let ?ports = "if ?both then map (fix_port (ports_map (svc_ports cs) [])) (svc_ports ds) else svc_ports ds"
  have "fix_port (ports_map (svc_ports cs) []) p =
      (if sint (sp_node_port p) \<le> 0 \<or> 65535 < sint (sp_node_port p)
       then p\<lparr>sp_node_port := (case find (\<lambda>q. sp_port q = sp_port p) (rev (svc_ports cs)) of
           None \<Rightarrow> 0 | Some q \<Rightarrow> sp_node_port q)\<rparr> else p)" for p
    by (auto simp: fix_port_def valid_node_port_def map_of_ports_map word_sle_eq word_sless_alt split: option.splits)
  then show ?thesis using assms
    by (intro exI[of _ ?ports]) (auto simp: Let_def)
qed

lemma service_keeps_address_example:
  "apply_service (Some (demo_service ''a'' ''10.0.0.1'' 30080)) (Some (demo_service ''a'' [] (- 1))) =
     Inr (Some (demo_service ''a'' ''10.0.0.1'' 30080))"
proof -
  obtain r where r: "apply_service (Some (demo_service ''a'' ''10.0.0.1'' 30080)) (Some (demo_service ''a'' [] (- 1))) = Inr r"
    by (simp add: demo_service_parts Let_def)
  have "r = Some (demo_service ''a'' ''10.0.0.1'' 30080)"
    using service_keeps_address[OF r demo_service_parts demo_service_parts]
    by (auto simp: demo_service_def demo_service_spec_def Let_def length_Suc_conv)
  with r show ?thesis by simp
qed

text \<open>
  Objects that were encoded one by one decode to the same objects in the same order, when the
  serializer reads back what it wrote.
\<close>

lemma codec_roundtrip:
  assumes "objects_to_resources c obs = Inr rs"
    and "\<And>ob r. cd_encode c ob = Inr r \<Longrightarrow> cd_decode c r = Inr ob"
  shows "resources_to_objects c rs = Inr obs \<and> length rs = length obs"
  using objects_roundtrip[OF assms] assms(1)
  by (simp add: objects_to_resources_def mapM_result_length)

definition named_codec :: codec where
  "named_codec =
     \<lparr>cd_decode = (\<lambda>r. Inr (demo_obj r)),
      cd_encode = (\<lambda>ob. if demo_obj (g_kind (o_gvk ob)) = ob then Inr (g_kind (o_gvk ob)) else Inl (External []))\<rparr>"

lemma codec_roundtrip_example:
  "resources_to_objects named_codec [''a'', ''b''] = Inr [demo_obj ''a'', demo_obj ''b'']"
proof -
  have "objects_to_resources named_codec [demo_obj ''a'', demo_obj ''b''] = Inr [''a'', ''b'']"
    by (simp add: objects_to_resources_def object_to_resource_def named_codec_def)
  moreover have "cd_decode named_codec r = Inr ob" if "cd_encode named_codec ob = Inr r" for ob r
    using that by (simp add: named_codec_def split: if_splits)
  ultimately show ?thesis using codec_roundtrip by blast
qed

section \<open>Addresses\<close>

text \<open>
  C31: what the parser of address lists accepts is ordered by network and subnet without repeating a
  pair, every list in it is nonempty and ordered, every address is one \<open>net.ParseIP\<close> accepts and
  stands there once, and no address was lost or added.
\<close>

theorem parsed_addresses_valid:
  assumes "parse_ip_sets unmarshal parse s = Inr sets" and "s \<noteq> []"
  shows "\<exists>raw. unmarshal s = Inr raw \<and> mset (address_map sets) = mset (address_map raw) \<and>
     mset (map set_key sets) = mset (map set_key raw) \<and>
     sorted (map set_key sets) \<and> distinct (map set_key sets) \<and>
     (\<forall>x \<in> set sets. ip_network x \<noteq> [] \<and> ip_ips x \<noteq> [] \<and> sorted (ip_ips x)) \<and>
     distinct (address_map sets) \<and> (\<forall>ip \<in> set (address_map sets). parse ip)"
proof -
  from assms obtain raw where raw: "unmarshal s = Inr raw" "validate_ip_sets parse raw = None"
    "sets = format_ip_sets raw"
    by (auto simp: parse_ip_sets_def split: sum.splits option.splits)
  have ok: "check_sets [] raw = None \<and> check_all_ips parse [] raw = None"
    using raw(2) by (cases raw) (auto simp: validate_ip_sets_def split: option.splits)
  have nonempty: "sort xs = [] \<longleftrightarrow> xs = []" for xs :: "string list"
    by (metis length_0_conv length_sort)
  have each: "ip_network x \<noteq> [] \<and> ip_ips x \<noteq> [] \<and> sorted (ip_ips x)" if "x \<in> set sets" for x
    using that ok unfolding raw(3) format_ip_sets_eq check_sets_None by (auto simp: nonempty)
  have addr: "mset (address_map sets) = mset (address_map raw)"
    and keys: "mset (map set_key sets) = mset (map set_key raw)"
    unfolding raw(3) by (rule format_ip_sets_addresses, rule format_ip_sets_keys)
  have "distinct (map set_key sets)"
    using distinct_set_keys[of raw] ok mset_eq_imp_distinct_iff[OF keys] by (simp add: check_sets_None)
  moreover have "distinct (address_map sets) \<and> (\<forall>ip \<in> set (address_map sets). parse ip)"
    using ok mset_eq_imp_distinct_iff[OF addr] mset_eq_setD[OF addr] by (simp add: check_all_ips_None)
  ultimately show ?thesis
    using raw(1) addr keys each format_ip_sets_sorted[of raw] by (auto simp: raw(3))
qed

definition demo_ip_sets :: "ip_set list" where
  "demo_ip_sets =
     [\<lparr>ip_network = ''n2'', ip_subnet = ''s'', ip_ips = [''3'', ''1'']\<rparr>,
      \<lparr>ip_network = ''n1'', ip_subnet = ''s'', ip_ips = [''2'']\<rparr>]"

lemma demo_ip_parse:
  "parse_ip_sets (\<lambda>_. Inr demo_ip_sets) (\<lambda>_. True) ''x'' = Inr (format_ip_sets demo_ip_sets)"
  by (simp add: parse_ip_sets_def validate_ip_sets_def demo_ip_sets_def Let_def)

theorem parsed_addresses_valid_witness:
  "sorted (map set_key (format_ip_sets demo_ip_sets)) \<and>
     mset (address_map (format_ip_sets demo_ip_sets)) = {#''1'', ''2'', ''3''#}"
  using parsed_addresses_valid[OF demo_ip_parse]
  by (auto simp: demo_ip_sets_def address_map_def)

text \<open>
  An update of a workload is taken to give up addresses exactly when the live object has an
  address that the desired one does not list, or still carries the mark of an earlier shrinking.
\<close>

lemma decreasing_means_lost_address:
  assumes "parse_ip_sets unmarshal parse (value_or_empty (annotation_value target anno_specified_ips)) = Inr new"
    and "parse_ip_sets unmarshal parse (value_or_empty (annotation_value live anno_specified_ips)) = Inr old"
  shows "judge_ip_decreasing unmarshal parse target live =
     Inr (annotation_value live anno_decreasing \<noteq> None \<or> \<not> set (address_map old) \<subseteq> set (address_map new))"
proof (cases "annotation_value live anno_decreasing = None \<and>
    value_or_empty (annotation_value target anno_specified_ips) \<noteq> value_or_empty (annotation_value live anno_specified_ips)")
  case True
  with assms show ?thesis
    by (cases old) (auto simp: judge_ip_decreasing_def Let_def address_map_def)
next
  case False
  with assms show ?thesis by (auto simp: judge_ip_decreasing_def Let_def)
qed

definition annotated :: "string \<Rightarrow> obj" where
  "annotated v = (demo_obj ''Deployment'')\<lparr>o_meta :=
     Some ((demo_meta ''web'')\<lparr>om_annotations := Some [(anno_specified_ips, v)]\<rparr>)\<rparr>"

definition one_address :: "string \<Rightarrow> error + ip_set list" where
  "one_address s = Inr [\<lparr>ip_network = ''n'', ip_subnet = ''s'', ip_ips = [s]\<rparr>]"

lemma annotated_values [simp]: "annotation_value (annotated v) anno_specified_ips = Some v"
  "annotation_value (annotated v) anno_decreasing = None"
  by (simp_all add: annotation_value_def annotated_def map_get_def anno_specified_ips_def anno_decreasing_def)

lemma one_address_parse: "s \<noteq> [] \<Longrightarrow> parse_ip_sets one_address (\<lambda>_. True) s =
    Inr [\<lparr>ip_network = ''n'', ip_subnet = ''s'', ip_ips = [s]\<rparr>]"
  by (simp add: parse_ip_sets_def one_address_def validate_ip_sets_def format_ip_sets_def Let_def)

lemma decreasing_means_lost_address_example:
  "judge_ip_decreasing one_address (\<lambda>_. True) (annotated ''1'') (annotated ''2'') = Inr True"
  using decreasing_means_lost_address[of one_address "\<lambda>_. True" "annotated ''1''" _ "annotated ''2''"]
  by (simp add: value_or_empty_def one_address_parse address_map_def)

section \<open>Discovered resources and clients\<close>

text \<open>
  C32: the table built from discovery has one entry per kind and each stands under its own group,
  version and kind, with a root name and with subresources that have a slash in theirs; a lookup
  succeeds exactly for the kinds that some discovered list of that group and version names.
\<close>

theorem discovery_table:
  assumes "new_api_resources found [] = Inr m"
  shows "table_ok m \<and>
     ((\<exists>r. resource_for m g = Inr r) \<longleftrightarrow>
      (\<exists>(gv, rs) \<in> set found. parse_group_version gv = Inr (g_group g, g_version g) \<and>
         g_kind g \<in> ar_kind ` set rs))"
proof -
  have add: "map_of (add_api_resources grp version rs m0) g = None \<longleftrightarrow>
      map_of m0 g = None \<and> \<not> (g_group g = grp \<and> g_version g = version \<and> g_kind g \<in> ar_kind ` set rs)"
    for grp version rs m0
    by (induction rs arbitrary: m0) (auto simp: map_of_add_api_resource)
  have "map_of m g = None \<longleftrightarrow> map_of m0 g = None \<and>
      \<not> (\<exists>(gv, rs) \<in> set found. parse_group_version gv = Inr (g_group g, g_version g) \<and> g_kind g \<in> ar_kind ` set rs)"
    if "new_api_resources found m0 = Inr m" for m0
    using that
  proof (induction found m0 rule: new_api_resources.induct)
    case (2 gv rs found m0)
    then obtain p where p: "parse_group_version gv = Inr p" by (cases "parse_group_version gv") auto
    with 2 show ?case by (cases p) (auto simp: add)
  qed simp
  from this[OF assms] show ?thesis
    using new_api_resources_ok[OF assms] by (auto simp: resource_for_def split: option.splits)
qed

theorem discovery_table_witness:
  "table_ok [(\<lparr>g_group = [], g_version = ''v1'', g_kind = ''Pod''\<rparr>,
     Resource \<lparr>ar_name = ''pods'', ar_kind = ''Pod'', ar_namespaced = True\<rparr> [] ''v1'' [])]"
proof -
  have "new_api_resources [(''v1'', [\<lparr>ar_name = ''pods'', ar_kind = ''Pod'', ar_namespaced = True\<rparr>])] [] =
      Inr [(\<lparr>g_group = [], g_version = ''v1'', g_kind = ''Pod''\<rparr>,
        Resource \<lparr>ar_name = ''pods'', ar_kind = ''Pod'', ar_namespaced = True\<rparr> [] ''v1'' [])]"
    by code_simp
  from discovery_table[OF this] show ?thesis by blast
qed

text \<open>A pool that is asked for a sequence of clients.\<close>

fun pool_calls ::
  "(gvk \<Rightarrow> error option) \<Rightarrow> (gvk \<times> string) list \<Rightarrow> client_pool \<Rightarrow> (error + resource_client) list" where
  "pool_calls rcf [] p = []"
| "pool_calls rcf ((g, ns) # calls) p =
     (case client_for rcf g ns p of (r, p') \<Rightarrow> r # pool_calls rcf calls p')"

text \<open>
  Whatever was asked before, the pool answers each call as if it built the client anew: with the
  client of the kind in the given namespace, in the default one when none is given, and in none for
  a kind without namespaces. The memo, which all namespaces of a kind share, shows only in that
  nothing is built twice.
\<close>

lemma pool_refines_fresh_clients:
  "pool_calls rcf calls \<lparr>cp_resources = m, cp_clients = []\<rparr> =
     map (\<lambda>(g, ns). client_spec rcf m g ns) calls"
proof -
  have "pool_calls rcf calls p = map (\<lambda>(g, ns). client_spec rcf (cp_resources p) g ns) calls"
    if "pool_ok rcf p" for p
    using that
  proof (induction rcf calls p rule: pool_calls.induct)
    case (2 rcf g ns calls p)
    note ok = client_for_ok[OF 2(2), of g ns]
    from 2(1)[OF prod.collapse ok(1)] ok(2,3) show ?case by (cases "client_for rcf g ns p") simp
  qed simp
  from this[of "\<lparr>cp_resources = m, cp_clients = []\<rparr>"] show ?thesis by (simp add: pool_ok_def)
qed

section \<open>The integration store\<close>

text \<open>
  C4: at every moment of the life of a store, a layer exists only for a discovered kind and carries
  its group and name, every record stands under the key of the object it holds and repeats its name,
  namespace, creation time and version, and no record outlives the time to live counted from now.
\<close>

theorem store_invariant:
  assumes "store_reach fac m ttl s"
  shows "store_within m ttl s"
  using assms
proof induction
  case (fresh content now)
  then show ?case by (simp add: store_within_def new_integration_store_ttl_def)
next
  case (layer_for s g)
  from this(2) show ?case by (rule informer_for_within)
next
  case (created s g ob)
  from this(2) show ?case by (rule layer_ops_within)
next
  case (updated s g ob)
  from this(2) show ?case by (rule layer_ops_within)
next
  case (deleted s g ob)
  from this(2) show ?case by (rule layer_ops_within)
next
  case (get_one s g ns nm)
  from this(2) show ?case by (rule layer_ops_within)
next
  case (get_list s g ns sel)
  from this(2) show ?case by (rule layer_ops_within)
next
  case (world s now content)
  then show ?case by (fastforce simp: store_within_def layer_within_def)
qed

definition pod_kind :: gvk where
  "pod_kind = \<lparr>g_group = [], g_version = ''v1'', g_kind = ''Pod''\<rparr>"

definition pod_table :: resource_map where
  "pod_table = [(pod_kind, Resource \<lparr>ar_name = ''pods'', ar_kind = ''Pod'', ar_namespaced = True\<rparr> [] ''v1'' [])]"

definition plain_factory :: informer_factory where
  "plain_factory = \<lparr>if_for_resource = (\<lambda>_. None), if_wait_sync = (\<lambda>_. True)\<rparr>"

definition pod_layer :: "cache_object indexer \<Rightarrow> cache_layer" where
  "pod_layer ix = \<lparr>ly_gr = ([], ''pods''), ly_indexer = ix, ly_ttl = 10\<rparr>"

definition pod_store :: "cache_object indexer \<Rightarrow> store_state" where
  "pod_store ix = \<lparr>ss_resources = pod_table, ss_informers = [(pod_kind, pod_layer ix)], ss_ttl = 10,
     ss_content = (\<lambda>_. []), ss_now = 5\<rparr>"

lemma demo_obj_pod: "o_gvk (demo_obj ''Pod'') = pod_kind"
  by (simp add: demo_obj_def pod_kind_def)

lemma pod_store_reach: "store_reach plain_factory pod_table 10 (pod_store [])"
proof -
  have "pod_store [] = snd (store_layer_for plain_factory pod_kind (new_integration_store_ttl pod_table 10 (\<lambda>_. []) 5))"
    by (simp add: store_layer_for_def bind_io_def informer_for_def new_integration_store_ttl_def resource_for_def
        pod_table_def plain_factory_def pod_store_def pod_layer_def new_cache_layer_def ret_def)
  also have "store_reach plain_factory pod_table 10 \<dots>"
    by (intro store_reach.layer_for store_reach.fresh)
  finally show ?thesis .
qed

theorem store_invariant_witness:
  "store_within pod_table 10 (snd (lo_created (store_layer_ops pod_kind) (demo_obj ''Pod'') (pod_store [])))"
  by (intro store_invariant[of plain_factory] store_reach.created pod_store_reach)

text \<open>
  A resource that was created through the client is found again by the next creation although
  the informer has not seen it yet: within the time to live a second \<open>Create\<close> of the same resource
  succeeds without a request, whatever the server would answer.
\<close>

lemma create_is_idempotent:
  assumes "ke_layers k = Some (store_layers fac)"
    and "cd_decode (ke_codec k) r = Inr ob" and "o_meta ob = Some m"
    and "store_known (o_gvk ob) s" and "ns \<noteq> []" and "store_absent (o_gvk ob) ns (om_name m) s"
    and "read_layer (store_layers fac) (o_gvk ob) ns (om_name m) s = (Inl e, s)" and "is_not_found e"
    and "creation_answered k (o_gvk ob) ns c srv s"
    and "recordable ns (om_name m) srv" and "own (cr_owners opts) srv"
  shows "\<exists>s1. client_create k ns [r] opts s = (Inr (), s1) \<and>
     (\<forall>rest'. client_create (k\<lparr>ke_rest := rest'\<rparr>) ns [r] opts s1 = (Inr (), s1))"
  by (rule store_cache.client_create_twice) (rule assms)+

definition answering_env :: "store_state kube_env" where
  "answering_env = (demo_env (Some (store_layers plain_factory)))"

lemma create_is_idempotent_example:
  "\<exists>s1. client_create answering_env ''ns'' [''Pod''] \<lparr>cr_owners = None\<rparr> (pod_store []) = (Inr (), s1) \<and>
     client_create (answering_env\<lparr>ke_rest := (\<lambda>_. fail (External ''down''))\<rparr>) ''ns'' [''Pod''] \<lparr>cr_owners = None\<rparr> s1 =
       (Inr (), s1)"
proof -
  have known: "store_known pod_kind (pod_store [])"
    by (simp add: store_known_def pod_store_def pod_layer_def)
  have miss: "read_layer (store_layers plain_factory) (o_gvk (demo_obj ''Pod'')) ''ns'' (om_name (demo_meta ''Pod'')) (pod_store []) =
      (Inl (new_not_found [] ''pods'' ''ns/Pod''), pod_store [])"
    unfolding demo_obj_pod store_read_layer[OF known]
    by (simp add: on_layer_def pod_store_def pod_layer_def layer_ns_get_def get_by_key_def generic_get_def)
  have "\<exists>s1. client_create answering_env ''ns'' [''Pod''] \<lparr>cr_owners = None\<rparr> (pod_store []) = (Inr (), s1) \<and>
      (\<forall>rest'. client_create (answering_env\<lparr>ke_rest := rest'\<rparr>) ''ns'' [''Pod''] \<lparr>cr_owners = None\<rparr> s1 = (Inr (), s1))"
  proof (rule create_is_idempotent[where fac = plain_factory and ob = "demo_obj ''Pod''" and m = "demo_meta ''Pod''"
        and c = demo_client and srv = "demo_obj ''Pod''", OF _ _ _ _ _ _ miss])
    show "creation_answered answering_env (o_gvk (demo_obj ''Pod'')) ''ns'' demo_client (demo_obj ''Pod'') (pod_store [])"
      by (simp add: creation_answered_def answering_env_def demo_rest_def ret_def)
    have "atoi_val ''7'' = 7" by code_simp
    then show "recordable ''ns'' (om_name (demo_meta ''Pod'')) (demo_obj ''Pod'')"
      by (simp add: recordable_def) (simp add: demo_meta_def)
    show "own (cr_owners \<lparr>cr_owners = None\<rparr>) (demo_obj ''Pod'')"
      by (simp add: own_def accessor_for_object_cases)
    show "store_absent (o_gvk (demo_obj ''Pod'')) ''ns'' (om_name (demo_meta ''Pod'')) (pod_store [])"
      by (simp add: store_absent_def pod_store_def)
  qed (simp_all add: known demo_obj_pod answering_env_def)
  then show ?thesis by blast
qed

text \<open>
  C33: a record of an update or of a deletion never wins over the object the informer holds. An
  update keeps the creation time, and \<open>selectObject\<close> prefers the informer's object unless the
  record was created later: after \<open>Updated\<close> or \<open>Deleted\<close> the layer goes on answering with the old
  object of the informer.
\<close>

theorem update_record_never_wins:
  assumes "map_of informer (om_namespace nm @ ''/'' @ om_name nm) = Some old"
    and "o_meta old = Some om" and "o_meta new = Some nm" and "om_namespace nm \<noteq> []"
    and "om_creation nm = om_creation om"
  shows "fst (layer_ns_get informer (om_namespace nm) (om_name nm) later (snd (layer_updated new now c))) = Inr old \<and>
     fst (layer_ns_get informer (om_namespace nm) (om_name nm) later (snd (layer_deleted new now c))) = Inr old"
proof -
  have "fst (layer_ns_get informer (om_namespace nm) (om_name nm) later (snd (layer_add new ex now c))) = Inr old" for ex
    using assms
    by (simp add: layer_ns_get_def generic_get_def fst_get_by_key_Inr layer_add_def Let_def co_key_def
        newer_than_entry_def update_conv')
  then show ?thesis by (simp add: layer_updated_def layer_deleted_def)
qed

theorem update_record_never_wins_witness:
  "fst (layer_ns_get [(''ns/a'', demo_service ''a'' ''1'' 1)] ''ns'' ''a'' 6
     (snd (layer_updated (demo_service ''a'' ''2'' 2) 5 (pod_layer [])))) = Inr (demo_service ''a'' ''1'' 1)"
  using update_record_never_wins[of "[(''ns/a'', demo_service ''a'' ''1'' 1)]" "demo_meta ''a''" "demo_service ''a'' ''1'' 1"
      "demo_meta ''a''" "demo_service ''a'' ''2'' 2"]
  by (simp add: demo_service_parts) (simp add: demo_meta_def)

text \<open>An object that a record speaks about: the recorded one, or one with the recorded name.\<close>

definition recorded_object :: "cache_object \<Rightarrow> obj \<Rightarrow> bool" where
  "recorded_object co ob \<longleftrightarrow>
     ob = co_object co \<or>
     (\<exists>m. o_meta ob = Some m \<and> name_key (om_namespace m) (om_name m) = name_key (co_namespace co) (co_name co))"

lemma cache_map_entries:
  "(key, co) \<in> set (cache_map cos m) \<Longrightarrow>
     (key, co) \<in> set m \<or> (co \<in> set cos \<and> key = name_key (co_namespace co) (co_name co))"
proof (induction cos m rule: cache_map.induct)
  case (2 co' cos m)
  from 2(1)[OF 2(2)[unfolded cache_map.simps]] show ?case by (auto dest: in_set_update)
qed simp

lemma select_result:
  "select_object cur (Some co) now c = (Some ob, c') \<Longrightarrow> Some ob = cur \<or> ob = co_object co"
  by (auto simp: select_object_def Let_def split: if_splits)

lemma list_current_recorded:
  assumes "list_current now obs entries c = (kept, left, c')"
    and "\<And>key co. (key, co) \<in> set entries \<Longrightarrow> co \<in> A \<and> key = name_key (co_namespace co) (co_name co)"
  shows "(\<forall>ob \<in> set kept. \<exists>co \<in> A. recorded_object co ob) \<and> set left \<subseteq> set entries"
  using assms
proof (induction now obs entries c arbitrary: kept left c' rule: list_current.induct)
  case (2 now ob obs entries c)
  show ?case
  proof (cases "\<exists>m co. o_meta ob = Some m \<and> map_of entries (name_key (om_namespace m) (om_name m)) = Some co")
    case False
    with 2 show ?thesis by (auto simp: Let_def split: option.splits)
  next
    case True
    then obtain m co where m: "o_meta ob = Some m"
      and co: "map_of entries (name_key (om_namespace m) (om_name m)) = Some co" by blast
    let ?key = "name_key (om_namespace m) (om_name m)"
    obtain res c1 where sel: "select_object (Some ob) (Some co) (now ?key) c = (res, c1)"
      by (cases "select_object (Some ob) (Some co) (now ?key) c")
    obtain later left' c2 where rec: "list_current now obs (AList.delete ?key entries) c1 = (later, left', c2)"
      by (cases "list_current now obs (AList.delete ?key entries) c1") auto
    have A: "co \<in> A" "?key = name_key (co_namespace co) (co_name co)"
      using 2(5) map_of_SomeD[OF co] by blast+
    have kept: "kept = (case res of None \<Rightarrow> later | Some r \<Rightarrow> r # later)" "left = left'"
      using 2(4) by (simp_all add: Let_def m co sel rec split: option.splits)
    have "(\<forall>ob \<in> set later. \<exists>co \<in> A. recorded_object co ob) \<and> set left' \<subseteq> set (AList.delete ?key entries)"
      using 2(3)[OF refl, unfolded m, simplified, OF refl co sel[symmetric] rec] 2(5)
      by (meson set_delete_subset subsetD)
    moreover have "\<forall>r. res = Some r \<longrightarrow> recorded_object co r"
      using select_result sel m A(2) by (fastforce simp: recorded_object_def)
    ultimately show ?thesis
      using A(1) kept set_delete_subset[of ?key entries] by (auto split: option.splits)
  qed
qed simp

lemma list_cached_recorded:
  "list_cached now entries c = (added, c') \<Longrightarrow>
     \<forall>ob \<in> set added. \<exists>(key, co) \<in> set entries. ob = co_object co"
proof (induction now entries c arbitrary: added c' rule: list_cached.induct)
  case (2 now key co entries c)
  obtain res c1 where sel: "select_object None (Some co) (now key) c = (res, c1)"
    by (cases "select_object None (Some co) (now key) c")
  obtain later c2 where rec: "list_cached now entries c1 = (later, c2)" by (cases "list_cached now entries c1")
  have "\<forall>r. res = Some r \<longrightarrow> r = co_object co" using select_result sel by fastforce
  with 2(1)[OF sel[symmetric] rec] 2(2) show ?case
    by (fastforce simp: sel rec split: option.splits)
qed simp


lemma layer_ns_list_everything: "\<exists>res c'. layer_ns_list ix ns [] now c = (Inr res, c')"
  by (simp add: layer_ns_list_def list_by_selector_def generic_list_def split: prod.split)

definition record_a :: cache_object where
  "record_a =
     \<lparr>co_namespace = ''ns'', co_name = ''a'', co_uuid = ''u'', co_creation = 5, co_version = 7,
      co_existing = True, co_object = demo_obj ''a'', co_deadline = 15\<rparr>"


end
