(* ===== verification/Render_Tree.thy ===== *)
theory Render_Tree
  imports Kube_Objects
begin

text \<open>
  \<open>pkg/render/util.go\<close>, \<open>carrier.go\<close> and the tree of \<open>pkg/render/tree.go\<close>: manifests and their
  resources, the logic path of a template file, and the tree of charts with its lookups. A map of
  children is an association list; where the source ranges over a map, the order is a parameter.
\<close>

section \<open>Manifests\<close>

definition delimiter :: string where
  "delimiter = [CHR 0x0A] @ ''---'' @ [CHR 0x0A]"

definition merge_resources :: "string list \<Rightarrow> string" where
  "merge_resources rs = join_str rs delimiter"

definition split_manifest :: "string \<Rightarrow> string list" where
  "split_manifest manifest = filter (\<lambda>r. r \<noteq> []) (map trim_space (split_str manifest delimiter))"

text \<open>A resource that survives the way into a manifest and back.\<close>

definition plain_resource :: "string \<Rightarrow> bool" where
  "plain_resource r \<longleftrightarrow> r \<noteq> [] \<and> trim_space r = r \<and> clean_piece delimiter r"

lemma split_merge:
  assumes "\<forall>r \<in> set rs. plain_resource r"
  shows "split_manifest (merge_resources rs) = rs"
proof (cases "rs = []")
  case True
  have "trim_space [] = []" by (simp add: trim_space_def trim_left_def trim_right_def)
  with True show ?thesis
    by (simp add: split_manifest_def merge_resources_def split_str_def)
next
  case False
  have "split_str (join_str rs delimiter) delimiter = rs"
    by (rule split_join) (use assms False in \<open>auto simp: plain_resource_def delimiter_def\<close>)
  moreover have "map trim_space rs = rs" "filter (\<lambda>r. r \<noteq> []) rs = rs"
    using assms by (auto simp: plain_resource_def map_idI filter_id_conv)
  ultimately show ?thesis by (simp add: split_manifest_def merge_resources_def)
qed

lemma split_manifest_trimmed: "r \<in> set (split_manifest m) \<Longrightarrow> r \<noteq> [] \<and> trim_space r = r"
  by (auto simp: split_manifest_def)

section \<open>Logic paths\<close>

text \<open>The elements at the even positions.\<close>

fun even_elems :: "'a list \<Rightarrow> 'a list" where
  "even_elems [] = []"
| "even_elems [x] = [x]"
| "even_elems (x # y # xs) = x # even_elems xs"

definition templates_dir :: string where
  "templates_dir = ''/templates/''"

definition logic_path_for_file :: "string \<Rightarrow> error + string list" where
  "logic_path_for_file file =
     (case last_index_str file templates_dir of
        None \<Rightarrow> Inl (Errorf (''can't find dir templates in file path: '' @ file))
      | Some 0 \<Rightarrow> Inl (Errorf (''can't find dir templates in file path: '' @ file))
      | Some (Suc n) \<Rightarrow>
          (let base = take (Suc n) file; paths = split_str base ''/''
           in if length paths mod 2 \<noteq> 1 then Inl (Errorf (''unexpected file path: '' @ base))
              else Inr (even_elems paths)))"

lemma even_elems_length: "length (even_elems xs) = (length xs + 1) div 2"
  by (induction xs rule: even_elems.induct) auto

lemma even_elems_nth: "i < length (even_elems xs) \<Longrightarrow> even_elems xs ! i = xs ! (2 * i)"
proof (induction xs arbitrary: i rule: even_elems.induct)
  case (3 x y xs)
  then show ?case by (cases i) auto
qed auto

text \<open>The path of the chart whose template a file is: its directories, without the \<open>charts\<close> between.\<close>

fun chart_dirs :: "string list \<Rightarrow> string list" where
  "chart_dirs [] = []"
| "chart_dirs [c] = [c]"
| "chart_dirs (c # d # cs) = c # ''charts'' # chart_dirs (d # cs)"

lemma even_chart_dirs: "even_elems (chart_dirs cs) = cs"
proof (induction cs rule: chart_dirs.induct)
  case (3 c d cs)
  then show ?case by (cases cs) auto
qed auto

lemma length_chart_dirs: "cs \<noteq> [] \<Longrightarrow> length (chart_dirs cs) = 2 * length cs - 1"
  by (induction cs rule: chart_dirs.induct) auto

lemma set_chart_dirs: "set (chart_dirs cs) \<subseteq> insert ''charts'' (set cs)"
  by (induction cs rule: chart_dirs.induct) auto

lemma chart_dirs_nonempty: "cs \<noteq> [] \<Longrightarrow> chart_dirs cs \<noteq> []"
  by (cases cs rule: chart_dirs.cases) auto

lemma last_index_append:
  assumes "last_index_str (sub @ f) sub = Some 0" and "sub \<noteq> []"
  shows "last_index_str (base @ sub @ f) sub = Some (length base)"
  by (induction base) (use assms in auto)

lemma last_index_none:
  assumes "\<not> sublist sub t" and "sub \<noteq> []"
  shows "last_index_str t sub = None"
proof (rule ccontr)
  assume "last_index_str t sub \<noteq> None"
  then obtain n where "last_index_str t sub = Some n" by auto
  then have "prefix sub (drop n t)"
    using last_index_str_Some by (auto simp: has_prefix_iff)
  then have "sublist sub (drop n t)" by (rule prefix_imp_sublist)
  then have "sublist sub t"
    by (metis sublist_order.order_trans sublist_drop)
  with assms show False by simp
qed

lemma last_index_here:
  assumes "\<not> sublist sub (tl sub @ f)" and "sub \<noteq> []"
  shows "last_index_str (sub @ f) sub = Some 0"
proof -
  obtain c s where sub: "sub = c # s" using assms(2) by (cases sub) auto
  have "last_index_str (s @ f) sub = None"
    using assms by (intro last_index_none) (auto simp: sub)
  then show ?thesis by (simp add: sub has_prefix_iff)
qed

lemma logic_path_of_chart:
  assumes "cs \<noteq> []" and "\<forall>c \<in> set cs. c \<noteq> [] \<and> CHR ''/'' \<notin> set c"
    and "\<not> sublist templates_dir (tl templates_dir @ f)"
  shows "logic_path_for_file (join_str (chart_dirs cs) ''/'' @ templates_dir @ f) = Inr cs"
proof -
  let ?base = "join_str (chart_dirs cs) ''/''"
  have here: "last_index_str (templates_dir @ f) templates_dir = Some 0"
    by (rule last_index_here[OF assms(3)]) (simp add: templates_dir_def)
  have pos: "last_index_str (?base @ templates_dir @ f) templates_dir = Some (length ?base)"
    by (rule last_index_append[OF here]) (simp add: templates_dir_def)
  have clean: "\<forall>x \<in> set (chart_dirs cs). CHR ''/'' \<notin> set x"
    using set_chart_dirs[of cs] assms(2) by auto
  have split: "split_str ?base ''/'' = chart_dirs cs"
    by (rule split_join_char[OF chart_dirs_nonempty[OF assms(1)] clean])
  have "?base \<noteq> []"
    using assms(1,2) by (cases cs rule: chart_dirs.cases) (auto simp: join_str_Cons chart_dirs_nonempty)
  then obtain n where n: "length ?base = Suc n" by (cases "length ?base") auto
  have "length (chart_dirs cs) mod 2 = 1"
    using length_chart_dirs[OF assms(1)] assms(1) by (cases cs) auto
  with pos n split show ?thesis
    by (simp add: logic_path_for_file_def Let_def even_chart_dirs)
qed

section \<open>The tree of charts\<close>

datatype node =
  Node (nd_name: string) (nd_path: string) (nd_resources: "string list")
    (nd_children: "(string \<times> node) list")

definition new_node :: "string \<Rightarrow> string list \<Rightarrow> node" where
  "new_node path resources = Node (last (split_str path ''/'')) path resources []"

text \<open>
  The loop of \<open>add\<close>: \<open>pre\<close> is the part of the path that leads to this node. A missing node on the
  way is created with its full path.
\<close>

fun add_at :: "string list \<Rightarrow> string list \<Rightarrow> string list \<Rightarrow> node \<Rightarrow> node" where
  "add_at pre [] rs (Node nm p res ch) = Node nm p (res @ rs) ch"
| "add_at pre (x # xs) rs (Node nm p res ch) =
     (case map_of ch x of
        Some t \<Rightarrow> Node nm p res (AList.update x (add_at (pre @ [x]) xs rs t) ch)
      | None \<Rightarrow>
          Node nm p res
            (AList.update x (add_at (pre @ [x]) xs rs (new_node (join_str (pre @ [x]) ''/'') [])) ch))"

definition node_add :: "node \<Rightarrow> string list \<Rightarrow> string list \<Rightarrow> error + node" where
  "node_add n paths rs =
     (case paths of
        [] \<Rightarrow> Inl (Errorf ''there is no path in paths'')
      | x # xs \<Rightarrow>
          if nd_name n \<noteq> x then Inl (Errorf (''paths have a diverse root node: '' @ x))
          else Inr (add_at [x] xs rs n))"

text \<open>\<open>%s\<close> of a list of strings.\<close>

definition show_paths :: "string list \<Rightarrow> string" where
  "show_paths ps = ''['' @ join_str ps '' '' @ '']''"

fun node_at :: "string list \<Rightarrow> node \<Rightarrow> node option" where
  "node_at [] n = Some n"
| "node_at (x # xs) n = (case map_of (nd_children n) x of None \<Rightarrow> None | Some t \<Rightarrow> node_at xs t)"

definition node_find :: "node \<Rightarrow> string list \<Rightarrow> error + node" where
  "node_find n paths =
     (case paths of
        [] \<Rightarrow> Inl (Errorf ''there is no path in paths'')
      | x # xs \<Rightarrow>
          (case node_at xs n of
             None \<Rightarrow> Inl (Errorf (''no node for paths: '' @ show_paths paths))
           | Some t \<Rightarrow> Inr t))"

type_synonym child_order = "(string \<times> node) list \<Rightarrow> (string \<times> node) list"

fun node_count :: "node \<Rightarrow> nat" where
  "node_count (Node nm p res ch) = Suc (sum_list (map (\<lambda>c. node_count (snd c)) ch))"

lemma sum_list_range_over:
  "sum_list (map f (range_over rng ch)) = (sum_list (map f ch) :: nat)"
  by (metis mset_range_over mset_map sum_mset_sum_list)

lemma node_count_children: "node_count n = Suc (sum_list (map (node_count \<circ> snd) (nd_children n)))"
  by (cases n) (simp add: comp_def)

lemma node_count_range:
  "sum_list (map (node_count \<circ> snd) (range_over rng (nd_children n))) < node_count n"
  unfolding sum_list_range_over by (simp add: node_count_children[of n])

text \<open>\<open>walkthrough\<close>: breadth first, until the handler says stop; \<open>st\<close> is what the handler writes.\<close>

function walkthrough ::
  "child_order \<Rightarrow> (node \<Rightarrow> 's \<Rightarrow> bool \<times> 's) \<Rightarrow> node list \<Rightarrow> 's \<Rightarrow> bool \<times> 's" where
  "walkthrough rng h [] st = (True, st)"
| "walkthrough rng h (n # ns) st =
     (case h n st of
        (False, st') \<Rightarrow> (False, st')
      | (True, st') \<Rightarrow> walkthrough rng h (ns @ map snd (range_over rng (nd_children n))) st')"
  by pat_completeness auto
termination
  by (relation "measure (\<lambda>(rng, h, ns, st). sum_list (map node_count ns))")
    (auto simp: node_count_range)

text \<open>The nodes below and including a node.\<close>

fun all_nodes :: "node \<Rightarrow> node list" where
  "all_nodes (Node nm p res ch) = Node nm p res ch # concat (map (\<lambda>c. all_nodes (snd c)) ch)"

definition tree_resources :: "child_order \<Rightarrow> node option \<Rightarrow> string list" where
  "tree_resources rng root =
     (case root of
        None \<Rightarrow> []
      | Some n \<Rightarrow>
          snd (walkthrough rng (\<lambda>n acc. (True, if nd_resources n \<noteq> [] then acc @ nd_resources n else acc)) [n] []))"

definition resources_of :: "node option \<Rightarrow> string \<Rightarrow> error + string list" where
  "resources_of root target =
     (let paths = split_str target ''/''
      in case root of
           None \<Rightarrow> Inl (Errorf (''no node for paths: '' @ show_paths paths))
         | Some n \<Rightarrow> (case node_find n paths of Inl e \<Rightarrow> Inl e | Inr t \<Rightarrow> Inr (nd_resources t)))"

section \<open>Carriers\<close>

text \<open>One round of both constructors: the first path makes the root.\<close>

definition add_to_root :: "node option \<Rightarrow> string list \<Rightarrow> string list \<Rightarrow> error + node option" where
  "add_to_root root paths rs =
     (let n = (case root of None \<Rightarrow> new_node (hd paths) [] | Some n \<Rightarrow> n)
      in case node_add n paths rs of Inl e \<Rightarrow> Inl e | Inr n' \<Rightarrow> Inr (Some n'))"

text \<open>\<open>treeCarrierFor\<close>; the files are given in the order in which the map is visited.\<close>

fun tree_files :: "(string \<times> string list) list \<Rightarrow> node option \<Rightarrow> error + node option" where
  "tree_files [] root = Inr root"
| "tree_files ((file, rs) # files) root =
     (case logic_path_for_file file of
        Inl e \<Rightarrow> Inl e
      | Inr paths \<Rightarrow>
          (case add_to_root root paths rs of
             Inl e \<Rightarrow> Inl e
           | Inr root' \<Rightarrow> tree_files files root'))"

definition tree_carrier_for :: "(string \<times> string list) list \<Rightarrow> error + node option" where
  "tree_carrier_for files = tree_files files None"

text \<open>
  \<open>CarrierForResources\<close> decodes every resource into the same variable, so the annotations decoded
  last are still there when the next resource is decoded: a map in the text is added to the map in
  the variable, a null clears it, and a text without annotations leaves it. The decoder, which
  finds the annotations in the YAML text, is the parameter \<open>annos\<close>.
\<close>

datatype anno_field = AnnoAbsent | AnnoNull | AnnoMap "(string \<times> string) list"

type_synonym annotations = "(string \<times> string) list option"

definition unmarshal_into :: "anno_field \<Rightarrow> annotations \<Rightarrow> annotations" where
  "unmarshal_into fld m =
     (case fld of
        AnnoAbsent \<Rightarrow> m
      | AnnoNull \<Rightarrow> None
      | AnnoMap al \<Rightarrow> Some (fold (\<lambda>(k, v). AList.update k v) al (case m of None \<Rightarrow> [] | Some m \<Rightarrow> m)))"

fun carrier_resources ::
  "(string \<Rightarrow> error + anno_field) \<Rightarrow> string \<Rightarrow> string list \<Rightarrow> annotations \<Rightarrow> node option \<Rightarrow> error + node option" where
  "carrier_resources annos path_key [] res root = Inr root"
| "carrier_resources annos path_key (r # rs) res root =
     (case annos r of
        Inl e \<Rightarrow> Inl e
      | Inr fld \<Rightarrow>
          (let res' = unmarshal_into fld res
           in if res' = None then Inl (Errorf ''unknown resource object'')
              else case map_get res' path_key of
                  None \<Rightarrow> Inl (Errorf ''unknown resource for carrier'')
                | Some path \<Rightarrow>
                    if path = [] then Inl (Errorf ''unknown resource for carrier'')
                    else (case add_to_root root (split_str path ''/'') [r] of
                            Inl e \<Rightarrow> Inl e
                          | Inr root' \<Rightarrow> carrier_resources annos path_key rs res' root')))"

definition carrier_for_resources :: "(string \<Rightarrow> error + anno_field) \<Rightarrow> string \<Rightarrow> string list \<Rightarrow> error + node option" where
  "carrier_for_resources annos path_key rs = carrier_resources annos path_key rs None None"

definition carrier_for_manifest :: "(string \<Rightarrow> error + anno_field) \<Rightarrow> string \<Rightarrow> string \<Rightarrow> error + node option" where
  "carrier_for_manifest annos path_key manifest =
     carrier_for_resources annos path_key (split_manifest manifest)"

section \<open>Adding and finding\<close>

text \<open>The resources at a path below a node; none where there is no node.\<close>

definition res_at :: "string list \<Rightarrow> node \<Rightarrow> string list" where
  "res_at ps n = (case node_at ps n of None \<Rightarrow> [] | Some t \<Rightarrow> nd_resources t)"

lemma res_at_simps [simp]:
  "res_at [] n = nd_resources n"
  "res_at (x # xs) n = (case map_of (nd_children n) x of None \<Rightarrow> [] | Some t \<Rightarrow> res_at xs t)"
  by (auto simp: res_at_def split: option.splits)

lemma res_at_new_node [simp]: "res_at ps (new_node p []) = []"
  by (cases ps) (simp_all add: new_node_def)

lemma res_at_add: "res_at qs (add_at pre ps rs n) = res_at qs n @ (if qs = ps then rs else [])"
proof (induction pre ps rs n arbitrary: qs rule: add_at.induct)
  case (1 pre rs nm p res ch)
  then show ?case by (cases qs) auto
next
  case (2 pre x xs rs nm p res ch)
  then show ?case
    by (cases qs) (auto simp: update_conv' split: option.splits)
qed

lemma nd_add_at [simp]:
  "nd_name (add_at pre ps rs n) = nd_name n" "nd_path (add_at pre ps rs n) = nd_path n"
  by (induction pre ps rs n rule: add_at.induct) (auto split: option.splits)

text \<open>\<open>find\<close> reaches every node that \<open>add\<close> has passed.\<close>

lemma node_at_add:
  "(\<exists>t. node_at qs (add_at pre ps rs n) = Some t) \<longleftrightarrow> (\<exists>t. node_at qs n = Some t) \<or> prefix qs ps"
proof (induction pre ps rs n arbitrary: qs rule: add_at.induct)
  case (1 pre rs nm p res ch)
  then show ?case by (cases qs) auto
next
  case (2 pre x xs rs nm p res ch)
  have [simp]: "node_at qs (new_node p []) = Some t \<longleftrightarrow> qs = [] \<and> t = new_node p []" for qs p t
    by (cases qs) (auto simp: new_node_def)
  show ?case
    using 2 by (cases qs) (auto simp: update_conv' split: option.splits if_splits)
qed

section \<open>Nothing is lost\<close>

definition all_resources :: "node \<Rightarrow> string list" where
  "all_resources n = concat (map nd_resources (all_nodes n))"

definition below :: "(string \<times> node) list \<Rightarrow> string multiset" where
  "below ch = sum_list (map (\<lambda>c. mset (all_resources (snd c))) ch)"

lemma mset_concat_sum: "mset (concat xss) = sum_list (map mset xss)"
  by (induction xss) auto

lemma concat_all_nodes:
  "concat (map nd_resources (concat (map (\<lambda>c. all_nodes (snd c)) ch))) =
     concat (map (\<lambda>c. all_resources (snd c)) ch)"
  by (induction ch) (auto simp: all_resources_def)

lemma all_resources_Node:
  "all_resources (Node nm p res ch) = res @ concat (map (\<lambda>c. all_resources (snd c)) ch)"
  by (simp only: all_resources_def[of "Node nm p res ch"] all_nodes.simps list.map concat.simps
      concat_all_nodes node.sel)

lemma mset_all_resources: "mset (all_resources n) = mset (nd_resources n) + below (nd_children n)"
  by (cases n) (simp add: all_resources_Node below_def mset_concat_sum comp_def)

lemma below_update:
  "map_of ch x = Some t \<Longrightarrow> below (AList.update x t' ch) + mset (all_resources t) = below ch + mset (all_resources t')"
  "map_of ch x = None \<Longrightarrow> below (AList.update x t' ch) = below ch + mset (all_resources t')"
  by (induction ch) (auto simp: below_def ac_simps split: if_splits)

lemma below_eq: "below ch = sum_list (map (mset \<circ> all_resources \<circ> snd) ch)"
  by (simp add: below_def comp_def)

lemma below_range [simp]: "below (range_over rng ch) = below ch"
proof -
  have "sum_mset (image_mset (\<lambda>c. mset (all_resources (snd c))) (mset (range_over rng ch))) =
      sum_mset (image_mset (\<lambda>c. mset (all_resources (snd c))) (mset ch))" by simp
  then show ?thesis unfolding below_def by (metis mset_map sum_mset_sum_list)
qed

lemma all_resources_new [simp]: "mset (all_resources (new_node p [])) = {#}"
  by (subst mset_all_resources) (simp add: new_node_def below_def)

lemma all_resources_add:
  "mset (all_resources (add_at pre ps rs n)) = mset (all_resources n) + mset rs"
proof (induction pre ps rs n rule: add_at.induct)
  case (1 pre rs nm p res ch)
  then show ?case by (simp add: mset_all_resources)
next
  case (2 pre x xs rs nm p res ch)
  show ?case
  proof (cases "map_of ch x")
    case None
    with 2 show ?thesis by (simp add: mset_all_resources[of "Node _ _ _ _"] below_update(2) ac_simps)
  next
    case (Some t)
    let ?t' = "add_at (pre @ [x]) xs rs t"
    have "below (AList.update x ?t' ch) + mset (all_resources t) =
        (below ch + mset rs) + mset (all_resources t)"
      using below_update(1)[OF Some, of ?t'] 2(2)[OF Some] by (simp add: ac_simps)
    with Some show ?thesis by (simp add: mset_all_resources[of "Node _ _ _ _"] ac_simps)
  qed
qed

text \<open>\<open>walkthrough\<close> with the handler of \<open>Resources\<close> collects every resource once.\<close>

lemma walkthrough_resources:
  "mset (snd (walkthrough rng (\<lambda>n acc. (True, if nd_resources n \<noteq> [] then acc @ nd_resources n else acc)) ns acc)) =
     mset acc + sum_list (map (mset \<circ> all_resources) ns)"
proof (induction "sum_list (map node_count ns)" arbitrary: ns acc rule: less_induct)
  case less
  show ?case
  proof (cases ns)
    case (Cons n ns')
    let ?ns = "ns' @ map snd (range_over rng (nd_children n))"
    have lt: "sum_list (map node_count ?ns) < sum_list (map node_count ns)"
      using node_count_range[of rng n] by (simp add: Cons)
    have "sum_list (map (mset \<circ> all_resources) ?ns) =
        sum_list (map (mset \<circ> all_resources) ns') + below (nd_children n)"
      by (simp add: below_eq[symmetric])
    moreover have "mset (if nd_resources n \<noteq> [] then acc @ nd_resources n else acc) = mset acc + mset (nd_resources n)"
      by simp
    ultimately have "mset (snd (walkthrough rng (\<lambda>n acc. (True, if nd_resources n \<noteq> [] then acc @ nd_resources n else acc))
        ?ns (if nd_resources n \<noteq> [] then acc @ nd_resources n else acc))) =
        mset acc + mset (nd_resources n) + (sum_list (map (mset \<circ> all_resources) ns') + below (nd_children n))"
      using less[OF lt, of "if nd_resources n \<noteq> [] then acc @ nd_resources n else acc"] by metis
    then have "mset (snd (walkthrough rng (\<lambda>n acc. (True, if nd_resources n \<noteq> [] then acc @ nd_resources n else acc)) ns acc)) =
        mset acc + (mset (nd_resources n) + below (nd_children n)) + sum_list (map (mset \<circ> all_resources) ns')"
      unfolding Cons walkthrough.simps prod.case bool.case by (simp only: ac_simps)
    then show ?thesis unfolding mset_all_resources[of n, symmetric] by (simp add: Cons ac_simps)
  qed simp
qed

lemma tree_resources_all: "mset (tree_resources rng (Some n)) = mset (all_resources n)"
  by (simp add: tree_resources_def walkthrough_resources del: walkthrough.simps)

section \<open>What a carrier holds\<close>

lemma split_str_head: "\<exists>x xs. split_str s sep = x # xs"
  by (cases "split_str s sep") auto

lemma logic_path_nonempty: "logic_path_for_file f = Inr ps \<Longrightarrow> ps \<noteq> []"
proof -
  assume "logic_path_for_file f = Inr ps"
  then obtain b where "ps = even_elems (split_str b ''/'')" "length (split_str b ''/'') mod 2 = 1"
    by (auto simp: logic_path_for_file_def Let_def split: option.splits nat.splits if_splits)
  moreover have "0 < length (split_str b ''/'')" by simp
  ultimately have "0 < length ps" by (simp only: even_elems_length)
  then show "ps \<noteq> []" by simp
qed

lemma logic_path_no_slash: "logic_path_for_file f = Inr ps \<Longrightarrow> p \<in> set ps \<Longrightarrow> CHR ''/'' \<notin> set p"
proof -
  assume "logic_path_for_file f = Inr ps" "p \<in> set ps"
  then obtain b where ps: "ps = even_elems (split_str b ''/'')" and p: "p \<in> set ps"
    by (auto simp: logic_path_for_file_def Let_def split: option.splits nat.splits if_splits)
  have "set (even_elems xs) \<subseteq> set xs" for xs :: "string list"
    by (induction xs rule: even_elems.induct) auto
  with ps p have "p \<in> set (split_str b ''/'')" by blast
  then show "CHR ''/'' \<notin> set p" by (rule split_str_char_free)
qed

lemma split_no_char: "c \<notin> set s \<Longrightarrow> split_str s [c] = [s]"
  using split_join_char[of "[s]" c] by simp

lemma add_to_root_Inr:
  assumes "add_to_root root paths rs = Inr root'" and "paths \<noteq> []" and "CHR ''/'' \<notin> set (hd paths)"
  obtains n where "root' = Some n" "nd_name n = hd paths"
    "\<And>m. root = Some m \<Longrightarrow> nd_name m = nd_name n"
    "\<And>qs. res_at qs n = (case root of None \<Rightarrow> [] | Some m \<Rightarrow> res_at qs m) @ (if qs = tl paths then rs else [])"
    "mset (all_resources n) = (case root of None \<Rightarrow> {#} | Some m \<Rightarrow> mset (all_resources m)) + mset rs"
proof -
  define m where "m = (case root of None \<Rightarrow> new_node (hd paths) [] | Some n \<Rightarrow> n)"
  obtain x xs where paths: "paths = x # xs" using assms(2) by (cases paths) auto
  have root': "root' = Some (add_at [x] xs rs m)" and name: "nd_name m = x"
    using assms(1) by (auto simp: add_to_root_def Let_def m_def[unfolded paths] node_add_def paths split: if_splits)
  have res: "res_at qs m = (case root of None \<Rightarrow> [] | Some m \<Rightarrow> res_at qs m)" for qs
    by (cases root) (simp_all add: m_def)
  have all: "mset (all_resources m) = (case root of None \<Rightarrow> {#} | Some m \<Rightarrow> mset (all_resources m))"
    by (cases root) (simp_all add: m_def)
  show thesis
  proof (rule that[OF root'])
    fix k assume "root = Some k"
    then show "nd_name k = nd_name (add_at [x] xs rs m)" by (simp add: m_def)
  qed (use name in \<open>simp_all add: res_at_add all_resources_add res all paths\<close>)
qed

text \<open>The resources that a list of pairs of path and resources gives to one path.\<close>

definition given_to :: "string list \<Rightarrow> (string list \<times> string list) list \<Rightarrow> string list" where
  "given_to ps entries = concat (map snd (filter (\<lambda>e. fst e = ps) entries))"

definition file_entries :: "(string \<times> string list) list \<Rightarrow> (string list \<times> string list) list" where
  "file_entries files =
     map (\<lambda>(f, rs). (case logic_path_for_file f of Inl _ \<Rightarrow> [] | Inr ps \<Rightarrow> ps, rs)) files"

lemma tree_files_Inr:
  assumes "tree_files files root = Inr (Some n)"
  shows "(\<forall>m. root = Some m \<longrightarrow> nd_name m = nd_name n) \<and>
    (\<forall>qs. res_at qs n = (case root of None \<Rightarrow> [] | Some m \<Rightarrow> res_at qs m) @
            given_to (nd_name n # qs) (file_entries files)) \<and>
    mset (all_resources n) = (case root of None \<Rightarrow> {#} | Some m \<Rightarrow> mset (all_resources m)) +
      mset (concat (map snd files))"
  using assms
proof (induction files root rule: tree_files.induct)
  case (1 root)
  then show ?case by (simp add: given_to_def file_entries_def)
next
  case (2 fl rs files root)
  from 2(2) obtain paths root' where lp: "logic_path_for_file fl = Inr paths"
    and ad: "add_to_root root paths rs = Inr root'" and rest: "tree_files files root' = Inr (Some n)"
    by (auto split: sum.splits)
  have ne: "paths \<noteq> []" using logic_path_nonempty[OF lp] .
  have sl: "CHR ''/'' \<notin> set (hd paths)" using logic_path_no_slash[OF lp] ne by simp
  obtain k where k: "root' = Some k" "nd_name k = hd paths"
    "\<And>m. root = Some m \<Longrightarrow> nd_name m = nd_name k"
    "\<And>qs. res_at qs k = (case root of None \<Rightarrow> [] | Some m \<Rightarrow> res_at qs m) @ (if qs = tl paths then rs else [])"
    "mset (all_resources k) = (case root of None \<Rightarrow> {#} | Some m \<Rightarrow> mset (all_resources m)) + mset rs"
    using add_to_root_Inr[OF ad ne sl] by blast
  note IH = 2(1)[OF lp ad rest, unfolded k(1), simplified]
  have hd: "hd paths = nd_name n" using IH k(2) by simp
  have "given_to (nd_name n # qs) (file_entries ((fl, rs) # files)) =
      (if qs = tl paths then rs else []) @ given_to (nd_name n # qs) (file_entries files)" for qs
    using ne hd by (cases paths) (auto simp: given_to_def file_entries_def lp)
  with IH k show ?case by (auto simp: ac_simps)
qed

end
