(* ===== verification/Render_Exec.thy ===== *)
theory Render_Exec
  imports Render_Tree
begin

text \<open>
  \<open>treeCarrier.Run\<close> of \<open>pkg/render/tree.go\<close>: the handlers of a tree of charts run bottom up
  (\<open>execPositively\<close>) or top down (\<open>execReversely\<close>), the children of a node in goroutines of their
  own. A run is a trace of handler calls; the traces of siblings are interleaved in every way.

  \<open>wg.Done\<close> is deferred inside the goroutine's call and so comes before the error of that call is
  appended to \<open>errList\<close>: a parent that is woken up sees any part of its children's errors.
\<close>

datatype run_event = Handled (he_path: string) (he_outcome: "error option")

text \<open>
  \<open>H path resources out\<close>: \<open>handle\<close> of a node may end with \<open>out\<close>, the error of the handler or, when
  the handler returned none, the error of the context.
\<close>

type_synonym handle_outcomes = "string \<Rightarrow> string list \<Rightarrow> error option \<Rightarrow> bool"

definition opt_list :: "'a option \<Rightarrow> 'a list" where
  "opt_list x = (case x of None \<Rightarrow> [] | Some y \<Rightarrow> [y])"

text \<open>
  \<open>handleChildren\<close> after \<open>wg.Wait\<close>, having seen the errors \<open>seen\<close>. The text of an aggregate error,
  which code outside the repository composes, is the parameter \<open>A\<close>.
\<close>

definition children_result :: "(error list \<Rightarrow> string) \<Rightarrow> error list \<Rightarrow> error option" where
  "children_result A seen = (if length seen > 0 then Some (External (A seen)) else None)"

inductive exec_pos :: "(error list \<Rightarrow> string) \<Rightarrow> handle_outcomes \<Rightarrow> node \<Rightarrow> run_event list \<Rightarrow> error option \<Rightarrow> bool"
  and exec_pos_all :: "(error list \<Rightarrow> string) \<Rightarrow> handle_outcomes \<Rightarrow> node list \<Rightarrow> run_event list \<Rightarrow> error list \<Rightarrow> bool"
  for A :: "error list \<Rightarrow> string" and H :: handle_outcomes
  where
    pos_failed:
      "exec_pos_all A H (map snd ch) tr errs \<Longrightarrow> mset seen \<subseteq># mset errs \<Longrightarrow>
         children_result A seen = Some e \<Longrightarrow> exec_pos A H (Node nm p res ch) tr (Some e)"
  | pos_handled:
      "exec_pos_all A H (map snd ch) tr errs \<Longrightarrow> mset seen \<subseteq># mset errs \<Longrightarrow>
         children_result A seen = None \<Longrightarrow> H p res out \<Longrightarrow>
         exec_pos A H (Node nm p res ch) (tr @ [Handled p out]) out"
  | pos_Nil: "exec_pos_all A H [] [] []"
  | pos_Cons:
      "exec_pos A H n t r \<Longrightarrow> exec_pos_all A H ns ts errs \<Longrightarrow> tr \<in> shuffles t ts \<Longrightarrow>
         exec_pos_all A H (n # ns) tr (opt_list r @ errs)"

inductive exec_rev :: "(error list \<Rightarrow> string) \<Rightarrow> handle_outcomes \<Rightarrow> node \<Rightarrow> run_event list \<Rightarrow> error option \<Rightarrow> bool"
  and exec_rev_all :: "(error list \<Rightarrow> string) \<Rightarrow> handle_outcomes \<Rightarrow> node list \<Rightarrow> run_event list \<Rightarrow> error list \<Rightarrow> bool"
  for A :: "error list \<Rightarrow> string" and H :: handle_outcomes
  where
    rev_failed: "H p res (Some e) \<Longrightarrow> exec_rev A H (Node nm p res ch) [Handled p (Some e)] (Some e)"
  | rev_children:
      "H p res None \<Longrightarrow> exec_rev_all A H (map snd ch) tr errs \<Longrightarrow> mset seen \<subseteq># mset errs \<Longrightarrow>
         exec_rev A H (Node nm p res ch) (Handled p None # tr) (children_result A seen)"
  | rev_Nil: "exec_rev_all A H [] [] []"
  | rev_Cons:
      "exec_rev A H n t r \<Longrightarrow> exec_rev_all A H ns ts errs \<Longrightarrow> tr \<in> shuffles t ts \<Longrightarrow>
         exec_rev_all A H (n # ns) tr (opt_list r @ errs)"

datatype carrier_order = PositiveOrder | ReversedOrder | OtherOrder string

inductive carrier_run :: "(error list \<Rightarrow> string) \<Rightarrow> handle_outcomes \<Rightarrow> carrier_order \<Rightarrow> node option \<Rightarrow> run_event list \<Rightarrow> error option \<Rightarrow> bool"
  for A :: "error list \<Rightarrow> string" and H :: handle_outcomes
  where
    run_empty: "carrier_run A H order None [] None"
  | run_positive: "exec_pos A H n tr r \<Longrightarrow> carrier_run A H PositiveOrder (Some n) tr r"
  | run_reversed: "exec_rev A H n tr r \<Longrightarrow> carrier_run A H ReversedOrder (Some n) tr r"
  | run_unknown: "carrier_run A H (OtherOrder x) (Some n) [] (Some (Errorf (''unknown order: '' @ x)))"

inductive_cases exec_pos_NodeE: "exec_pos A H (Node nm p res ch) tr r"
inductive_cases exec_pos_all_NilE [elim!]: "exec_pos_all A H [] tr errs"
inductive_cases exec_pos_all_ConsE: "exec_pos_all A H (n # ns) tr errs"
inductive_cases exec_rev_NodeE: "exec_rev A H (Node nm p res ch) tr r"
inductive_cases exec_rev_all_NilE [elim!]: "exec_rev_all A H [] tr errs"
inductive_cases exec_rev_all_ConsE: "exec_rev_all A H (n # ns) tr errs"
inductive_cases carrier_run_NoneE [elim!]: "carrier_run A H order None tr r"
inductive_cases carrier_run_posE [elim!]: "carrier_run A H PositiveOrder (Some n) tr r"
inductive_cases carrier_run_revE [elim!]: "carrier_run A H ReversedOrder (Some n) tr r"

section \<open>Shared facts on trees and interleavings\<close>

definition strictly_below :: "node \<Rightarrow> node list" where
  "strictly_below n = concat (map (\<lambda>c. all_nodes (snd c)) (nd_children n))"

lemma all_nodes_eq: "all_nodes n = n # strictly_below n"
  by (cases n) (simp add: strictly_below_def)

definition paths_of :: "node list \<Rightarrow> string list" where
  "paths_of ns = map nd_path (concat (map all_nodes ns))"

lemma paths_of_simps [simp]:
  "paths_of [] = []" "paths_of (n # ns) = map nd_path (all_nodes n) @ paths_of ns"
  by (simp_all add: paths_of_def)

lemma paths_strictly_below: "map nd_path (strictly_below n) = paths_of (map snd (nd_children n))"
  by (simp add: strictly_below_def paths_of_def comp_def)

lemma strictly_below_mono:
  "m \<in> set (all_nodes n) \<Longrightarrow> set (strictly_below m) \<subseteq> set (strictly_below n)"
proof (induction n rule: all_nodes.induct)
  case (1 nm p res ch)
  show ?case
  proof (cases "m = Node nm p res ch")
    case False
    with 1(2) obtain c where c: "c \<in> set ch" "m \<in> set (all_nodes (snd c))" by auto
    have "set (strictly_below m) \<subseteq> set (strictly_below (snd c))" by (rule 1(1)[OF c])
    also have "\<dots> \<subseteq> set (all_nodes (snd c))" by (auto simp: all_nodes_eq[of "snd c"])
    also have "\<dots> \<subseteq> set (strictly_below (Node nm p res ch))"
      using c(1) by (auto simp: strictly_below_def)
    finally show ?thesis .
  qed simp
qed

lemma subseq_pair_Cons:
  "subseq [a, b] (z # zs) \<longleftrightarrow> (a = z \<and> b \<in> set zs) \<or> subseq [a, b] zs"
  by (auto simp: subseq_Cons2_iff subseq_singleton_left dest: subseq_Cons' split: if_splits)

lemma subseq_pair_shuffle:
  "zs \<in> shuffles xs ys \<Longrightarrow> a \<notin> set ys \<Longrightarrow> b \<notin> set ys \<Longrightarrow> subseq [a, b] zs \<Longrightarrow> subseq [a, b] xs"
proof (induction zs arbitrary: xs ys)
  case (Cons z zs)
  have set: "set (z # zs) = set xs \<union> set ys" using Cons.prems(1) by (rule set_shuffles)
  from Cons.prems(1) consider
    x where "xs = z # x" "zs \<in> shuffles x ys" | y where "ys = z # y" "zs \<in> shuffles xs y"
    by (auto simp: Cons_in_shuffles_iff) (metis list.collapse)+
  then show ?case
  proof cases
    case (1 x)
    have "set zs = set x \<union> set ys" using 1(2) by (rule set_shuffles)
    with 1 Cons.prems Cons.IH[OF 1(2)] show ?thesis
      by (auto simp: subseq_pair_Cons subseq_singleton_left)
  next
    case (2 y)
    with Cons.prems Cons.IH[OF 2(2)] show ?thesis by (auto simp: subseq_pair_Cons)
  qed
qed simp

lemma shuffles_swap: "zs \<in> shuffles xs ys \<Longrightarrow> zs \<in> shuffles ys xs"
  by (simp add: shuffles_commutes)

lemma mset_shuffles_eq: "zs \<in> shuffles xs ys \<Longrightarrow> mset zs = mset xs + mset ys"
proof (induction zs arbitrary: xs ys)
  case (Cons z zs)
  from Cons.prems consider
    x where "xs = z # x" "zs \<in> shuffles x ys" | y where "ys = z # y" "zs \<in> shuffles xs y"
    by (auto simp: Cons_in_shuffles_iff) (metis list.collapse)+
  then show ?case by cases (auto simp: Cons.IH)
qed simp

section \<open>Which nodes run\<close>

lemma subset_add_mset: "M \<subseteq># N \<Longrightarrow> M \<subseteq># add_mset x N"
  by (auto simp: subseteq_mset_def intro: le_SucI)

lemma exec_pos_paths:
  "exec_pos A H n tr r \<Longrightarrow> mset (map he_path tr) \<subseteq># mset (map nd_path (all_nodes n))"
  "exec_pos_all A H ns tr errs \<Longrightarrow> mset (map he_path tr) \<subseteq># mset (paths_of ns)"
proof (induction rule: exec_pos_exec_pos_all.inducts)
  case (pos_failed ch tr errs seen e nm p res)
  then show ?case
    by (simp add: paths_strictly_below[of "Node nm p res ch", simplified, symmetric] strictly_below_def
        subset_add_mset)
next
  case (pos_handled ch tr errs seen p res out nm)
  then show ?case
    by (simp add: paths_strictly_below[of "Node nm p res ch", simplified, symmetric] strictly_below_def)
next
  case (pos_Cons n t r ns ts errs tr)
  then show ?case by (simp add: mset_shuffles_eq subset_mset.add_mono)
qed simp

lemma exec_rev_paths:
  "exec_rev A H n tr r \<Longrightarrow> mset (map he_path tr) \<subseteq># mset (map nd_path (all_nodes n))"
  "exec_rev_all A H ns tr errs \<Longrightarrow> mset (map he_path tr) \<subseteq># mset (paths_of ns)"
proof (induction rule: exec_rev_exec_rev_all.inducts)
  case (rev_children p res ch tr errs seen nm)
  then show ?case
    by (simp add: paths_strictly_below[of "Node nm p res ch", simplified, symmetric] strictly_below_def)
next
  case (rev_Cons n t r ns ts errs tr)
  then show ?case by (simp add: mset_shuffles_eq subset_mset.add_mono)
qed simp_all

lemma sub_paths: "mset (map he_path tr) \<subseteq># mset ps \<Longrightarrow> Handled p out \<in> set tr \<Longrightarrow> p \<in> set ps"
  by (metis image_eqI list.set_map mset_subset_eqD run_event.sel(1) set_mset_mset)

section \<open>The order of a run\<close>

text \<open>\<open>apart first second tr\<close>: no call of \<open>first\<close> comes before a call of \<open>second\<close>.\<close>

definition apart :: "string \<Rightarrow> string \<Rightarrow> run_event list \<Rightarrow> bool" where
  "apart p q tr \<longleftrightarrow> (\<forall>o1 o2. \<not> subseq [Handled p o1, Handled q o2] tr)"

definition bottom_up :: "node list \<Rightarrow> run_event list \<Rightarrow> bool" where
  "bottom_up ns tr \<longleftrightarrow>
     (\<forall>n \<in> set ns. \<forall>m \<in> set (all_nodes n). \<forall>d \<in> set (strictly_below m). apart (nd_path m) (nd_path d) tr)"

definition top_down :: "node list \<Rightarrow> run_event list \<Rightarrow> bool" where
  "top_down ns tr \<longleftrightarrow>
     (\<forall>n \<in> set ns. \<forall>m \<in> set (all_nodes n). \<forall>d \<in> set (strictly_below m). apart (nd_path d) (nd_path m) tr)"

lemma apart_shuffle:
  assumes "zs \<in> shuffles xs ys" and "\<And>x. Handled p x \<notin> set ys" and "\<And>x. Handled q x \<notin> set ys"
    and "apart p q xs"
  shows "apart p q zs"
  unfolding apart_def
proof (intro allI notI)
  fix o1 o2 assume "subseq [Handled p o1, Handled q o2] zs"
  then have "subseq [Handled p o1, Handled q o2] xs"
    using subseq_pair_shuffle[OF assms(1) assms(2)[of o1] assms(3)[of o2]] by simp
  with assms(4) show False by (simp add: apart_def)
qed

lemma subset_all_nodes:
  "m \<in> set (all_nodes n) \<Longrightarrow> d \<in> set (strictly_below m) \<Longrightarrow> d \<in> set (strictly_below n)"
  using strictly_below_mono by blast

lemma below_in_paths:
  "n \<in> set ns \<Longrightarrow> m \<in> set (all_nodes n) \<Longrightarrow> nd_path m \<in> set (paths_of ns)"
  by (auto simp: paths_of_def)

lemma below_all: "d \<in> set (strictly_below n) \<Longrightarrow> d \<in> set (all_nodes n)"
  by (simp add: all_nodes_eq)

lemma order_shuffle:
  assumes tr: "tr \<in> shuffles t ts"
    and t: "mset (map he_path t) \<subseteq># mset (map nd_path (all_nodes n))"
    and ts: "mset (map he_path ts) \<subseteq># mset (paths_of ns)"
    and dist: "distinct (map nd_path (all_nodes n) @ paths_of ns)"
  shows "\<And>x y. \<lbrakk>x \<in> nd_path ` set (all_nodes n); y \<in> nd_path ` set (all_nodes n); apart x y t\<rbrakk> \<Longrightarrow> apart x y tr"
    and "\<And>x y. \<lbrakk>x \<in> set (paths_of ns); y \<in> set (paths_of ns); apart x y ts\<rbrakk> \<Longrightarrow> apart x y tr"
proof -
  have in_t: "x \<in> nd_path ` set (all_nodes n)" if "Handled x w \<in> set t" for x w
    using sub_paths[OF t that] by simp
  have in_ts: "x \<in> set (paths_of ns)" if "Handled x w \<in> set ts" for x w
    using sub_paths[OF ts that] .
  have disj: "nd_path ` set (all_nodes n) \<inter> set (paths_of ns) = {}"
    using dist by (simp only: distinct_append set_map)
  show "apart x y tr" if "x \<in> nd_path ` set (all_nodes n)" "y \<in> nd_path ` set (all_nodes n)" "apart x y t" for x y
    by (rule apart_shuffle[OF tr]) (use that in_ts disj in blast)+
  show "apart x y tr" if "x \<in> set (paths_of ns)" "y \<in> set (paths_of ns)" "apart x y ts" for x y
    by (rule apart_shuffle[OF shuffles_swap[OF tr]]) (use that in_t disj in blast)+
qed

lemma subseq_pair_first: "subseq [a, b] zs \<Longrightarrow> a \<in> set zs"
  by (induction zs) (auto split: if_splits)

lemma apart_absent: "(\<And>x. Handled p x \<notin> set tr) \<Longrightarrow> apart p q tr"
  by (auto simp: apart_def dest: subseq_pair_first)

lemma apart_append_last:
  assumes "\<And>x. Handled p x \<notin> set tr" and "p \<noteq> q"
  shows "apart p q (tr @ [Handled p out])"
proof -
  have "\<not> subseq [Handled p o1, Handled q o2] (tr @ [Handled p out])" for o1 o2
    using assms by (induction tr) (auto simp: subseq_Cons2_iff subseq_singleton_left)
  then show ?thesis by (simp add: apart_def)
qed

lemma apart_append_other:
  assumes "apart p q tr" and "x \<noteq> q" 
  shows "apart p q (tr @ [Handled x out])"
proof -
  have "\<not> subseq [Handled p o1, Handled q o2] (tr @ [Handled x out])"
    if "\<not> subseq [Handled p o1, Handled q o2] tr" for o1 o2
    using assms(2) that by (induction tr) (auto simp: subseq_Cons2_iff subseq_singleton_left split: if_splits)
  with assms(1) show ?thesis by (simp add: apart_def)
qed

lemma subseq_pair_second: "subseq [a, b] zs \<Longrightarrow> b \<in> set zs"
  by (drule subseq_Cons') (simp add: subseq_singleton_left)

lemma apart_Cons_first:
  assumes "\<And>x. Handled p x \<notin> set tr" and "p \<noteq> q"
  shows "apart q p (Handled p out # tr)"
  using assms by (auto simp: apart_def subseq_Cons2_iff dest: subseq_pair_second)

lemma apart_Cons_other:
  assumes "apart p q tr" and "x \<noteq> p"
  shows "apart p q (Handled x out # tr)"
  using assms by (simp add: apart_def subseq_Cons2_iff)

lemma order_Node:
  assumes "m \<in> set (all_nodes (Node nm p res ch))" and "d \<in> set (strictly_below m)"
  obtains (root) "m = Node nm p res ch" "nd_path d \<in> set (paths_of (map snd ch))"
    | (inner) n where "n \<in> set (map snd ch)" "m \<in> set (all_nodes n)"
proof (cases "m = Node nm p res ch")
  case True
  have "nd_path d \<in> set (map nd_path (strictly_below (Node nm p res ch)))"
    using assms(2) True by simp
  with True root show thesis by (simp only: paths_strictly_below node.sel)
next
  case False
  with assms(1) inner show thesis by auto
qed

lemma node_distinct:
  "distinct (map nd_path (all_nodes (Node nm p res ch))) \<longleftrightarrow>
     p \<notin> set (paths_of (map snd ch)) \<and> distinct (paths_of (map snd ch))"
  by (simp add: paths_of_def comp_def)

lemma exec_pos_bottom_up:
  "exec_pos A H n tr r \<Longrightarrow> distinct (map nd_path (all_nodes n)) \<Longrightarrow> bottom_up [n] tr"
  "exec_pos_all A H ns tr errs \<Longrightarrow> distinct (paths_of ns) \<Longrightarrow> bottom_up ns tr"
proof (induction rule: exec_pos_exec_pos_all.inducts)
  case (pos_failed ch tr errs seen e nm p res)
  have dist: "p \<notin> set (paths_of (map snd ch))" "distinct (paths_of (map snd ch))"
    using pos_failed.prems unfolding node_distinct by simp_all
  have none: "Handled p x \<notin> set tr" for x
    using sub_paths[OF exec_pos_paths(2)[OF pos_failed(1)]] dist(1) by blast
  show ?case
    unfolding bottom_up_def
  proof (intro ballI)
    fix n m d assume "n \<in> set [Node nm p res ch]" and m: "m \<in> set (all_nodes n)" and d: "d \<in> set (strictly_below m)"
    then have n: "n = Node nm p res ch" by simp
    show "apart (nd_path m) (nd_path d) tr"
    proof (rule order_Node[OF m[unfolded n] d], goal_cases root inner)
      case root
      with none show ?thesis by (auto intro: apart_absent)
    next
      case (inner n)
      with pos_failed(2)[OF dist(2)] d show ?thesis unfolding bottom_up_def by blast
    qed
  qed
next
  case (pos_handled ch tr errs seen p res out nm)
  have dist: "p \<notin> set (paths_of (map snd ch))" "distinct (paths_of (map snd ch))"
    using pos_handled.prems unfolding node_distinct by simp_all
  have none: "Handled p x \<notin> set tr" for x
    using sub_paths[OF exec_pos_paths(2)[OF pos_handled(1)]] dist(1) by blast
  show ?case
    unfolding bottom_up_def
  proof (intro ballI)
    fix n m d assume "n \<in> set [Node nm p res ch]" and m: "m \<in> set (all_nodes n)" and d: "d \<in> set (strictly_below m)"
    then have n: "n = Node nm p res ch" by simp
    show "apart (nd_path m) (nd_path d) (tr @ [Handled p out])"
    proof (rule order_Node[OF m[unfolded n] d], goal_cases root inner)
      case root
      with none dist(1) show ?thesis by (auto intro!: apart_append_last)
    next
      case (inner n)
      have "nd_path d \<in> set (paths_of (map snd ch))"
        using below_in_paths[OF inner(1) below_all[OF subset_all_nodes[OF inner(2) d]]] .
      with inner dist(1) pos_handled(2)[OF dist(2)] d show ?thesis
        unfolding bottom_up_def by (intro apart_append_other) auto
    qed
  qed
next
  case (pos_Cons n t r ns ts errs tr)
  have dist: "distinct (map nd_path (all_nodes n))" "distinct (paths_of ns)"
    using pos_Cons.prems by simp_all
  note sh = order_shuffle[OF pos_Cons(5) exec_pos_paths(1)[OF pos_Cons(1)]
    exec_pos_paths(2)[OF pos_Cons(3)] pos_Cons.prems[unfolded paths_of_simps]]
  show ?case
    unfolding bottom_up_def
  proof (intro ballI)
    fix k m d assume k: "k \<in> set (n # ns)" and m: "m \<in> set (all_nodes k)" and d: "d \<in> set (strictly_below m)"
    note d' = below_all[OF subset_all_nodes[OF m d]]
    show "apart (nd_path m) (nd_path d) tr"
    proof (cases "k = n")
      case True
      with pos_Cons(2)[OF dist(1)] m d d' show ?thesis
        by (intro sh(1)) (auto simp: bottom_up_def)
    next
      case False
      with k have "k \<in> set ns" by simp
      with pos_Cons(4)[OF dist(2)] m d below_in_paths[OF _ m] below_in_paths[OF _ d'] show ?thesis
        by (intro sh(2)) (auto simp: bottom_up_def)
    qed
  qed
qed (simp add: bottom_up_def)

lemma exec_rev_top_down:
  "exec_rev A H n tr r \<Longrightarrow> distinct (map nd_path (all_nodes n)) \<Longrightarrow> top_down [n] tr"
  "exec_rev_all A H ns tr errs \<Longrightarrow> distinct (paths_of ns) \<Longrightarrow> top_down ns tr"
proof (induction rule: exec_rev_exec_rev_all.inducts)
  case (rev_failed p res e nm ch)
  then show ?case by (simp add: top_down_def apart_def subseq_Cons2_iff)
next
  case (rev_children p res ch tr errs seen nm)
  have dist: "p \<notin> set (paths_of (map snd ch))" "distinct (paths_of (map snd ch))"
    using rev_children.prems unfolding node_distinct by simp_all
  have none: "Handled p x \<notin> set tr" for x
    using sub_paths[OF exec_rev_paths(2)[OF rev_children(2)]] dist(1) by blast
  show ?case
    unfolding top_down_def
  proof (intro ballI)
    fix n m d assume "n \<in> set [Node nm p res ch]" and m: "m \<in> set (all_nodes n)" and d: "d \<in> set (strictly_below m)"
    then have n: "n = Node nm p res ch" by simp
    show "apart (nd_path d) (nd_path m) (Handled p None # tr)"
    proof (rule order_Node[OF m[unfolded n] d], goal_cases root inner)
      case root
      with none dist(1) show ?thesis by (auto intro!: apart_Cons_first)
    next
      case (inner n)
      have "nd_path d \<in> set (paths_of (map snd ch))"
        using below_in_paths[OF inner(1) below_all[OF subset_all_nodes[OF inner(2) d]]] .
      with inner dist(1) rev_children(3)[OF dist(2)] d show ?thesis
        unfolding top_down_def by (intro apart_Cons_other) auto
    qed
  qed
next
  case (rev_Cons n t r ns ts errs tr)
  have dist: "distinct (map nd_path (all_nodes n))" "distinct (paths_of ns)"
    using rev_Cons.prems by simp_all
  note sh = order_shuffle[OF rev_Cons(5) exec_rev_paths(1)[OF rev_Cons(1)]
    exec_rev_paths(2)[OF rev_Cons(3)] rev_Cons.prems[unfolded paths_of_simps]]
  show ?case
    unfolding top_down_def
  proof (intro ballI)
    fix k m d assume k: "k \<in> set (n # ns)" and m: "m \<in> set (all_nodes k)" and d: "d \<in> set (strictly_below m)"
    note d' = below_all[OF subset_all_nodes[OF m d]]
    show "apart (nd_path d) (nd_path m) tr"
    proof (cases "k = n")
      case True
      with rev_Cons(2)[OF dist(1)] m d d' show ?thesis
        by (intro sh(1)) (auto simp: top_down_def)
    next
      case False
      with k have "k \<in> set ns" by simp
      with rev_Cons(4)[OF dist(2)] m d below_in_paths[OF _ m] below_in_paths[OF _ d'] show ?thesis
        by (intro sh(2)) (auto simp: top_down_def)
    qed
  qed
qed (simp add: top_down_def)

section \<open>Runs without a failure\<close>

definition never_fails :: "handle_outcomes \<Rightarrow> bool" where
  "never_fails H \<longleftrightarrow> (\<forall>p res e. \<not> H p res (Some e))"

lemma exec_pos_all_good:
  assumes "never_fails H"
  shows "exec_pos A H n tr r \<Longrightarrow> r = None \<and> mset tr = mset (map (\<lambda>m. Handled (nd_path m) None) (all_nodes n))"
    and "exec_pos_all A H ns tr errs \<Longrightarrow>
      errs = [] \<and> mset tr = mset (map (\<lambda>p. Handled p None) (paths_of ns))"
proof (induction rule: exec_pos_exec_pos_all.inducts)
  case (pos_failed ch tr errs seen e nm p res)
  then show ?case by (simp add: children_result_def)
next
  case (pos_handled ch tr errs seen p res out nm)
  have "out = None" using pos_handled assms by (cases out) (auto simp: never_fails_def)
  with pos_handled(2) show ?case
    by (simp add: paths_of_def comp_def multiset.map_comp)
next
  case (pos_Cons n t r ns ts errs tr)
  then show ?case by (simp add: mset_shuffles_eq opt_list_def multiset.map_comp comp_def)
qed simp

lemma exec_rev_all_good:
  assumes "never_fails H"
  shows "exec_rev A H n tr r \<Longrightarrow> r = None \<and> mset tr = mset (map (\<lambda>m. Handled (nd_path m) None) (all_nodes n))"
    and "exec_rev_all A H ns tr errs \<Longrightarrow>
      errs = [] \<and> mset tr = mset (map (\<lambda>p. Handled p None) (paths_of ns))"
proof (induction rule: exec_rev_exec_rev_all.inducts)
  case (rev_failed p res e nm ch)
  with assms show ?case by (simp add: never_fails_def)
next
  case (rev_children p res ch tr errs seen nm)
  then show ?case
    by (simp add: children_result_def paths_of_def comp_def multiset.map_comp)
next
  case (rev_Cons n t r ns ts errs tr)
  then show ?case by (simp add: mset_shuffles_eq opt_list_def multiset.map_comp comp_def)
qed simp

section \<open>Every tree has a run\<close>

lemma exec_pos_total:
  assumes "\<And>p res. \<exists>out. H p res out"
  shows "\<exists>tr r. exec_pos A H n tr r"
proof (induction n rule: all_nodes.induct)
  case (1 nm p res ch)
  have "\<exists>tr errs. exec_pos_all A H (map snd ch') tr errs" if "set ch' \<subseteq> set ch" for ch'
    using that
  proof (induction ch')
    case Nil
    then show ?case by (auto intro: pos_Nil)
  next
    case (Cons c ch')
    with 1 obtain t r ts errs where run: "exec_pos A H (snd c) t r" "exec_pos_all A H (map snd ch') ts errs"
      by (metis insert_subset list.simps(15))
    have "t @ ts \<in> shuffles t ts" by (induction t) (cases ts; auto)+
    with run show ?case by (auto intro: pos_Cons)
  qed
  then obtain tr errs where all: "exec_pos_all A H (map snd ch) tr errs" by blast
  show ?case
  proof (cases "children_result A errs")
    case None
    obtain out where "H p res out" using assms by blast
    with pos_handled[OF all _ None] show ?thesis by blast
  next
    case (Some e)
    with pos_failed[OF all _ Some] show ?thesis by blast
  qed
qed

lemma exec_rev_total:
  assumes "\<And>p res. \<exists>out. H p res out"
  shows "\<exists>tr r. exec_rev A H n tr r"
proof (induction n rule: all_nodes.induct)
  case (1 nm p res ch)
  have "\<exists>tr errs. exec_rev_all A H (map snd ch') tr errs" if "set ch' \<subseteq> set ch" for ch'
    using that
  proof (induction ch')
    case Nil
    then show ?case by (auto intro: rev_Nil)
  next
    case (Cons c ch')
    with 1 obtain t r ts errs where run: "exec_rev A H (snd c) t r" "exec_rev_all A H (map snd ch') ts errs"
      by (metis insert_subset list.simps(15))
    have "t @ ts \<in> shuffles t ts" by (induction t) (cases ts; auto)+
    with run show ?case by (auto intro: rev_Cons)
  qed
  then obtain tr errs where all: "exec_rev_all A H (map snd ch) tr errs" by blast
  obtain out where out: "H p res out" using assms by blast
  show ?case
  proof (cases out)
    case None
    with rev_children[OF _ all, of p res errs] out show ?thesis by blast
  next
    case (Some e)
    with rev_failed out show ?thesis by blast
  qed
qed

end
