(* ===== verification/Render_Chart.thy ===== *)
theory Render_Chart
  imports Render_Tree
begin

text \<open>
  \<open>pkg/render/render.go\<close>: rendering a chart to a carrier. Helm's chart loader and template engine
  and the JSON editor are code outside the repository; the environment \<open>render_env\<close> gives them.
\<close>

text \<open>
  \<open>re_load\<close> loads an archive, \<open>re_values\<close> composes the values of a release, \<open>re_engine\<close> returns the
  rendered files in the order in which they are ranged over, \<open>re_split\<close> the resources of one file,
  \<open>re_head\<close> the annotations of a resource. \<open>re_controllers\<close> is \<open>jsonparser.ArrayEach\<close> at
  \<open>_config.controllers\<close>: the elements it visits and its error; \<open>re_type\<close> reads the type of an
  element; \<open>re_set\<close> sets the field of one controller, and returns nothing useful with an error.
\<close>

record ('c, 'v) render_env =
  re_load :: "string \<Rightarrow> error + 'c"
  re_values :: "'c \<Rightarrow> string \<Rightarrow> string \<Rightarrow> string \<Rightarrow> int32 \<Rightarrow> error + 'v"
  re_engine :: "'c \<Rightarrow> 'v \<Rightarrow> error + (string \<times> string) list"
  re_split :: "string \<Rightarrow> string list"
  re_head :: "string \<Rightarrow> error + (string \<times> string) list option"
  re_range :: "(string \<times> string list) list \<Rightarrow> (string \<times> string list) list"
  re_controllers :: "string \<Rightarrow> string list \<times> error option"
  re_type :: "string \<Rightarrow> error + string"
  re_set :: "string \<Rightarrow> string \<Rightarrow> nat \<Rightarrow> string \<Rightarrow> string \<times> error option"

record render_options =
  ro_namespace :: string
  ro_release :: string
  ro_version :: int32
  ro_template :: "string option"
  ro_config :: string
  ro_suspend :: "bool option"

definition hook_anno :: string where
  "hook_anno = ''helm.sh/hook''"

definition is_hook :: "('c, 'v) render_env \<Rightarrow> string \<Rightarrow> error + bool" where
  "is_hook env res = bind_result (re_head env res) (\<lambda>annos. Inr (map_get annos hook_anno \<noteq> None))"

text \<open>The resources of one file that are not hooks.\<close>

fun valid_resources :: "('c, 'v) render_env \<Rightarrow> string list \<Rightarrow> error + string list" where
  "valid_resources env [] = Inr []"
| "valid_resources env (r # rs) =
     bind_result (is_hook env r) (\<lambda>hook.
     bind_result (valid_resources env rs) (\<lambda>vs. Inr (if hook then vs else r # vs)))"

definition unused_file :: "string \<Rightarrow> bool" where
  "unused_file k \<longleftrightarrow> has_prefix (path_base k) ''_'' \<or> has_suffix (path_base k) ''NOTES.txt''"

fun render_files ::
  "('c, 'v) render_env \<Rightarrow> (string \<times> string) list \<Rightarrow> (string \<times> string list) list
     \<Rightarrow> error + (string \<times> string list) list" where
  "render_files env [] acc = Inr acc"
| "render_files env ((k, v) # files) acc =
     (if unused_file k then render_files env files acc
      else let resources = re_split env v
           in if length resources = 0 then render_files env files acc
              else case valid_resources env resources of
                  Inl e \<Rightarrow> Inl e
                | Inr valid \<Rightarrow> render_files env files (AList.update k valid acc))"

definition render_resources :: "('c, 'v) render_env \<Rightarrow> 'c \<Rightarrow> 'v \<Rightarrow> error + (string \<times> string list) list" where
  "render_resources env chart values =
     bind_result (re_engine env chart values) (\<lambda>files. render_files env files [])"

text \<open>
  The callback of \<open>renderConfig\<close> on one controller, at position \<open>pos\<close>: the configuration so far
  and the value of \<open>err\<close>.
\<close>

definition suspend_controller ::
  "('c, 'v) render_env \<Rightarrow> nat \<Rightarrow> string \<Rightarrow> string \<times> error option \<Rightarrow> string \<times> error option" where
  "suspend_controller env pos value st =
     (case re_type env value of
        Inl e \<Rightarrow> (fst st, Some e)
      | Inr typ \<Rightarrow>
          if typ = ''Deployment'' \<or> typ = ''StatefulSet'' then re_set env (fst st) ''0'' pos ''replica''
          else if typ = ''CronJob'' then re_set env (fst st) ''true'' pos ''suspend''
          else if typ = ''Job'' \<or> typ = ''DaemonSet'' then (fst st, None)
          else (fst st, Some (Errorf (''illegal controller type: '' @ typ))))"

fun suspend_controllers ::
  "('c, 'v) render_env \<Rightarrow> nat \<Rightarrow> string list \<Rightarrow> string \<times> error option \<Rightarrow> string \<times> error option" where
  "suspend_controllers env pos [] st = st"
| "suspend_controllers env pos (v # vs) st =
     suspend_controllers env (Suc pos) vs (suspend_controller env pos v st)"

text \<open>The error of \<open>ArrayEach\<close> is assigned to the \<open>err\<close> the callback has written.\<close>

definition render_config :: "('c, 'v) render_env \<Rightarrow> render_options \<Rightarrow> error + string" where
  "render_config env opts =
     (if ro_suspend opts \<noteq> Some True then Inr (ro_config opts)
      else case re_controllers env (ro_config opts) of
          (values, each_err) \<Rightarrow>
            (let st = suspend_controllers env 0 values (ro_config opts, None); err = each_err
             in case err of Some e \<Rightarrow> Inl e | None \<Rightarrow> Inr (fst st)))"

definition render :: "('c, 'v) render_env \<Rightarrow> render_options \<Rightarrow> error + node option" where
  "render env opts =
     bind_result (re_load env (case ro_template opts of None \<Rightarrow> [] | Some t \<Rightarrow> t)) (\<lambda>chart.
     bind_result (render_config env opts) (\<lambda>config.
     bind_result (re_values env chart config (ro_release opts) (ro_namespace opts) (ro_version opts)) (\<lambda>values.
     bind_result (render_resources env chart values) (\<lambda>resources.
       tree_carrier_for (range_over (re_range env) resources)))))"

section \<open>Which resources are rendered\<close>

definition kept_resource :: "('c, 'v) render_env \<Rightarrow> string \<Rightarrow> bool" where
  "kept_resource env r \<longleftrightarrow> is_hook env r = Inr False"

text \<open>The files that are used, each with its resources that are not hooks.\<close>

definition kept_files :: "('c, 'v) render_env \<Rightarrow> (string \<times> string) list \<Rightarrow> (string \<times> string list) list" where
  "kept_files env files =
     map (\<lambda>(k, v). (k, filter (kept_resource env) (re_split env v)))
       (filter (\<lambda>(k, v). \<not> unused_file k \<and> re_split env v \<noteq> []) files)"

lemma valid_resources_Inr:
  "valid_resources env rs = Inr vs \<Longrightarrow> vs = filter (kept_resource env) rs"
  by (induction rs arbitrary: vs) (auto simp: bind_result_Inr_iff kept_resource_def split: if_splits)

lemma render_files_Inr:
  "render_files env files acc = Inr res \<Longrightarrow> distinct (map fst acc @ map fst files) \<Longrightarrow>
     res = acc @ kept_files env files"
proof (induction env files acc rule: render_files.induct)
  case (1 env acc)
  then show ?case by (simp add: kept_files_def)
next
  case (2 env k v files acc)
  consider "unused_file k" | "\<not> unused_file k" "re_split env v = []"
    | "\<not> unused_file k" "re_split env v \<noteq> []" by blast
  then show ?case
  proof cases
    case 1
    with 2 show ?thesis by (simp add: kept_files_def)
  next
    case skip: 2
    with 2(2)[OF skip(1) refl] 2(4,5) show ?thesis by (simp add: kept_files_def)
  next
    case False: 3
    with 2(4) obtain valid where valid: "valid_resources env (re_split env v) = Inr valid"
      and rest: "render_files env files (AList.update k valid acc) = Inr res"
      by (auto simp: Let_def split: sum.splits)
    have "k \<notin> fst ` set acc" using 2(5) by auto
    then have up: "AList.update k valid acc = acc @ [(k, valid)]"
      by (induction acc) auto
    have "length (re_split env v) \<noteq> 0" using False(2) by simp
    from 2(3)[OF False(1) refl this valid rest] 2(5) False show ?thesis
      by (simp add: up kept_files_def valid_resources_Inr[OF valid, symmetric])
  qed
qed

end
