(* ===== verification/Render_Paths.thy ===== *)
theory Render_Paths
  imports Render_Exec Render_Chart
begin

text \<open>
  The paths of the nodes that \<open>add\<close> makes: every node carries the names that lead to it, joined by
  slashes, so that no two nodes of a carrier have the same path. The facts on runs that need
  distinct paths hold of every carrier the package builds.
\<close>

definition plain_names :: "string list \<Rightarrow> bool" where
  "plain_names ps \<longleftrightarrow> (\<forall>x \<in> set ps. CHR ''/'' \<notin> set x)"

lemma plain_names_simps [simp]:
  "plain_names []" "plain_names (x # xs) \<longleftrightarrow> CHR ''/'' \<notin> set x \<and> plain_names xs"
  "plain_names (xs @ ys) \<longleftrightarrow> plain_names xs \<and> plain_names ys"
  by (auto simp: plain_names_def)

fun well_placed :: "string list \<Rightarrow> node \<Rightarrow> bool" where
  "well_placed pre (Node nm p res ch) \<longleftrightarrow>
     p = join_str pre ''/'' \<and> distinct (map fst ch) \<and>
     (\<forall>c \<in> set ch. CHR ''/'' \<notin> set (fst c) \<and> well_placed (pre @ [fst c]) (snd c))"

lemma well_placed_new: "well_placed pre (new_node (join_str pre ''/'') rs)"
  by (simp add: new_node_def)

lemma well_placed_update:
  assumes "well_placed pre (Node nm p res ch)" and "CHR ''/'' \<notin> set x" and "well_placed (pre @ [x]) t"
  shows "well_placed pre (Node nm p res' (AList.update x t ch))"
  using assms by (auto simp: distinct_update dest: in_set_update)

lemma well_placed_add:
  "well_placed pre n \<Longrightarrow> plain_names ps \<Longrightarrow> well_placed pre (add_at pre ps rs n)"
proof (induction pre ps rs n rule: add_at.induct)
  case (1 pre rs nm p res ch)
  then show ?case by simp
next
  case (2 pre x xs rs nm p res ch)
  have names: "CHR ''/'' \<notin> set x" "plain_names xs" using 2(4) by (simp_all add: plain_names_def)
  show ?case
  proof (cases "map_of ch x")
    case None
    from well_placed_update[OF 2(3) names(1) 2(1)[OF None well_placed_new names(2)], of res] None show ?thesis
      by simp
  next
    case (Some t)
    with 2(3) have "well_placed (pre @ [x]) t" by (auto dest: map_of_SomeD)
    from well_placed_update[OF 2(3) names(1) 2(2)[OF Some this names(2)], of res] Some show ?thesis
      by simp
  qed
qed

section \<open>Distinct paths\<close>

lemma join_slash_inj:
  assumes "plain_names ps" and "plain_names qs" and "ps \<noteq> []" and "qs \<noteq> []"
  shows "join_str ps ''/'' = join_str qs ''/'' \<longleftrightarrow> ps = qs"
  using split_join_char[of ps "CHR ''/''"] split_join_char[of qs "CHR ''/''"] assms
  unfolding plain_names_def by metis

lemma paths_below:
  "well_placed pre n \<Longrightarrow> q \<in> nd_path ` set (all_nodes n) \<Longrightarrow> \<exists>qs. plain_names qs \<and> q = join_str (pre @ qs) ''/''"
proof (induction pre n rule: well_placed.induct)
  case (1 pre nm p res ch)
  show ?case
  proof (cases "q = p")
    case True
    with 1(2) show ?thesis by (intro exI[of _ "[]"]) (simp add: plain_names_def)
  next
    case False
    with 1(3) obtain c where c: "c \<in> set ch" "q \<in> nd_path ` set (all_nodes (snd c))" by auto
    from 1(1)[OF c(1) _ c(2)] 1(2) c(1) obtain qs where
      "plain_names qs" "q = join_str ((pre @ [fst c]) @ qs) ''/''" by auto
    with 1(2) c(1) show ?thesis by (intro exI[of _ "fst c # qs"]) (auto simp: plain_names_def)
  qed
qed

lemma well_placed_child:
  assumes "well_placed pre n" and "c \<in> set (nd_children n)"
  shows "well_placed (pre @ [fst c]) (snd c)" and "CHR ''/'' \<notin> set (fst c)"
  using assms by (cases n; auto)+

lemma distinct_paths:
  "well_placed pre n \<Longrightarrow> plain_names pre \<Longrightarrow> pre \<noteq> [] \<Longrightarrow> distinct (map nd_path (all_nodes n))"
proof (induction pre n rule: well_placed.induct)
  case (1 pre nm p res ch)
  let ?n = "Node nm p res ch"
  have child: "well_placed (pre @ [fst c]) (snd c)" "plain_names (pre @ [fst c])" if "c \<in> set ch" for c
    using well_placed_child[OF 1(2), of c] that 1(3) by simp_all
  have place: "\<exists>qs. plain_names qs \<and> nd_path m = join_str (pre @ fst c # qs) ''/''"
    if "c \<in> set ch" "m \<in> set (all_nodes (snd c))" for c m
    using paths_below[OF child(1)[OF that(1)], of "nd_path m"] that(2) by simp
  have own: "p \<noteq> nd_path m" if c: "c \<in> set ch" and m: "m \<in> set (all_nodes (snd c))" for c m
  proof
    assume "p = nd_path m"
    with place[OF c m] 1(2) obtain qs where qs: "plain_names qs" "join_str pre ''/'' = join_str (pre @ fst c # qs) ''/''"
      by auto
    have "plain_names (pre @ fst c # qs)" using child(2)[OF c] qs(1) by simp
    with qs(2) 1(3,4) show False by (simp add: join_slash_inj)
  qed
  have dc: "distinct (map nd_path (concat (map (\<lambda>c. all_nodes (snd c)) ch')))"
    if "set ch' \<subseteq> set ch" "distinct (map fst ch')" for ch'
    using that
  proof (induction ch')
    case (Cons c ch')
    have c: "c \<in> set ch" using Cons.prems(1) by simp
    have "nd_path m \<noteq> nd_path m'" if m: "m \<in> set (all_nodes (snd c))" and d: "d \<in> set ch'"
      and m': "m' \<in> set (all_nodes (snd d))" for m d m'
    proof
      assume eq: "nd_path m = nd_path m'"
      have "fst c \<notin> fst ` set ch'" using Cons.prems(2) by simp
      then have dd: "d \<in> set ch" "fst d \<noteq> fst c" using Cons.prems(1) d by (auto, metis imageI)
      from place[OF c m] place[OF dd(1) m'] eq obtain qs qs' where qs: "plain_names qs" "plain_names qs'"
        "join_str (pre @ fst c # qs) ''/'' = join_str (pre @ fst d # qs') ''/''" by auto
      have "plain_names (pre @ fst c # qs)" "plain_names (pre @ fst d # qs')"
        using child(2)[OF c] child(2)[OF dd(1)] qs by simp_all
      with qs(3) dd(2) show False by (simp add: join_slash_inj)
    qed
    moreover have "distinct (map nd_path (all_nodes (snd c)))" using 1(1)[OF c child(1)[OF c] child(2)[OF c]] by simp
    ultimately show ?case using Cons by (auto simp: disjoint_iff)
  qed simp
  have "distinct (map fst ch)" using 1(2) by simp
  with dc[of ch] own show ?case by auto
qed

section \<open>Carriers\<close>

definition root_placed :: "node option \<Rightarrow> bool" where
  "root_placed root \<longleftrightarrow>
     (case root of None \<Rightarrow> True | Some n \<Rightarrow> CHR ''/'' \<notin> set (nd_name n) \<and> well_placed [nd_name n] n)"

lemma root_placed_add:
  assumes "root_placed root" and "add_to_root root paths rs = Inr root'" and "plain_names paths" and "paths \<noteq> []"
  shows "root_placed root'"
proof -
  obtain x xs where paths: "paths = x # xs" using assms(4) by (cases paths) auto
  have x: "CHR ''/'' \<notin> set x" "plain_names xs" using assms(3) by (simp_all add: paths)
  define m where "m = (case root of None \<Rightarrow> new_node x [] | Some n \<Rightarrow> n)"
  have m: "nd_name m = x" and root': "root' = Some (add_at [x] xs rs m)"
    using assms(2) by (cases root; auto simp: add_to_root_def Let_def paths m_def node_add_def split: if_splits)+
  have "well_placed [x] m"
    using assms(1) m x well_placed_new[of "[x]" "[]"]
    by (auto simp: m_def root_placed_def join_str.simps split: option.splits)
  from well_placed_add[OF this x(2), of rs] x(1) m show ?thesis by (simp add: root_placed_def root')
qed

lemma tree_files_placed: "tree_files files root = Inr root' \<Longrightarrow> root_placed root \<Longrightarrow> root_placed root'"
proof (induction files root rule: tree_files.induct)
  case (2 fl rs files root)
  from 2(2) obtain paths mid where lp: "logic_path_for_file fl = Inr paths"
    and ad: "add_to_root root paths rs = Inr mid" and rest: "tree_files files mid = Inr root'"
    by (auto split: sum.splits)
  have "plain_names paths" using logic_path_no_slash[OF lp] by (auto simp: plain_names_def)
  from root_placed_add[OF 2(3) ad this logic_path_nonempty[OF lp]] 2(1)[OF lp ad rest] show ?case by simp
qed simp

lemma carrier_resources_placed:
  "carrier_resources annos key rs res root = Inr root' \<Longrightarrow> root_placed root \<Longrightarrow> root_placed root'"
proof (induction annos key rs res root rule: carrier_resources.induct)
  case (2 annos key r rs res root)
  from 2(2) obtain fld path mid where f: "annos r = Inr fld" "unmarshal_into fld res \<noteq> None"
    "map_get (unmarshal_into fld res) key = Some path" "path \<noteq> []"
    "add_to_root root (split_str path ''/'') [r] = Inr mid"
    "carrier_resources annos key rs (unmarshal_into fld res) mid = Inr root'"
    by (auto simp: Let_def split: sum.splits option.splits if_splits)
  have "plain_names (split_str path ''/'')"
    unfolding plain_names_def using split_str_char_free by blast
  from root_placed_add[OF 2(3) f(5) this] 2(1)[OF f(1) refl _ f(3,4) f(5) f(6)] f(2) show ?case by simp
qed simp

text \<open>What the two constructors build.\<close>

lemma carriers_distinct:
  "tree_carrier_for files = Inr (Some n) \<Longrightarrow> distinct (map nd_path (all_nodes n))"
  "carrier_for_resources annos key rs = Inr (Some n) \<Longrightarrow> distinct (map nd_path (all_nodes n))"
proof -
  have placed: "distinct (map nd_path (all_nodes n))" if "root_placed (Some n)"
    using that by (intro distinct_paths[of "[nd_name n]"]) (auto simp: root_placed_def plain_names_def)
  show "tree_carrier_for files = Inr (Some n) \<Longrightarrow> distinct (map nd_path (all_nodes n))"
    using tree_files_placed[of files None "Some n"] placed by (simp add: tree_carrier_for_def root_placed_def)
  show "carrier_for_resources annos key rs = Inr (Some n) \<Longrightarrow> distinct (map nd_path (all_nodes n))"
    using carrier_resources_placed[of annos key rs None None "Some n"] placed
    by (simp add: carrier_for_resources_def root_placed_def)
qed

end
