(* ===== verification/Render_Properties.thy ===== *)
theory Render_Properties
  imports Render_Paths
begin

text \<open>
  What the package \<open>render\<close> promises: manifests and carriers lose nothing, a chart is rendered without
  its hooks, and the handlers of a carrier run in the order of the tree.
\<close>

section \<open>Manifests and paths\<close>

text \<open>
  C28: resources that are merged into a manifest come back from it as they were, in their order, when
  each is nonempty, has no white space at its ends and does not run into a delimiter.
\<close>

theorem manifest_roundtrip:
  assumes "\<forall>r \<in> set rs. r \<noteq> [] \<and> trim_space r = r \<and> clean_piece delimiter r"
  shows "split_manifest (merge_resources rs) = rs"
  by (rule split_merge) (use assms in \<open>simp add: plain_resource_def\<close>)

theorem manifest_roundtrip_witness: "split_manifest (merge_resources [''a: 1'', ''b: 2'']) = [''a: 1'', ''b: 2'']"
proof (rule manifest_roundtrip)
  have "trim_space ''a: 1'' = ''a: 1''" "trim_space ''b: 2'' = ''b: 2''"
    "clean_piece delimiter ''a: 1''" "clean_piece delimiter ''b: 2''" by code_simp+
  then show "\<forall>r \<in> set [''a: 1'', ''b: 2'']. r \<noteq> [] \<and> trim_space r = r \<and> clean_piece delimiter r" by simp
qed

text \<open>
  A file below the \<open>templates\<close> directory of a chart belongs to the path of that chart: the names
  of the charts from the root down to it, without the \<open>charts\<close> directories between them.
\<close>

lemma template_belongs_to_chart:
  assumes "cs \<noteq> []" and "\<forall>c \<in> set cs. c \<noteq> [] \<and> CHR ''/'' \<notin> set c"
    and "\<not> sublist templates_dir (tl templates_dir @ f)"
  shows "logic_path_for_file (join_str (chart_dirs cs) ''/'' @ templates_dir @ f) = Inr cs"
  using assms by (rule logic_path_of_chart)

lemma template_belongs_to_chart_example:
  "logic_path_for_file ''web/charts/db/templates/sts.yaml'' = Inr [''web'', ''db'']"
proof -
  have "\<not> sublist templates_dir (tl templates_dir @ ''sts.yaml'')" by code_simp
  from template_belongs_to_chart[OF _ _ this, of "[''web'', ''db'']"] show ?thesis
    by (simp add: templates_dir_def)
qed

section \<open>Carriers\<close>

lemma tree_files_heads:
  "tree_files files root = Inr (Some n) \<Longrightarrow> (fl, rs) \<in> set files \<Longrightarrow>
     \<exists>ps. logic_path_for_file fl = Inr (nd_name n # ps)"
proof (induction files root rule: tree_files.induct)
  case (2 fl' rs' files root)
  from 2(2) obtain paths mid where lp: "logic_path_for_file fl' = Inr paths"
    and ad: "add_to_root root paths rs' = Inr mid" and rest: "tree_files files mid = Inr (Some n)"
    by (auto split: sum.splits)
  have ne: "paths \<noteq> []" using logic_path_nonempty[OF lp] .
  have sl: "CHR ''/'' \<notin> set (hd paths)" using logic_path_no_slash[OF lp] ne by simp
  obtain k where k: "mid = Some k" "nd_name k = hd paths" using add_to_root_Inr[OF ad ne sl] by blast
  have "nd_name k = nd_name n" using tree_files_Inr[OF rest] k(1) by simp
  with k(2) ne have "paths = nd_name n # tl paths" by simp
  with lp 2(1)[OF lp ad rest] 2(3) show ?case by auto
qed simp

text \<open>
  A carrier holds exactly the resources of the rendered files, each as often as it was rendered,
  and finds under the path of a chart the resources of that chart's files, in the order of the files.
\<close>

lemma carrier_holds_files:
  assumes "tree_carrier_for files = Inr (Some n)"
  shows "mset (tree_resources rng (Some n)) = mset (concat (map snd files)) \<and>
     (\<forall>(fl, rs) \<in> set files. rs \<noteq> [] \<longrightarrow>
        (\<exists>ps. logic_path_for_file fl = Inr ps \<and>
              resources_of (Some n) (join_str ps ''/'') = Inr (given_to ps (file_entries files))))"
proof -
  note inv = tree_files_Inr[OF assms[unfolded tree_carrier_for_def]]
  have "\<exists>ps. logic_path_for_file fl = Inr ps \<and>
      resources_of (Some n) (join_str ps ''/'') = Inr (given_to ps (file_entries files))"
    if mem: "(fl, rs) \<in> set files" and ne: "rs \<noteq> []" for fl rs
  proof -
    obtain qs where lp: "logic_path_for_file fl = Inr (nd_name n # qs)"
      using tree_files_heads[OF assms[unfolded tree_carrier_for_def] mem] by blast
    let ?ps = "nd_name n # qs"
    have "rs \<in> snd ` set (filter (\<lambda>e. fst e = ?ps) (file_entries files))"
      using mem lp by (force simp: file_entries_def)
    with ne have "given_to ?ps (file_entries files) \<noteq> []" by (auto simp: given_to_def)
    with inv have "res_at qs n = given_to ?ps (file_entries files)" "res_at qs n \<noteq> []" by simp_all
    then obtain t where "node_at qs n = Some t" "nd_resources t = given_to ?ps (file_entries files)"
      by (auto simp: res_at_def split: option.splits)
    moreover have "split_str (join_str ?ps ''/'') ''/'' = ?ps"
      using logic_path_no_slash[OF lp] by (intro split_join_char) auto
    ultimately show ?thesis using lp by (auto simp: resources_of_def Let_def node_find_def)
  qed
  with inv show ?thesis by (auto simp: tree_resources_all)
qed

definition demo_files :: "(string \<times> string list) list" where
  "demo_files = [(''web/templates/svc.yaml'', [''svc'']), (''web/charts/db/templates/sts.yaml'', [''sts''])]"

definition demo_tree :: node where
  "demo_tree = Node ''web'' ''web'' [''svc''] [(''db'', Node ''db'' ''web/db'' [''sts''] [])]"

lemma demo_carrier: "tree_carrier_for demo_files = Inr (Some demo_tree)"
  by code_simp

lemma carrier_holds_files_example:
  "mset (tree_resources id (Some demo_tree)) = {#''svc'', ''sts''#} \<and>
     resources_of (Some demo_tree) ''web/db'' = Inr [''sts'']"
proof -
  have lp: "logic_path_for_file ''web/charts/db/templates/sts.yaml'' = Inr [''web'', ''db'']"
    "logic_path_for_file ''web/templates/svc.yaml'' = Inr [''web'']" by code_simp+
  from carrier_holds_files[OF demo_carrier, of id] lp show ?thesis
    by (simp add: demo_files_def given_to_def file_entries_def)
qed

section \<open>Running a carrier\<close>

text \<open>A tree that one of the two constructors of carriers returned.\<close>

definition built :: "node \<Rightarrow> bool" where
  "built n \<longleftrightarrow>
     (\<exists>files. tree_carrier_for files = Inr (Some n)) \<or>
     (\<exists>annos key rs. carrier_for_resources annos key rs = Inr (Some n))"

lemma built_distinct: "built n \<Longrightarrow> distinct (map nd_path (all_nodes n))"
  by (auto simp: built_def dest: carriers_distinct)

lemma carrier_run_paths:
  "carrier_run A H order (Some n) tr r \<Longrightarrow> mset (map he_path tr) \<subseteq># mset (map nd_path (all_nodes n))"
  by (cases rule: carrier_run.cases) (auto dest: exec_pos_paths exec_rev_paths)

text \<open>
  C5: in every schedule of the goroutines a run of a carrier calls the handler at most once for each
  node; in positive order never for a node before a node below it, in reversed order never for a
  node below before the node above it.
\<close>

theorem run_follows_tree:
  assumes "built n" and "carrier_run A H order (Some n) tr r"
  shows "distinct (map he_path tr) \<and> set (map he_path tr) \<subseteq> set (map nd_path (all_nodes n)) \<and>
     (\<forall>m \<in> set (all_nodes n). \<forall>d \<in> set (strictly_below m). \<forall>o1 o2.
        (order = PositiveOrder \<longrightarrow> \<not> subseq [Handled (nd_path m) o1, Handled (nd_path d) o2] tr) \<and>
        (order = ReversedOrder \<longrightarrow> \<not> subseq [Handled (nd_path d) o1, Handled (nd_path m) o2] tr))"
proof -
  note dist = built_distinct[OF assms(1)] and sub = carrier_run_paths[OF assms(2)]
  from sub dist have "distinct (map he_path tr)"
    by (metis distinct_append mset_append mset_eq_imp_distinct_iff mset_subset_eq_exists_conv ex_mset)
  moreover have "set (map he_path tr) \<subseteq> set (map nd_path (all_nodes n))"
    using set_mset_mono[OF sub] by simp
  moreover have "order = PositiveOrder \<Longrightarrow> bottom_up [n] tr" "order = ReversedOrder \<Longrightarrow> top_down [n] tr"
    using assms(2) exec_pos_bottom_up(1)[OF _ dist] exec_rev_top_down(1)[OF _ dist] by auto
  ultimately show ?thesis by (auto simp: bottom_up_def top_down_def apart_def)
qed

definition silent :: handle_outcomes where
  "silent p res out \<longleftrightarrow> out = None"

lemma demo_built: "built demo_tree"
  using demo_carrier unfolding built_def by blast

lemma demo_run: "carrier_run A silent PositiveOrder (Some demo_tree) [Handled ''web/db'' None, Handled ''web'' None] None"
proof -
  have nil: "exec_pos_all A silent (map snd []) [] []" by (simp add: pos_Nil)
  have "exec_pos A silent (Node ''db'' ''web/db'' [''sts''] []) ([] @ [Handled ''web/db'' None]) None"
    by (rule pos_handled[OF nil, where seen = "[]"]) (simp_all add: children_result_def silent_def)
  from pos_Cons[OF this pos_Nil, of "[Handled ''web/db'' None]"]
  have "exec_pos_all A silent (map snd [(''db'', Node ''db'' ''web/db'' [''sts''] [])]) [Handled ''web/db'' None] []"
    by (simp add: opt_list_def)
  from pos_handled[OF this, where seen = "[]" and out = None]
  have "exec_pos A silent demo_tree ([Handled ''web/db'' None] @ [Handled ''web'' None]) None"
    unfolding demo_tree_def by (simp add: children_result_def silent_def)
  then show ?thesis by (simp add: run_positive)
qed

theorem run_follows_tree_witness:
  "\<not> subseq [Handled ''web'' None, Handled ''web/db'' None] [Handled ''web/db'' None, Handled ''web'' None]"
  using run_follows_tree[OF demo_built demo_run[of "\<lambda>_. []"]]
  by (simp add: demo_tree_def strictly_below_def)

text \<open>
  C26: when no handler fails and the context stays alive, every run in either order succeeds and has
  called the handler exactly once for every node.
\<close>

theorem run_handles_every_node:
  assumes "never_fails H" and "order = PositiveOrder \<or> order = ReversedOrder"
    and "carrier_run A H order (Some n) tr r"
  shows "r = None \<and> mset tr = mset (map (\<lambda>m. Handled (nd_path m) None) (all_nodes n))"
  using assms exec_pos_all_good(1) exec_rev_all_good(1) by blast

theorem run_handles_every_node_witness:
  "mset [Handled ''web/db'' None, Handled ''web'' None] =
     mset (map (\<lambda>m. Handled (nd_path m) None) (all_nodes demo_tree))"
proof -
  have "never_fails silent" by (simp add: never_fails_def silent_def)
  from run_handles_every_node[OF this _ demo_run[of "\<lambda>_. []"]] show ?thesis by simp
qed




definition db_fails :: handle_outcomes where
  "db_fails p res out \<longleftrightarrow> out = (if p = ''web/db'' then Some (Errorf ''db'') else None)"


section \<open>Rendering a chart\<close>

lemma tree_files_not_None: "tree_files files (Some m) \<noteq> Inr None"
  by (induction files arbitrary: m) (auto simp: add_to_root_def Let_def split: sum.splits)

lemma tree_carrier_None:
  assumes "tree_carrier_for files = Inr None"
  shows "files = []"
proof (cases files)
  case (Cons fl files')
  with assms show ?thesis
    using tree_files_not_None[of files']
    by (cases fl) (auto simp: tree_carrier_for_def add_to_root_def Let_def split: sum.splits)
qed simp

text \<open>The resources that are rendered: those of the used files without the hooks.\<close>

definition rendered :: "('c, 'v) render_env \<Rightarrow> (string \<times> string) list \<Rightarrow> string list" where
  "rendered env files =
     [r. (name, text) \<leftarrow> files, \<not> unused_file name, r \<leftarrow> re_split env text, is_hook env r = Inr False]"

lemma concat_kept_files: "concat (map snd (kept_files env files)) = rendered env files"
proof -
  have "concat (map (\<lambda>r. if is_hook env r = Inr False then [r] else []) rs) = filter (kept_resource env) rs" for rs
    by (induction rs) (auto simp: kept_resource_def)
  then show ?thesis by (induction files) (auto simp: rendered_def kept_files_def)
qed

text \<open>
  Rendering builds the carrier from exactly the resources of the rendered files that are used,
  that is neither partials nor notes, without those that carry the hook annotation: nothing else is
  left out and nothing is added.
\<close>

lemma render_drops_only_hooks:
  assumes "render env opts = Inr root"
    and "\<And>chart values files. re_engine env chart values = Inr files \<Longrightarrow> distinct (map fst files)"
  shows "\<exists>chart config values files.
     re_load env (case ro_template opts of None \<Rightarrow> [] | Some t \<Rightarrow> t) = Inr chart \<and>
     render_config env opts = Inr config \<and>
     re_values env chart config (ro_release opts) (ro_namespace opts) (ro_version opts) = Inr values \<and>
     re_engine env chart values = Inr files \<and>
     mset (tree_resources rng root) = mset (rendered env files)"
proof -
  from assms(1) obtain chart config vals files res where run:
    "re_load env (case ro_template opts of None \<Rightarrow> [] | Some t \<Rightarrow> t) = Inr chart"
    "render_config env opts = Inr config"
    "re_values env chart config (ro_release opts) (ro_namespace opts) (ro_version opts) = Inr vals"
    "re_engine env chart vals = Inr files" "render_files env files [] = Inr res"
    "tree_carrier_for (range_over (re_range env) res) = Inr root"
    by (auto simp: render_def render_resources_def bind_result_Inr_iff)
  have res: "res = kept_files env files"
    using render_files_Inr[OF run(5)] assms(2)[OF run(4)] by simp
  have "mset (tree_resources rng root) = mset (concat (map snd (range_over (re_range env) res)))"
  proof (cases root)
    case None
    with run(6) have "range_over (re_range env) res = []" by (auto dest: tree_carrier_None)
    with None show ?thesis by (simp add: tree_resources_def)
  next
    case (Some n)
    with tree_files_Inr[of _ None n] run(6) show ?thesis
      by (simp add: tree_carrier_for_def tree_resources_all)
  qed
  also have "\<dots> = mset (concat (map snd res))"
    by (simp add: mset_concat_sum) (metis mset_range_over mset_map sum_mset_sum_list)
  also have "concat (map snd res) = rendered env files" by (simp add: res concat_kept_files)
  finally show ?thesis using run by blast
qed

text \<open>A chart of one file with a resource and a hook, and a partial.\<close>

definition demo_render_env :: "(unit, unit) render_env" where
  "demo_render_env =
     \<lparr>re_load = (\<lambda>_. Inr ()), re_values = (\<lambda>_ _ _ _ _. Inr ()),
      re_engine = (\<lambda>_ _. Inr [(''web/templates/svc.yaml'', ''svc hook''), (''web/templates/_h.tpl'', ''x'')]),
      re_split = (\<lambda>s. split_str s '' ''),
      re_head = (\<lambda>r. Inr (if r = ''hook'' then Some [(hook_anno, ''pre-install'')] else None)),
      re_range = id, re_controllers = (\<lambda>_. ([''Job'', ''Robot''], None)), re_type = Inr,
      re_set = (\<lambda>cfg v i fld. (cfg, None))\<rparr>"

definition demo_render_options :: "bool option \<Rightarrow> render_options" where
  "demo_render_options susp =
     \<lparr>ro_namespace = ''ns'', ro_release = ''web'', ro_version = 1, ro_template = None, ro_config = ''{}'',
      ro_suspend = susp\<rparr>"

lemma demo_render: "render demo_render_env (demo_render_options None) =
    Inr (Some (Node ''web'' ''web'' [''svc''] []))"
  by code_simp

lemma render_drops_only_hooks_example:
  "mset (tree_resources id (Some (Node ''web'' ''web'' [''svc''] []))) =
     mset (rendered demo_render_env [(''web/templates/svc.yaml'', ''svc hook''), (''web/templates/_h.tpl'', ''x'')])"
proof -
  have dist: "distinct (map fst files)" if "re_engine demo_render_env chart vals = Inr files" for chart vals files
    using that by (auto simp: demo_render_env_def)
  from render_drops_only_hooks[where rng = id, OF demo_render dist] show ?thesis by (simp add: demo_render_env_def)
qed

text \<open>
  An error that the suspension of a controller meets does not reach the caller. The callback
  and the iteration write the same variable, and the iteration's result is written last: a release
  with a controller of a type that the code calls illegal is rendered as if nothing had happened.
\<close>

lemma suspend_errors_swallowed:
  assumes "ro_suspend opts = Some True" and "re_controllers env (ro_config opts) = (ctrls, None)"
  shows "\<exists>config. render_config env opts = Inr config \<and>
     ((\<forall>v \<in> set ctrls. \<exists>typ. re_type env v = Inr typ \<and> typ \<notin> {''Deployment'', ''StatefulSet'', ''CronJob'', ''Job'', ''DaemonSet''})
        \<longrightarrow> config = ro_config opts)"
proof -
  have "fst (suspend_controllers env pos ctrls st) = fst st"
    if "\<forall>v \<in> set ctrls. \<exists>typ. re_type env v = Inr typ \<and> typ \<notin> {''Deployment'', ''StatefulSet'', ''CronJob'', ''Job'', ''DaemonSet''}"
    for pos st
    using that by (induction ctrls arbitrary: pos st) (auto simp: suspend_controller_def)
  with assms show ?thesis by (simp add: render_config_def Let_def)
qed

lemma suspend_errors_swallowed_example:
  "snd (suspend_controllers demo_render_env 0 [''Job'', ''Robot''] (''{}'', None)) =
       Some (Errorf ''illegal controller type: Robot'') \<and>
     (\<exists>config. render_config demo_render_env (demo_render_options (Some True)) = Inr config)"
  using suspend_errors_swallowed[of "demo_render_options (Some True)" demo_render_env "[''Job'', ''Robot'']"]
  by (auto simp: demo_render_options_def demo_render_env_def suspend_controller_def)

text \<open>
  \<open>CarrierForResources\<close> decodes all resources into one variable: a resource without annotations
  inherits those of the resource before it, and is filed under the chart path of that one instead of
  being refused.
\<close>

lemma annotations_leak_to_next_resource:
  assumes "annos r1 = Inr (AnnoMap [(key, p)])" and "annos r2 = Inr AnnoAbsent" and "p \<noteq> []"
  shows "\<exists>n. carrier_for_resources annos key [r1, r2] = Inr (Some n) \<and>
     resources_of (Some n) p = Inr [r1, r2] \<and>
     carrier_for_resources annos key [r2] = Inl (Errorf ''unknown resource object'')"
proof -
  obtain x xs where path: "split_str p ''/'' = x # xs" using split_str_head by blast
  have x: "CHR ''/'' \<notin> set x" using split_str_char_free[of x p "CHR ''/''"] path by simp
  define n1 where "n1 = add_at [x] xs [r1] (new_node x [])"
  define n2 where "n2 = add_at [x] xs [r2] n1"
  have names: "nd_name (new_node x []) = x" using split_no_char[OF x] by (simp add: new_node_def)
  have "carrier_for_resources annos key [r1, r2] = Inr (Some n2)"
    using assms names by (simp add: carrier_for_resources_def unmarshal_into_def Let_def map_get_def add_to_root_def
        node_add_def path n1_def n2_def)
  moreover have "resources_of (Some n2) p = Inr [r1, r2]"
  proof -
    have "res_at xs n2 = [r1, r2]" by (simp add: n2_def n1_def res_at_add)
    then obtain t where "node_at xs n2 = Some t" "nd_resources t = [r1, r2]"
      by (auto simp: res_at_def split: option.splits)
    then show ?thesis by (simp add: resources_of_def Let_def node_find_def path)
  qed
  moreover have "carrier_for_resources annos key [r2] = Inl (Errorf ''unknown resource object'')"
    using assms by (simp add: carrier_for_resources_def unmarshal_into_def Let_def)
  ultimately show ?thesis by blast
qed

definition first_annotated :: "string \<Rightarrow> error + anno_field" where
  "first_annotated r = Inr (if r = ''svc'' then AnnoMap [(''path'', ''web'')] else AnnoAbsent)"

lemma annotations_leak_to_next_resource_example:
  "\<exists>n. carrier_for_resources first_annotated ''path'' [''svc'', ''sts''] = Inr (Some n) \<and>
     resources_of (Some n) ''web'' = Inr [''svc'', ''sts'']"
  using annotations_leak_to_next_resource[of first_annotated "''svc''" "''path''" "''web''" "''sts''"]
  by (auto simp: first_annotated_def)

end
