(* ===== verification/Release_Interfaces.thy ===== *)
theory Release_Interfaces
  imports Kube_Objects
begin

text \<open>
  What \<open>pkg/storage\<close> offers to the code that works on releases: the conditions of \<open>condition.go\<close>,
  the names and owners of histories of \<open>release.go\<close>, and the interface \<open>ReleaseStorage\<close> with the
  laws its clients rely on.
\<close>

section \<open>Conditions\<close>

datatype condition_reason =
  ReasonAvailable | ReasonFailure | ReasonCreating | ReasonUpdating | ReasonRollbacking

fun reason_string :: "condition_reason \<Rightarrow> string" where
  "reason_string ReasonAvailable = ''Available''"
| "reason_string ReasonFailure = ''Failure''"
| "reason_string ReasonCreating = ''Creating''"
| "reason_string ReasonUpdating = ''Updating''"
| "reason_string ReasonRollbacking = ''Rollbacking''"

fun reason_type :: "condition_reason \<Rightarrow> condition_type" where
  "reason_type ReasonAvailable = ReleaseAvailable"
| "reason_type ReasonFailure = ReleaseFailure"
| "reason_type ReasonCreating = ReleaseProgressing"
| "reason_type ReasonUpdating = ReleaseProgressing"
| "reason_type ReasonRollbacking = ReleaseProgressing"

definition make_condition :: "condition_reason \<Rightarrow> string \<Rightarrow> int \<Rightarrow> condition" where
  "make_condition r msg now =
     \<lparr>co_type = reason_type r, co_status = ''True'', co_time = now,
      co_reason = reason_string r, co_message = msg\<rparr>"

section \<open>Histories\<close>

definition label_release_name :: string where
  "label_release_name = ''release.caicloud.io/name''"

definition label_release_version :: string where
  "label_release_version = ''release.caicloud.io/version''"

definition history_name :: "string \<Rightarrow> int32 \<Rightarrow> string" where
  "history_name nm version = nm @ ''-v'' @ int_str (sint version)"

definition construct_history :: "release \<Rightarrow> int32 \<Rightarrow> history" where
  "construct_history r version =
     \<lparr>h_meta =
        \<lparr>om_name = history_name (rel_name r) version, om_namespace = rel_namespace r, om_uid = [],
         om_resource_version = [], om_creation = 0,
         om_labels = Some [(label_release_name, rel_name r),
                           (label_release_version, int_str (sint version))],
         om_annotations = om_annotations (rel_meta r),
         om_owners = [\<lparr>or_api_version = release_api_version, or_kind = ''Release'',
                       or_name = rel_name r, or_uid = rel_uid r\<rparr>]\<rparr>,
      h_spec =
        \<lparr>hs_description = rs_description (rel_spec r), hs_version = version,
         hs_template = rs_template (rel_spec r), hs_config = rs_config (rel_spec r),
         hs_manifest = st_manifest (rel_status r)\<rparr>\<rparr>"

definition owns_history :: "release \<Rightarrow> history \<Rightarrow> bool" where
  "owns_history r h =
     (case om_owners (h_meta h) of
        [ow] \<Rightarrow> or_api_version ow = release_api_version \<and> or_kind ow = g_kind gvk_release \<and>
               or_name ow = rel_name r \<and> or_uid ow = rel_uid r
      | _ \<Rightarrow> False)"

lemma owns_constructed: "owns_history r (construct_history r v)"
  by (simp add: owns_history_def construct_history_def gvk_release_def)

lemma history_name_inj: "history_name nm v = history_name nm w \<longleftrightarrow> v = w"
  by (auto simp: history_name_def int_str_inj intro: signed_word_eqI)

definition newer_version :: "history \<Rightarrow> history \<Rightarrow> bool" where
  "newer_version a b \<longleftrightarrow> h_version b <s h_version a"

definition versions_descend :: "history list \<Rightarrow> bool" where
  "versions_descend hs \<longleftrightarrow> sorted_wrt (\<lambda>a b. h_version b \<le>s h_version a) hs"

lemma newer_version_iff: "newer_version a b \<longleftrightarrow> - sint (h_version a) < - sint (h_version b)"
  by (simp add: newer_version_def word_sless_alt)

lemma sort_versions_descend: "versions_descend (sort_over srt newer_version hs)"
proof -
  have "sorted (map (\<lambda>h. - sint (h_version h)) (sort_over srt newer_version hs))"
    by (rule sorted_sort_over) (rule newer_version_iff)
  then show ?thesis by (simp add: versions_descend_def sorted_map word_sle_eq)
qed

section \<open>The interface\<close>

text \<open>
  \<open>so_flush reason msg\<close> is \<open>FlushConditions(Condition(reason, msg))\<close>. The state \<open>'s\<close> holds whatever
  the provider keeps; \<open>kept\<close> reads the release it keeps in memory.
\<close>

record 's release_ops =
  so_rollback :: "int32 \<Rightarrow> ('s, release) io"
  so_histories :: "('s, history list) io"
  so_update :: "release \<Rightarrow> ('s, release) io"
  so_flush :: "condition_reason \<Rightarrow> string \<Rightarrow> ('s, release) io"
  so_update_status :: "(release_status \<Rightarrow> release_status) \<Rightarrow> ('s, release) io"

locale release_backend =
  fixes ops :: "'s release_ops" and kept :: "'s \<Rightarrow> release"
  assumes histories_law:
      "so_histories ops s = (Inr hs, s') \<Longrightarrow>
         kept s' = kept s \<and> versions_descend hs \<and> (\<forall>h \<in> set hs. owns_history (kept s) h)"
    and rollback_kept: "so_rollback ops v s = (Inr rel, s') \<Longrightarrow> kept s' = rel"
    and update_kept: "so_update ops r s = (Inr rel, s') \<Longrightarrow> kept s' = rel"
    and flush_kept: "so_flush ops reason msg s = (Inr rel, s') \<Longrightarrow> kept s' = rel"

end
