(* ===== verification/Release_Storage.thy ===== *)
theory Release_Storage
  imports Release_Interfaces Kube_Interfaces Render_Chart
begin

text \<open>
  \<open>releaseStorage\<close> of \<open>pkg/storage/release.go\<close>: one release with its histories. The state of a
  storage is the state of the world beside \<open>rs.release\<close>, the release the storage keeps in memory.
\<close>

section \<open>The storage\<close>

text \<open>
  The API clients of one namespace, the layers, and the functions of other packages: \<open>se_marshal\<close>
  is \<open>json.Marshal\<close>, \<open>se_merge_patch\<close> is \<open>jsonpatch.CreateMergePatch\<close>, \<open>se_sort\<close> is \<open>sort.Slice\<close>,
  \<open>se_valid_label\<close> says whether \<open>labels.NewRequirement\<close> accepts a value, \<open>se_children\<close> is the order
  in which a map of child nodes is visited.
\<close>

record 's storage_env =
  se_name :: string
  se_release_patch :: "string \<Rightarrow> string \<Rightarrow> ('s, release) io"
  se_release_delete :: "string \<Rightarrow> ('s, unit) io"
  se_history_create :: "history \<Rightarrow> ('s, history) io"
  se_history_get :: "string \<Rightarrow> ('s, history) io"
  se_history_list :: "selector \<Rightarrow> ('s, history list) io"
  se_history_delete_collection :: "selector \<Rightarrow> ('s, unit) io"
  se_layers :: "'s cache_layers option"
  se_marshal :: "release \<Rightarrow> error + string"
  se_merge_patch :: "string \<Rightarrow> string \<Rightarrow> error + string"
  se_now :: "('s, int) io"
  se_render :: "render_options \<Rightarrow> ('s, node option) io"
  se_children :: child_order
  se_sort :: "history sorter"
  se_valid_label :: "string \<Rightarrow> bool"

type_synonym 's stored = "'s \<times> release"

definition current_release :: "('s stored, release) io" where
  "current_release st = (Inr (snd st), st)"

definition keep_release :: "release \<Rightarrow> ('s stored, unit) io" where
  "keep_release r st = (Inr (), (fst st, r))"

datatype layer_action = ActionCreated | ActionUpdated | ActionDeleted

definition with_layer :: "'s storage_env \<Rightarrow> gvk \<Rightarrow> obj \<Rightarrow> layer_action \<Rightarrow> ('s, unit) io" where
  "with_layer env g ob act =
     (case se_layers env of
        None \<Rightarrow> ret ()
      | Some ls \<Rightarrow>
          (case act of
             ActionCreated \<Rightarrow> record_created ls g ob
           | ActionUpdated \<Rightarrow> record_updated ls g ob
           | ActionDeleted \<Rightarrow> record_deleted ls g ob))"

definition storage_release :: "'s storage_env \<Rightarrow> ('s stored, release) io" where
  "storage_release env =
     bind_io current_release (\<lambda>r.
       case se_layers env of
         None \<Rightarrow> ret r
       | Some ls \<Rightarrow>
           bind_io (quiet (read_layer ls gvk_release (rel_namespace r) (rel_name r))) (\<lambda>ob.
             lift_result (as_release ob)))"

definition storage_history :: "'s storage_env \<Rightarrow> int32 \<Rightarrow> ('s stored, history) io" where
  "storage_history env version =
     bind_io current_release (\<lambda>r.
     bind_io
       (case se_layers env of
          None \<Rightarrow> quiet (se_history_get env (history_name (se_name env) version))
        | Some ls \<Rightarrow>
            bind_io (quiet (read_layer ls gvk_release_history (rel_namespace r)
                                 (history_name (se_name env) version)))
              (\<lambda>ob. lift_result (as_history ob)))
       (\<lambda>h. if \<not> owns_history r h
            then fail (new_not_found (g_group gvk_release_history) [] (om_name (h_meta h)))
            else ret h))"

text \<open>\<open>labels.Set{...}.AsSelector()\<close>: everything is selected when a value is not a valid label.\<close>

definition as_selector :: "'s storage_env \<Rightarrow> (string \<times> string) list \<Rightarrow> selector" where
  "as_selector env ls = (if list_all (\<lambda>p. se_valid_label env (snd p)) ls then ls else [])"

definition storage_histories :: "'s storage_env \<Rightarrow> ('s stored, history list) io" where
  "storage_histories env =
     bind_io current_release (\<lambda>r.
     bind_io
       (case se_layers env of
          None \<Rightarrow> quiet (se_history_list env [(label_release_name, se_name env)])
        | Some ls \<Rightarrow>
            bind_io (quiet (bind_io (cls_layer_for ls gvk_release_history) (\<lambda>ly.
                lo_ns_list ly (rel_namespace r) (as_selector env [(label_release_name, se_name env)]))))
              (\<lambda>obs. lift_result (mapM_result as_history obs)))
       (\<lambda>hs. ret (sort_over (se_sort env) newer_version (filter (owns_history r) hs))))"

text \<open>\<open>Patch\<close>: the change of the kept release, sent as a merge patch.\<close>

definition storage_patch :: "'s storage_env \<Rightarrow> (release \<Rightarrow> ('s, release) io) \<Rightarrow> ('s stored, release) io" where
  "storage_patch env modifier =
     bind_io current_release (\<lambda>r.
     bind_io (lift_result (se_marshal env r)) (\<lambda>old.
     bind_io (quiet (modifier r)) (\<lambda>target.
     bind_io (lift_result (se_marshal env target)) (\<lambda>new.
     bind_io (lift_result (se_merge_patch env old new)) (\<lambda>patch.
       if patch = ''{}'' then ret r
       else bind_io (quiet (se_release_patch env (se_name env) patch)) (\<lambda>rel.
            bind_io (quiet (with_layer env gvk_release (obj_of_release rel) ActionUpdated)) (\<lambda>_.
            bind_io (keep_release rel) (\<lambda>_. ret rel))))))))"

definition storage_update_status ::
  "'s storage_env \<Rightarrow> (release_status \<Rightarrow> release_status) \<Rightarrow> ('s stored, release) io" where
  "storage_update_status env f =
     storage_patch env (\<lambda>r. ret (r\<lparr>rel_status := f (rel_status r)\<rparr>))"

definition storage_add_condition :: "'s storage_env \<Rightarrow> condition \<Rightarrow> ('s stored, release) io" where
  "storage_add_condition env c =
     storage_patch env (\<lambda>r. ret (r\<lparr>rel_status :=
       (rel_status r)\<lparr>st_conditions := st_conditions (rel_status r) @ [c]\<rparr>\<rparr>))"

definition storage_flush :: "'s storage_env \<Rightarrow> condition list \<Rightarrow> ('s stored, release) io" where
  "storage_flush env cs =
     storage_patch env (\<lambda>r. ret (r\<lparr>rel_status := (rel_status r)\<lparr>st_conditions := cs\<rparr>\<rparr>))"

text \<open>\<open>Condition(reason, msg)\<close> reads the clock.\<close>

definition new_condition :: "'s storage_env \<Rightarrow> condition_reason \<Rightarrow> string \<Rightarrow> ('s, condition) io" where
  "new_condition env r msg = bind_io (se_now env) (\<lambda>now. ret (make_condition r msg now))"

definition storage_flush_reason ::
  "'s storage_env \<Rightarrow> condition_reason \<Rightarrow> string \<Rightarrow> ('s stored, release) io" where
  "storage_flush_reason env r msg =
     bind_io (quiet (new_condition env r msg)) (\<lambda>c. storage_flush env [c])"

definition storage_update :: "'s storage_env \<Rightarrow> release \<Rightarrow> ('s stored, release) io" where
  "storage_update env release =
     try_io (storage_history env (st_version (rel_status release))) (\<lambda>found.
       bind_io
         (case found of
            Inr _ \<Rightarrow> ret ()
          | Inl e \<Rightarrow>
              if \<not> is_not_found e then fail e
              else (let h = construct_history release (st_version (rel_status release))
                    in bind_io (quiet (se_history_create env h)) (\<lambda>_.
                       quiet (with_layer env gvk_release_history (obj_of_history h) ActionCreated))))
         (\<lambda>_. storage_patch env (\<lambda>rel.
            bind_io (se_now env) (\<lambda>now.
            bind_io (new_condition env ReasonUpdating []) (\<lambda>c.
              ret (rel\<lparr>rel_status := (rel_status rel)\<lparr>
                     st_last_update := now, st_manifest := st_manifest (rel_status release),
                     st_version := st_version (rel_status release), st_conditions := [c]\<rparr>\<rparr>))))))"

definition storage_rollback :: "'s storage_env \<Rightarrow> int32 \<Rightarrow> ('s stored, release) io" where
  "storage_rollback env version =
     try_io (storage_history env version) (\<lambda>found.
       case found of
         Inl e \<Rightarrow> if \<not> is_not_found e then fail e
                  else storage_flush_reason env ReasonFailure (error_text e)
       | Inr h \<Rightarrow>
           bind_io current_release (\<lambda>r.
           bind_io (quiet (se_render env
               \<lparr>ro_namespace = rel_namespace r, ro_release = rel_name r, ro_version = h_version h,
                ro_template = hs_template (h_spec h), ro_config = hs_config (h_spec h),
                ro_suspend = rs_suspend (rel_spec r)\<rparr>)) (\<lambda>root.
             let manifests = tree_resources (se_children env) root
             in storage_patch env (\<lambda>rel.
                  bind_io (se_now env) (\<lambda>now.
                  bind_io (new_condition env ReasonRollbacking []) (\<lambda>c.
                    ret (rel\<lparr>rel_spec := (rel_spec rel)\<lparr>
                               rs_description := hs_description (h_spec h),
                               rs_template := hs_template (h_spec h),
                               rs_config := hs_config (h_spec h), rs_rollback_to := None\<rparr>,
                             rel_status := (rel_status rel)\<lparr>
                               st_version := h_version h, st_last_update := now,
                               st_manifest := merge_resources manifests,
                               st_conditions := [c]\<rparr>\<rparr>)))))))"

definition storage_delete :: "'s storage_env \<Rightarrow> ('s stored, unit) io" where
  "storage_delete env =
     bind_io current_release (\<lambda>r.
     try_io (quiet (se_release_delete env (se_name env))) (\<lambda>d.
       case d of
         Inl e \<Rightarrow>
           if \<not> is_not_found e then fail e
           else bind_io (quiet (with_layer env gvk_release (obj_of_release r) ActionDeleted)) (\<lambda>_.
                quiet (se_history_delete_collection env [(label_release_name, se_name env)]))
       | Inr _ \<Rightarrow>
           bind_io (quiet (with_layer env gvk_release (obj_of_release r) ActionDeleted)) (\<lambda>_.
           quiet (se_history_delete_collection env [(label_release_name, se_name env)]))))"

text \<open>\<open>ReleaseStorage(release)\<close> binds the name; the release is kept as it is.\<close>

definition storage_for :: "'s storage_env \<Rightarrow> release \<Rightarrow> 's storage_env" where
  "storage_for env r = env\<lparr>se_name := rel_name r\<rparr>"

section \<open>What the operations keep\<close>

lemma wp_current [wp_simps]: "wp current_release Q st = Q (Inr (snd st)) st"
  by (simp add: wp_def current_release_def)

lemma wp_keep [wp_simps]: "wp (keep_release r) Q st = Q (Inr ()) (fst st, r)"
  by (simp add: wp_def keep_release_def)

text \<open>\<open>History\<close> returns only histories of this very release, \<open>Histories\<close> too, newest first.\<close>

lemma storage_history_owned:
  "wp (storage_history env v)
     (\<lambda>r st'. snd st' = snd st \<and> (\<forall>h. r = Inr h \<longrightarrow> owns_history (snd st) h)) st"
  by (auto simp: storage_history_def wp_simps split: option.splits sum.splits intro!: wp_quiet)

lemma storage_histories_ok:
  "wp (storage_histories env)
     (\<lambda>r st'. snd st' = snd st \<and>
        (\<forall>hs. r = Inr hs \<longrightarrow> versions_descend hs \<and> (\<forall>h \<in> set hs. owns_history (snd st) h))) st"
  by (auto simp: storage_histories_def wp_simps sort_versions_descend
      split: option.splits sum.splits intro!: wp_quiet)

text \<open>A change that succeeds returns the release the storage keeps; one that fails keeps the old one.\<close>

fun kept_result :: "release \<Rightarrow> error + release \<Rightarrow> 's stored \<Rightarrow> bool" where
  "kept_result old (Inl e) st \<longleftrightarrow> snd st = old"
| "kept_result old (Inr rel) st \<longleftrightarrow> snd st = rel"

definition returns_kept :: "('s stored, release) io \<Rightarrow> bool" where
  "returns_kept m \<longleftrightarrow> (\<forall>st. wp m (kept_result (snd st)) st)"

lemma returns_keptD: "returns_kept m \<Longrightarrow> snd st = old \<Longrightarrow> wp m (kept_result old) st"
  unfolding returns_kept_def by blast

lemma wp_bind_current: "wp (f (snd st)) Q st \<Longrightarrow> wp (bind_io current_release f) Q st"
  by (simp add: wp_simps)

lemma storage_patch_kept: "returns_kept (storage_patch env f)"
  by (auto simp: returns_kept_def storage_patch_def wp_simps split: sum.splits intro!: wp_quiet)

lemma storage_flush_reason_kept: "returns_kept (storage_flush_reason env r msg)"
  unfolding returns_kept_def storage_flush_reason_def storage_flush_def
  by (intro allI wp_bind_quiet returns_keptD[OF storage_patch_kept]) simp_all

lemma wp_history:
  "(\<And>r st'. snd st' = snd st \<Longrightarrow> (\<And>h. r = Inr h \<Longrightarrow> owns_history (snd st) h) \<Longrightarrow> Q r st') \<Longrightarrow>
     wp (storage_history env v) Q st"
  by (rule wp_mono[OF storage_history_owned]) auto

lemma wp_record_history:
  "(\<And>r s'. Q r (s', snd st)) \<Longrightarrow>
     wp (bind_io (quiet (se_history_create env h)) (\<lambda>_.
         quiet (with_layer env gvk_release_history (obj_of_history h) ActionCreated))) Q st"
  by (intro wp_bind_quiet wp_quiet) simp_all

lemma wp_then:
  "wp m (\<lambda>r s'. case r of Inl e \<Rightarrow> Q (Inl e) s' | Inr x \<Rightarrow> wp (f x) Q s') st \<Longrightarrow> wp (bind_io m f) Q st"
  by (simp add: wp_bind)

lemma storage_update_kept: "returns_kept (storage_update env r)"
  unfolding returns_kept_def storage_update_def wp_try
proof (intro allI wp_history, goal_cases)
  case (1 st found st1)
  note patch = returns_keptD[OF storage_patch_kept, where old = "snd st"]
  show ?case
  proof (cases found)
    case (Inl e)
    with 1(1) patch show ?thesis
      by (auto simp: Let_def wp_ret wp_fail wp_if split: sum.split intro!: wp_then[of "bind_io _ _"] wp_record_history)
        (simp add: wp_simps)
  next
    case (Inr h)
    with 1(1) patch show ?thesis by (simp add: wp_bind wp_ret)
  qed
qed

lemma storage_rollback_kept: "returns_kept (storage_rollback env v)"
  unfolding returns_kept_def storage_rollback_def wp_try
proof (intro allI wp_history, goal_cases)
  case (1 st found st1)
  note patch = returns_keptD[OF storage_patch_kept, where old = "snd st"]
    and flush = returns_keptD[OF storage_flush_reason_kept, where old = "snd st"]
  show ?case
  proof (cases found)
    case (Inl e)
    with 1(1) flush[OF 1(1)] show ?thesis by (simp add: wp_if wp_fail)
  next
    case (Inr h)
    with 1(1) patch show ?thesis by (auto simp: Let_def intro!: wp_bind_current wp_bind_quiet)
  qed
qed

section \<open>Patches that the server applies\<close>

text \<open>
  The server's part: the merge patch of two releases, sent while the server has the first of them,
  makes the server have the second and return it.
\<close>

definition server_applies :: "'s storage_env \<Rightarrow> 's \<Rightarrow> release \<Rightarrow> release \<Rightarrow> bool" where
  "server_applies env s old new \<longleftrightarrow>
     (\<exists>a b p s'. se_marshal env old = Inr a \<and> se_marshal env new = Inr b \<and>
        se_merge_patch env a b = Inr p \<and> p \<noteq> ''{}'' \<and>
        se_release_patch env (se_name env) p s = (Inr new, s'))"

lemma storage_patch_server:
  assumes "se_layers env = None" and "f (snd st) (fst st) = (Inr new, s1)"
    and "server_applies env s1 (snd st) new"
  shows "\<exists>s2. storage_patch env f st = (Inr new, (s2, new))"
  using assms
  by (auto simp: storage_patch_def server_applies_def bind_io_def current_release_def lift_result_def
      quiet_def with_layer_def ret_def keep_release_def)

section \<open>The storage honours the contract of release backends\<close>

definition storage_ops :: "'s storage_env \<Rightarrow> 's stored release_ops" where
  "storage_ops env =
     \<lparr>so_rollback = storage_rollback env, so_histories = storage_histories env,
      so_update = storage_update env, so_flush = storage_flush_reason env,
      so_update_status = storage_update_status env\<rparr>"

lemma returns_kept_Inr: "returns_kept m \<Longrightarrow> m st = (Inr rel, st') \<Longrightarrow> snd st' = rel"
  using wpD[OF returns_keptD[OF _ refl]] kept_result.simps(2) by blast

interpretation storage_backend: release_backend "storage_ops env" "snd :: 's stored \<Rightarrow> release"
  for env :: "'s storage_env"
proof
  fix st :: "'s stored" and r st' hs v rel reason msg f
  show "so_histories (storage_ops env) st = (Inr hs, st') \<Longrightarrow> snd st' = snd st \<and>
      versions_descend hs \<and> (\<forall>h \<in> set hs. owns_history (snd st) h)"
    using storage_histories_ok[of env st] by (auto simp: storage_ops_def wp_def)
  show "so_rollback (storage_ops env) v st = (Inr rel, st') \<Longrightarrow> snd st' = rel"
    by (simp add: storage_ops_def returns_kept_Inr[OF storage_rollback_kept])
  show "so_update (storage_ops env) r st = (Inr rel, st') \<Longrightarrow> snd st' = rel"
    by (simp add: storage_ops_def returns_kept_Inr[OF storage_update_kept])
  show "so_flush (storage_ops env) reason msg st = (Inr rel, st') \<Longrightarrow> snd st' = rel"
    by (simp add: storage_ops_def returns_kept_Inr[OF storage_flush_reason_kept])
qed

end
