(* ===== verification/Release_Apply.thy ===== *)
theory Release_Apply
  imports Release_Storage Kube_Client
begin

text \<open>
  \<open>pkg/release/apply.go\<close> and \<open>util.go\<close>: bringing the cluster to what a release asks for. The client
  of resources, the render and the storage of the release are given as their operations.
\<close>

definition references_for_release :: "release \<Rightarrow> owner_ref list" where
  "references_for_release r =
     [\<lparr>or_api_version = release_api_version, or_kind = ''Release'', or_name = rel_name r, or_uid = rel_uid r\<rparr>]"

text \<open>\<open>recordError\<close>: the error of recording hides the error to record.\<close>

definition record_error :: "'s release_ops \<Rightarrow> error \<Rightarrow> ('s, 'a) io" where
  "record_error ops target =
     bind_io (so_flush ops ReasonFailure (error_text target)) (\<lambda>_. fail target)"

definition ignored_kind :: "gvk list \<Rightarrow> obj \<Rightarrow> bool" where
  "ignored_kind ignored ob = list_ex (\<lambda>g. g = o_gvk ob) ignored"

section \<open>The version of the next history\<close>

fun find_version :: "int32 \<Rightarrow> history list \<Rightarrow> history option" where
  "find_version v [] = None"
| "find_version v (h # hs) = (if h_version h = v then Some h else find_version v hs)"

definition config_changed :: "release \<Rightarrow> history \<Rightarrow> bool" where
  "config_changed r h \<longleftrightarrow>
     rs_config (rel_spec r) \<noteq> hs_config (h_spec h) \<or> rs_template (rel_spec r) \<noteq> hs_template (h_spec h)"

definition next_version :: "release \<Rightarrow> history list \<Rightarrow> int32" where
  "next_version r hs =
     (case hs of
        [] \<Rightarrow> 1
      | latest # _ \<Rightarrow>
          (let current = (case find_version (st_version (rel_status r)) hs of
                            None \<Rightarrow> latest | Some h \<Rightarrow> h)
           in if \<not> config_changed r current then h_version current else h_version latest + 1))"

section \<open>Applying a release\<close>

record 's apply_env =
  ae_client_apply :: "string \<Rightarrow> string list \<Rightarrow> apply_options \<Rightarrow> ('s, unit) io"
  ae_render :: "render_options \<Rightarrow> ('s, node option) io"
  ae_children :: child_order
  ae_ignored :: "gvk list"

text \<open>Run \<open>m\<close>; record an error it returns.\<close>

definition or_record :: "'s release_ops \<Rightarrow> ('s, 'a) io \<Rightarrow> ('a \<Rightarrow> ('s, 'b) io) \<Rightarrow> ('s, 'b) io" where
  "or_record ops m f =
     try_io m (\<lambda>r. case r of Inl e \<Rightarrow> record_error ops e | Inr x \<Rightarrow> f x)"

definition render_options_of :: "release \<Rightarrow> render_options" where
  "render_options_of r =
     \<lparr>ro_namespace = rel_namespace r, ro_release = rel_name r, ro_version = st_version (rel_status r),
      ro_template = rs_template (rel_spec r), ro_config = rs_config (rel_spec r),
      ro_suspend = rs_suspend (rel_spec r)\<rparr>"

definition apply_options_of :: "gvk list \<Rightarrow> release \<Rightarrow> apply_options" where
  "apply_options_of ignored r =
     \<lparr>ap_owners = Some (references_for_release r), ap_checker = Some (ignored_kind ignored)\<rparr>"

text \<open>From the resources on: apply them, record a new version, report success.\<close>

definition apply_manifests ::
  "'s release_ops \<Rightarrow> 's apply_env \<Rightarrow> release \<Rightarrow> string list \<Rightarrow> bool \<Rightarrow> ('s, unit) io" where
  "apply_manifests ops env r manifests post_update =
     or_record ops
       (ae_client_apply env (rel_namespace r) manifests (apply_options_of (ae_ignored env) r))
       (\<lambda>_. or_record ops
              (if post_update then bind_io (so_update ops r) (\<lambda>_. ret ()) else ret ())
              (\<lambda>_. bind_io (so_flush ops ReasonAvailable []) (\<lambda>_. ret ())))"

definition apply_release :: "'s release_ops \<Rightarrow> 's apply_env \<Rightarrow> release \<Rightarrow> ('s, unit) io" where
  "apply_release ops env r =
     (case rs_rollback_to (rel_spec r) of
        Some v \<Rightarrow>
          or_record ops (so_rollback ops v) (\<lambda>rel.
            apply_manifests ops env r (split_manifest (st_manifest (rel_status rel))) False)
      | None \<Rightarrow>
          or_record ops (so_histories ops) (\<lambda>hs.
            let r1 = r\<lparr>rel_status := (rel_status r)\<lparr>st_version := next_version r hs\<rparr>\<rparr>
            in or_record ops (ae_render env (render_options_of r1)) (\<lambda>root.
                 let manifests = tree_resources (ae_children env) root;
                     r2 = r1\<lparr>rel_status := (rel_status r1)\<lparr>st_manifest := merge_resources manifests\<rparr>\<rparr>
                 in apply_manifests ops env r2 manifests True)))"

section \<open>Versions\<close>

lemma find_version_Some: "find_version v hs = Some h \<Longrightarrow> h \<in> set hs \<and> h_version h = v"
  by (induction hs) (auto split: if_splits)

lemma find_version_None: "find_version v hs = None \<longleftrightarrow> (\<forall>h \<in> set hs. h_version h \<noteq> v)"
  by (induction hs) auto

text \<open>The history that is compared with the release.\<close>

definition current_history :: "release \<Rightarrow> history list \<Rightarrow> history" where
  "current_history r hs = (case find_version (st_version (rel_status r)) hs of None \<Rightarrow> hd hs | Some h \<Rightarrow> h)"

lemma current_history_mem: "hs \<noteq> [] \<Longrightarrow> current_history r hs \<in> set hs"
  by (auto simp: current_history_def dest: find_version_Some split: option.splits)

lemma next_version_cases:
  "hs \<noteq> [] \<Longrightarrow> next_version r hs =
     (if config_changed r (current_history r hs) then h_version (hd hs) + 1
      else h_version (current_history r hs))"
  by (cases hs) (auto simp: next_version_def current_history_def Let_def split: option.splits)

lemma versions_descend_hd:
  "versions_descend hs \<Longrightarrow> h \<in> set hs \<Longrightarrow> h_version h \<le>s h_version (hd hs)"
  by (cases hs) (auto simp: versions_descend_def)

lemma sint_plus_one: "sint (v :: int32) < 2 ^ 31 - 1 \<Longrightarrow> sint (v + 1) = sint v + 1"
  using sint_range_size[of v]
  by (simp add: sint_word_ariths signed_take_bit_int_eq_self word_size)

text \<open>A release that changed gets a version above all recorded ones, short of the largest int32.\<close>

lemma next_version_fresh:
  assumes "versions_descend hs" and "hs \<noteq> []" and "config_changed r (current_history r hs)"
    and "\<forall>h \<in> set hs. sint (h_version h) < 2 ^ 31 - 1" and "h \<in> set hs"
  shows "h_version h <s next_version r hs"
proof -
  have "hd hs \<in> set hs" using assms(2) by simp
  with assms(4) have "sint (h_version (hd hs) + 1) = sint (h_version (hd hs)) + 1"
    by (intro sint_plus_one) blast
  moreover have "sint (h_version h) \<le> sint (h_version (hd hs))"
    using versions_descend_hd[OF assms(1,5)] by (simp add: word_sle_eq)
  ultimately show ?thesis using assms(2,3) by (simp add: next_version_cases word_sless_alt)
qed

context release_backend
begin

text \<open>A backend that keeps the contract lists no history that the next version would clash with.\<close>

lemma histories_below_next:
  assumes "so_histories ops s = (Inr hs, s')" and "hs \<noteq> []" and "config_changed r (current_history r hs)"
    and "\<forall>h \<in> set hs. sint (h_version h) < 2 ^ 31 - 1"
  shows "\<forall>h \<in> set hs. owns_history (kept s) h \<and> h_version h <s next_version r hs"
  using histories_law[OF assms(1)] next_version_fresh[OF _ assms(2-4)] by blast

end

section \<open>What an apply does, in order\<close>

datatype apply_event =
    DidRollback int32 bool
  | DidHistories bool
  | DidRender render_options bool
  | DidApply string "string list" apply_options bool
  | DidUpdate release bool
  | DidFlush condition_reason string bool

definition is_ok :: "error + 'a \<Rightarrow> bool" where
  "is_ok r = (case r of Inl _ \<Rightarrow> False | Inr _ \<Rightarrow> True)"

lemma is_ok_simps [simp]: "\<not> is_ok (Inl e)" "is_ok (Inr x)"
  by (simp_all add: is_ok_def)

definition traced_ops :: "'s release_ops \<Rightarrow> ('s \<times> apply_event list) release_ops" where
  "traced_ops ops =
     \<lparr>so_rollback = (\<lambda>v. logged (\<lambda>r. DidRollback v (is_ok r)) (so_rollback ops v)),
      so_histories = logged (\<lambda>r. DidHistories (is_ok r)) (so_histories ops),
      so_update = (\<lambda>rel. logged (\<lambda>r. DidUpdate rel (is_ok r)) (so_update ops rel)),
      so_flush = (\<lambda>reason msg. logged (\<lambda>r. DidFlush reason msg (is_ok r)) (so_flush ops reason msg)),
      so_update_status = (\<lambda>f. quiet (so_update_status ops f))\<rparr>"

definition traced_apply :: "'s apply_env \<Rightarrow> ('s \<times> apply_event list) apply_env" where
  "traced_apply env =
     \<lparr>ae_client_apply = (\<lambda>ns ms opts. logged (\<lambda>r. DidApply ns ms opts (is_ok r)) (ae_client_apply env ns ms opts)),
      ae_render = (\<lambda>opts. logged (\<lambda>r. DidRender opts (is_ok r)) (ae_render env opts)),
      ae_children = ae_children env, ae_ignored = ae_ignored env\<rparr>"

text \<open>
  The one shape of a successful run, oldest event last: a new version is rendered, applied and only
  then recorded; a rollback is recorded first and then applied. Both end with \<open>Available\<close>.
\<close>

definition apply_succeeded :: "'s apply_env \<Rightarrow> release \<Rightarrow> apply_event list \<Rightarrow> bool" where
  "apply_succeeded env r log \<longleftrightarrow>
     (\<exists>ms. let opts = apply_options_of (ae_ignored env) r in
        (case rs_rollback_to (rel_spec r) of
           Some v \<Rightarrow>
             log = [DidFlush ReasonAvailable [] True, DidApply (rel_namespace r) ms opts True, DidRollback v True]
         | None \<Rightarrow>
             (\<exists>r' ro. rel_meta r' = rel_meta r \<and> rel_spec r' = rel_spec r \<and>
                st_manifest (rel_status r') = merge_resources ms \<and>
                ro_version ro = st_version (rel_status r') \<and>
                log = [DidFlush ReasonAvailable [] True, DidUpdate r' True,
                       DidApply (rel_namespace r) ms opts True, DidRender ro True, DidHistories True])))"

text \<open>A run that fails has tried to record the failure, or failed to report success; a panic aside.\<close>

definition apply_failed :: "error \<Rightarrow> apply_event list \<Rightarrow> bool" where
  "apply_failed e log \<longleftrightarrow>
     is_panic e \<or>
     (\<exists>msg ok rest. log = DidFlush ReasonFailure msg ok # rest \<and> (ok \<longrightarrow> error_text e = msg)) \<or>
     (\<exists>rest. log = DidFlush ReasonAvailable [] False # rest)"

lemma apply_failed_panic [simp]: "is_panic e \<Longrightarrow> apply_failed e log"
  by (simp add: apply_failed_def)

lemma apply_failedI:
  "(ok \<Longrightarrow> error_text e = msg) \<Longrightarrow> apply_failed e (DidFlush ReasonFailure msg ok # rest)"
  "apply_failed e (DidFlush ReasonAvailable [] False # rest)"
  by (auto simp: apply_failed_def)

lemma wp_record_error_traced:
  assumes "\<And>s' ok e. (ok \<longrightarrow> e = target) \<Longrightarrow> Q (Inl e) (s', DidFlush ReasonFailure (error_text target) ok # snd st)"
  shows "wp (record_error (traced_ops ops) target) Q st"
  using assms
  by (auto simp: record_error_def traced_ops_def wp_simps split: sum.splits intro!: wp_logged)

lemma wp_or_record_traced:
  assumes "\<And>s' x. wp (f x) Q (s', ev (Inr x) # snd st)"
    and "\<And>s' e e' msg ok. (ok \<longrightarrow> error_text e' = msg) \<Longrightarrow>
           Q (Inl e') (s', DidFlush ReasonFailure msg ok # ev (Inl e) # snd st)"
    and "\<And>s' e. is_panic e \<Longrightarrow> Q (Inl e) (s', ev (Inl e) # snd st)"
  shows "wp (or_record (traced_ops ops) (logged ev m) f) Q st"
  unfolding or_record_def wp_try
  by (rule wp_logged) (auto simp: assms split: sum.splits intro!: wp_record_error_traced assms(2))

lemma apply_manifests_traced:
  assumes "\<And>s'. Q (Inr ()) (s', DidFlush ReasonAvailable [] True #
             (if post then [DidUpdate r True] else []) @
             DidApply (rel_namespace r) ms (apply_options_of (ae_ignored env) r) True # snd st)"
    and "\<And>s' e log. apply_failed e log \<Longrightarrow> Q (Inl e) (s', log)"
  shows "wp (apply_manifests (traced_ops ops) (traced_apply env) r ms post) Q st"
proof -
  have flush: "wp (bind_io (so_flush (traced_ops ops) ReasonAvailable []) (\<lambda>_. ret ())) Q st1"
    if "\<And>s'. Q (Inr ()) (s', DidFlush ReasonAvailable [] True # snd st1)" for st1
    using that
    by (auto simp: traced_ops_def wp_simps split: sum.splits intro!: wp_logged assms(2) apply_failedI)
  have update: "wp (or_record (traced_ops ops) (bind_io (so_update (traced_ops ops) r) (\<lambda>_. ret ())) f) Q st1"
    if "\<And>s'. wp (f ()) Q (s', DidUpdate r True # snd st1)" for f st1
  proof -
    have ops: "so_update (traced_ops ops) r = logged (\<lambda>x. DidUpdate r (is_ok x)) (so_update ops r)"
      by (simp add: traced_ops_def)
    show ?thesis
      unfolding or_record_def ops wp_try wp_bind
      using that
      by (intro wp_logged)
        (auto simp: wp_simps split: sum.splits intro!: wp_record_error_traced assms(2) apply_failedI)
  qed
  show ?thesis
    unfolding apply_manifests_def traced_apply_def apply_env.simps
  proof (rule wp_or_record_traced, goal_cases)
    case (1 s' x)
    show ?case
    proof (cases post)
      case True
      then show ?thesis using update flush assms(1) by (auto simp:)
    next
      case False
      then show ?thesis using flush assms(1) by (auto simp: or_record_def wp_simps)
    qed
  qed (auto intro!: assms(2) apply_failedI)
qed

lemma apply_release_traced:
  "wp (apply_release (traced_ops ops) (traced_apply env) r)
     (\<lambda>res st. case res of Inr _ \<Rightarrow> apply_succeeded env r (snd st) | Inl e \<Rightarrow> apply_failed e (snd st)) (s, [])"
proof (cases "rs_rollback_to (rel_spec r)")
  case (Some v)
  have ops: "so_rollback (traced_ops ops) v = logged (\<lambda>r. DidRollback v (is_ok r)) (so_rollback ops v)"
    by (simp add: traced_ops_def)
  show ?thesis
    unfolding apply_release_def Some option.case ops
  proof (rule wp_or_record_traced, goal_cases)
    case (1 s' x)
    show ?case
      by (rule apply_manifests_traced) (auto simp: apply_succeeded_def Some Let_def)
  qed (auto intro!: apply_failedI)
next
  case None
  have ops: "so_histories (traced_ops ops) = logged (\<lambda>r. DidHistories (is_ok r)) (so_histories ops)"
    "\<And>opts. ae_render (traced_apply env) opts = logged (\<lambda>r. DidRender opts (is_ok r)) (ae_render env opts)"
    by (simp_all add: traced_ops_def traced_apply_def)
  show ?thesis
    unfolding apply_release_def None option.case ops(1)
  proof (rule wp_or_record_traced, goal_cases)
    case (1 s' hs)
    show ?case
      unfolding Let_def ops(2)
    proof (rule wp_or_record_traced, goal_cases)
      case (1 s'' root)
      show ?case
        by (rule apply_manifests_traced) (auto simp: apply_succeeded_def None Let_def render_options_of_def apply_options_of_def references_for_release_def)
    qed (auto intro!: apply_failedI)
  qed (auto intro!: apply_failedI)
qed

end
