(* ===== verification/Work_Queue.thy ===== *)
theory Work_Queue
  imports Prelude
begin

text \<open>
  The rate limited work queue of \<open>client-go/util/workqueue\<close> that the controllers and the release
  handler work from, and its contract. The delays of the rate limiter are not modelled: an item
  that is added with a delay waits, and may be added at any later moment.
\<close>

record 'k work_queue =
  wq_queue :: "'k list"
  wq_dirty :: "'k list"
  wq_processing :: "'k list"
  wq_shutting_down :: bool
  wq_failures :: "('k \<times> nat) list"
  wq_waiting :: "'k list"

definition new_work_queue :: "'k work_queue" where
  "new_work_queue =
     \<lparr>wq_queue = [], wq_dirty = [], wq_processing = [], wq_shutting_down = False,
      wq_failures = [], wq_waiting = []\<rparr>"

text \<open>Sets are lists without repetitions.\<close>

definition set_insert :: "'k \<Rightarrow> 'k list \<Rightarrow> 'k list" where
  "set_insert k ks = (if k \<in> set ks then ks else ks @ [k])"

definition wq_add :: "'k \<Rightarrow> 'k work_queue \<Rightarrow> 'k work_queue" where
  "wq_add k q =
     (if wq_shutting_down q then q
      else if k \<in> set (wq_dirty q) then q
      else let q' = q\<lparr>wq_dirty := set_insert k (wq_dirty q)\<rparr>
           in if k \<in> set (wq_processing q) then q' else q'\<lparr>wq_queue := wq_queue q' @ [k]\<rparr>)"

text \<open>\<open>Get\<close> when it does not block: \<open>None\<close> says that the queue is empty.\<close>

definition wq_get :: "'k work_queue \<Rightarrow> ('k \<times> 'k work_queue) option" where
  "wq_get q =
     (case wq_queue q of
        [] \<Rightarrow> None
      | k # ks \<Rightarrow>
          Some (k, q\<lparr>wq_queue := ks, wq_processing := set_insert k (wq_processing q),
                     wq_dirty := remove1 k (wq_dirty q)\<rparr>))"

definition wq_done :: "'k \<Rightarrow> 'k work_queue \<Rightarrow> 'k work_queue" where
  "wq_done k q =
     (let q' = q\<lparr>wq_processing := remove1 k (wq_processing q)\<rparr>
      in if k \<in> set (wq_dirty q') then q'\<lparr>wq_queue := wq_queue q' @ [k]\<rparr> else q')"

definition wq_shut_down :: "'k work_queue \<Rightarrow> 'k work_queue" where
  "wq_shut_down q = q\<lparr>wq_shutting_down := True\<rparr>"

definition wq_num_requeues :: "'k \<Rightarrow> 'k work_queue \<Rightarrow> nat" where
  "wq_num_requeues k q = (case map_of (wq_failures q) k of None \<Rightarrow> 0 | Some n \<Rightarrow> n)"

definition wq_forget :: "'k \<Rightarrow> 'k work_queue \<Rightarrow> 'k work_queue" where
  "wq_forget k q = q\<lparr>wq_failures := AList.delete k (wq_failures q)\<rparr>"

text \<open>\<open>AddRateLimited\<close> counts a failure and, unless the queue is shutting down, waits.\<close>

definition wq_add_rate_limited :: "'k \<Rightarrow> 'k work_queue \<Rightarrow> 'k work_queue" where
  "wq_add_rate_limited k q =
     (let q' = q\<lparr>wq_failures := AList.update k (wq_num_requeues k q + 1) (wq_failures q)\<rparr>
      in if wq_shutting_down q then q' else q'\<lparr>wq_waiting := wq_waiting q' @ [k]\<rparr>)"

text \<open>The delay of a waiting item ends.\<close>

definition wq_fire :: "'k \<Rightarrow> 'k work_queue \<Rightarrow> 'k work_queue" where
  "wq_fire k q = wq_add k (q\<lparr>wq_waiting := remove1 k (wq_waiting q)\<rparr>)"

section \<open>The contract\<close>

text \<open>
  \<open>pending\<close> are the items that still have to be processed, \<open>busy\<close> those that are being processed.
  An item is handed out only when it is pending and not busy; what is added stays pending until it
  is handed out, also when it is added while it is busy.
\<close>

locale queue_contract =
  fixes ok :: "'q \<Rightarrow> bool" and closed :: "'q \<Rightarrow> bool"
    and pending :: "'q \<Rightarrow> 'k set" and busy :: "'q \<Rightarrow> 'k set"
    and add :: "'k \<Rightarrow> 'q \<Rightarrow> 'q" and get :: "'q \<Rightarrow> ('k \<times> 'q) option" and finish :: "'k \<Rightarrow> 'q \<Rightarrow> 'q"
  assumes add_law:
      "ok q \<Longrightarrow> ok (add k q) \<and> busy (add k q) = busy q \<and> closed (add k q) = closed q \<and>
         pending (add k q) = (if closed q then pending q else insert k (pending q))"
    and get_law:
      "ok q \<Longrightarrow> get q = Some (k, q') \<Longrightarrow>
         ok q' \<and> k \<in> pending q \<and> k \<notin> busy q \<and> pending q' = pending q - {k} \<and>
         busy q' = insert k (busy q) \<and> closed q' = closed q"
    and get_none: "ok q \<Longrightarrow> get q = None \<Longrightarrow> pending q \<subseteq> busy q"
    and finish_law:
      "ok q \<Longrightarrow> k \<in> busy q \<Longrightarrow>
         ok (finish k q) \<and> pending (finish k q) = pending q \<and> busy (finish k q) = busy q - {k} \<and>
         closed (finish k q) = closed q"
begin

text \<open>What is added during a round of work is handed out again after it.\<close>

lemma added_while_busy:
  assumes "ok q" and "get q = Some (k, q1)" and "\<not> closed q"
  shows "k \<in> pending (finish k (add k q1))" and "k \<notin> busy (finish k (add k q1))"
proof -
  have q1: "ok q1" "busy q1 = insert k (busy q)" "closed q1 = closed q"
    using get_law[OF assms(1,2)] by auto
  have q2: "ok (add k q1)" "k \<in> busy (add k q1)" "k \<in> pending (add k q1)"
    using add_law[OF q1(1), of k] q1 assms(3) by auto
  show "k \<in> pending (finish k (add k q1))" "k \<notin> busy (finish k (add k q1))"
    using finish_law[OF q2(1,2)] q2(3) by auto
qed

lemma get_progress:
  assumes "ok q" and "k \<in> pending q" and "k \<notin> busy q"
  shows "get q \<noteq> None"
  using get_none[OF assms(1)] assms(2,3) by blast

end

section \<open>The queue honours it\<close>

definition wq_ok :: "'k work_queue \<Rightarrow> bool" where
  "wq_ok q \<longleftrightarrow>
     distinct (wq_queue q) \<and> distinct (wq_dirty q) \<and> distinct (wq_processing q) \<and>
     set (wq_queue q) = set (wq_dirty q) - set (wq_processing q)"

lemma wq_ok_new [simp]: "wq_ok new_work_queue"
  by (simp add: wq_ok_def new_work_queue_def)

lemma wq_ok_frame [simp]:
  "wq_ok (q\<lparr>wq_failures := f\<rparr>) = wq_ok q" "wq_ok (q\<lparr>wq_waiting := w\<rparr>) = wq_ok q"
  "wq_ok (q\<lparr>wq_shutting_down := b\<rparr>) = wq_ok q"
  by (simp_all add: wq_ok_def)

lemma wq_get_law:
  assumes "wq_ok q" and "wq_get q = Some (k, q')"
  shows "wq_ok q' \<and> k \<in> set (wq_dirty q) \<and> k \<notin> set (wq_processing q) \<and>
      set (wq_dirty q') = set (wq_dirty q) - {k} \<and> set (wq_processing q') = insert k (set (wq_processing q)) \<and>
      wq_shutting_down q' = wq_shutting_down q"
proof -
  from assms(2) obtain ks where ks: "wq_queue q = k # ks"
    and q': "q' = q\<lparr>wq_queue := ks, wq_processing := set_insert k (wq_processing q),
                     wq_dirty := remove1 k (wq_dirty q)\<rparr>"
    by (auto simp: wq_get_def split: list.splits)
  from assms(1) ks have dist: "k \<notin> set ks" "distinct ks" "distinct (wq_dirty q)" "distinct (wq_processing q)"
    and sets: "insert k (set ks) = set (wq_dirty q) - set (wq_processing q)"
    by (simp_all add: wq_ok_def)
  from sets have k: "k \<in> set (wq_dirty q)" "k \<notin> set (wq_processing q)" by blast+
  have "set ks = (set (wq_dirty q) - {k}) - insert k (set (wq_processing q))"
    using sets dist(1) k by blast
  with dist k show ?thesis
    by (simp add: q' wq_ok_def set_insert_def)
qed

interpretation wq: queue_contract wq_ok wq_shutting_down "\<lambda>q. set (wq_dirty q)" "\<lambda>q. set (wq_processing q)"
  wq_add wq_get wq_done
proof
  fix q :: "'k work_queue" and k q'
  show "wq_ok q \<Longrightarrow> wq_ok (wq_add k q) \<and> set (wq_processing (wq_add k q)) = set (wq_processing q) \<and>
      wq_shutting_down (wq_add k q) = wq_shutting_down q \<and>
      set (wq_dirty (wq_add k q)) =
        (if wq_shutting_down q then set (wq_dirty q) else insert k (set (wq_dirty q)))"
    by (auto simp: wq_ok_def wq_add_def set_insert_def Let_def)
  show "wq_ok q \<Longrightarrow> wq_get q = Some (k, q') \<Longrightarrow>
      wq_ok q' \<and> k \<in> set (wq_dirty q) \<and> k \<notin> set (wq_processing q) \<and>
      set (wq_dirty q') = set (wq_dirty q) - {k} \<and> set (wq_processing q') = insert k (set (wq_processing q)) \<and>
      wq_shutting_down q' = wq_shutting_down q"
    by (rule wq_get_law)
  show "wq_ok q \<Longrightarrow> wq_get q = None \<Longrightarrow> set (wq_dirty q) \<subseteq> set (wq_processing q)"
    by (auto simp: wq_ok_def wq_get_def split: list.splits)
  show "wq_ok q \<Longrightarrow> k \<in> set (wq_processing q) \<Longrightarrow>
      wq_ok (wq_done k q) \<and> set (wq_dirty (wq_done k q)) = set (wq_dirty q) \<and>
      set (wq_processing (wq_done k q)) = set (wq_processing q) - {k} \<and>
      wq_shutting_down (wq_done k q) = wq_shutting_down q"
    by (auto simp: wq_ok_def wq_done_def Let_def)
qed

lemma wq_ok_ops [simp]:
  "wq_ok q \<Longrightarrow> wq_ok (wq_add k q)" "wq_ok q \<Longrightarrow> wq_ok (wq_forget k q)"
  "wq_ok q \<Longrightarrow> wq_ok (wq_add_rate_limited k q)" "wq_ok q \<Longrightarrow> wq_ok (wq_fire k q)"
  "wq_ok q \<Longrightarrow> wq_ok (wq_shut_down q)"
  by (auto simp: wq_forget_def wq_add_rate_limited_def wq_fire_def wq_shut_down_def Let_def
      intro: wq.add_law[THEN conjunct1])

lemma wq_num_requeues_simps [simp]:
  "wq_num_requeues k (wq_add j q) = wq_num_requeues k q"
  "wq_num_requeues k (wq_done j q) = wq_num_requeues k q"
  "wq_num_requeues k (wq_fire j q) = wq_num_requeues k q"
  "wq_num_requeues k (wq_forget k q) = 0"
  "wq_num_requeues k (wq_add_rate_limited k q) = wq_num_requeues k q + 1"
  by (auto simp: wq_num_requeues_def wq_add_def wq_done_def wq_fire_def wq_forget_def
      wq_add_rate_limited_def Let_def update_conv' delete_conv' split: option.splits)

end
