(* ===== verification/Release_Handler.thy ===== *)
theory Release_Handler
  imports Work_Queue Kube_Objects
begin

text \<open>
  \<open>pkg/release/handler.go\<close> and \<open>release.go\<close>: the loop that applies the releases it receives and
  retries failures, and the manager that keeps one handler per release.

  The loop and its worker goroutine are a step relation: each step is one event of the receiving
  loop, of the worker, or of the retry queue. Which steps come in which order is left open. The
  outcome of an apply is an event, since \<open>applyRelease\<close> is modelled on its own.
\<close>

section \<open>The handler loop\<close>

definition normal_condition :: "release \<Rightarrow> bool" where
  "normal_condition r =
     (case st_conditions (rel_status r) of [] \<Rightarrow> False | c # _ \<Rightarrow> co_type c \<noteq> ReleaseFailure)"

text \<open>The test of the receiving loop: is a received release to be applied?\<close>

definition must_apply :: "release option \<Rightarrow> release \<Rightarrow> bool" where
  "must_apply target r =
     (\<not> (case target of
            None \<Rightarrow> False
          | Some t \<Rightarrow>
              rs_rollback_to (rel_spec r) = None \<and> rs_config (rel_spec t) = rs_config (rel_spec r) \<and>
              rs_suspend (rel_spec t) = rs_suspend (rel_spec r) \<and>
              rs_template (rel_spec t) = rs_template (rel_spec r) \<and> normal_condition r))"

record loop_state =
  lp_target :: "release option"
  lp_queue :: "string work_queue"
  lp_applying :: "release option"
  lp_stopped :: bool

definition new_loop :: loop_state where
  "new_loop = \<lparr>lp_target = None, lp_queue = new_work_queue, lp_applying = None, lp_stopped = False\<rparr>"

datatype loop_event =
    Received release
  | Started release
  | Succeeded
  | Failed
  | Fired
  | Stopped

definition loop_receive :: "release \<Rightarrow> loop_state \<Rightarrow> loop_state" where
  "loop_receive r s =
     (if must_apply (lp_target s) r
      then s\<lparr>lp_target := Some r, lp_queue := wq_add (rel_name r) (wq_forget (rel_name r) (lp_queue s))\<rparr>
      else s)"

text \<open>What the worker does with the queue after an apply that succeeded, and after one that failed.\<close>

definition after_success :: "string \<Rightarrow> string work_queue \<Rightarrow> string work_queue" where
  "after_success nm q = wq_done nm (wq_forget nm q)"

definition after_failure :: "string \<Rightarrow> string work_queue \<Rightarrow> string work_queue" where
  "after_failure nm q =
     wq_done nm (if wq_num_requeues nm q < 3 then wq_add_rate_limited nm q else q)"

inductive loop_step :: "loop_event \<Rightarrow> loop_state \<Rightarrow> loop_state \<Rightarrow> bool" where
  receive: "\<not> lp_stopped s \<Longrightarrow> loop_step (Received r) s (loop_receive r s)"
| start:
    "lp_applying s = None \<Longrightarrow> wq_get (lp_queue s) = Some (k, q) \<Longrightarrow> lp_target s = Some t \<Longrightarrow>
       loop_step (Started t) s (s\<lparr>lp_queue := q, lp_applying := Some t\<rparr>)"
| succeed:
    "lp_applying s = Some t \<Longrightarrow> lp_target s = Some t' \<Longrightarrow>
       loop_step Succeeded s
         (s\<lparr>lp_queue := after_success (rel_name t') (lp_queue s), lp_applying := None\<rparr>)"
| failed:
    "lp_applying s = Some t \<Longrightarrow> lp_target s = Some t' \<Longrightarrow>
       loop_step Failed s
         (s\<lparr>lp_queue := after_failure (rel_name t') (lp_queue s), lp_applying := None\<rparr>)"
| fire:
    "k \<in> set (wq_waiting (lp_queue s)) \<Longrightarrow> \<not> wq_shutting_down (lp_queue s) \<Longrightarrow>
       loop_step Fired s (s\<lparr>lp_queue := wq_fire k (lp_queue s)\<rparr>)"
| stop: "loop_step Stopped s (s\<lparr>lp_stopped := True, lp_queue := wq_shut_down (lp_queue s)\<rparr>)"

inductive loop_steps :: "loop_event list \<Rightarrow> loop_state \<Rightarrow> loop_state \<Rightarrow> bool" where
  none: "loop_steps [] s s"
| step: "loop_step e s s' \<Longrightarrow> loop_steps es s' s'' \<Longrightarrow> loop_steps (e # es) s s''"

inductive_cases loop_steps_NilE [elim!]: "loop_steps [] s s'"
inductive_cases loop_steps_ConsE: "loop_steps (e # es) s s'"
inductive_simps received_simps: "loop_step (Received r) s s'"
inductive_simps started_simps: "loop_step (Started t) s s'"
inductive_simps succeeded_simps: "loop_step Succeeded s s'"
inductive_simps failed_simps: "loop_step Failed s s'"
inductive_simps fired_simps: "loop_step Fired s s'"
inductive_simps stopped_simps: "loop_step Stopped s s'"

lemmas loop_step_simps =
  received_simps started_simps succeeded_simps failed_simps fired_simps stopped_simps

section \<open>The loop works on one release\<close>

text \<open>All releases a handler receives have one name, the only key of its queue.\<close>

definition only_key :: "string \<Rightarrow> string work_queue \<Rightarrow> bool" where
  "only_key nm q \<longleftrightarrow>
     set (wq_queue q) \<subseteq> {nm} \<and> set (wq_dirty q) \<subseteq> {nm} \<and> set (wq_processing q) \<subseteq> {nm} \<and>
     set (wq_waiting q) \<subseteq> {nm}"

definition loop_ok :: "string \<Rightarrow> loop_state \<Rightarrow> bool" where
  "loop_ok nm s \<longleftrightarrow>
     wq_ok (lp_queue s) \<and> only_key nm (lp_queue s) \<and>
     (\<forall>t. lp_target s = Some t \<longrightarrow> rel_name t = nm) \<and>
     (lp_target s = None \<longrightarrow> wq_dirty (lp_queue s) = [] \<and> wq_waiting (lp_queue s) = []) \<and>
     (lp_applying s \<noteq> None \<longleftrightarrow> nm \<in> set (wq_processing (lp_queue s))) \<and>
     (lp_applying s \<noteq> None \<longrightarrow> lp_target s \<noteq> None)"

definition event_ok :: "string \<Rightarrow> loop_event \<Rightarrow> bool" where
  "event_ok nm e = (case e of Received r \<Rightarrow> rel_name r = nm | _ \<Rightarrow> True)"

lemma loop_ok_new: "loop_ok nm new_loop"
  by (simp add: loop_ok_def new_loop_def only_key_def) (simp add: new_work_queue_def)

lemma only_key_ops:
  "only_key nm q \<Longrightarrow> only_key nm (wq_add nm q)"
  "only_key nm q \<Longrightarrow> only_key nm (wq_forget nm q)"
  "only_key nm q \<Longrightarrow> only_key nm (wq_done nm q)"
  "only_key nm q \<Longrightarrow> only_key nm (wq_add_rate_limited nm q)"
  "only_key nm q \<Longrightarrow> only_key nm (wq_shut_down q)"
  by (auto simp: only_key_def wq_add_def wq_forget_def wq_done_def wq_add_rate_limited_def
      wq_shut_down_def set_insert_def Let_def dest: notin_set_remove1 in_set_remove1 set_mp[OF set_remove1_subset])

lemma wq_proj_simps [simp]:
  "wq_processing (wq_add k q) = wq_processing q" "wq_waiting (wq_add k q) = wq_waiting q"
  "wq_dirty (wq_forget k q) = wq_dirty q" "wq_processing (wq_forget k q) = wq_processing q"
  "wq_waiting (wq_forget k q) = wq_waiting q" "wq_shutting_down (wq_forget k q) = wq_shutting_down q"
  "wq_dirty (wq_done k q) = wq_dirty q" "wq_processing (wq_done k q) = remove1 k (wq_processing q)"
  "wq_waiting (wq_done k q) = wq_waiting q"
  "wq_dirty (wq_add_rate_limited k q) = wq_dirty q"
  "wq_processing (wq_add_rate_limited k q) = wq_processing q"
  "wq_dirty (wq_shut_down q) = wq_dirty q" "wq_processing (wq_shut_down q) = wq_processing q"
  "wq_waiting (wq_shut_down q) = wq_waiting q"
  by (auto simp: wq_add_def wq_forget_def wq_done_def wq_add_rate_limited_def wq_shut_down_def Let_def)

lemma only_key_fire: "only_key nm q \<Longrightarrow> k \<in> set (wq_waiting q) \<Longrightarrow> only_key nm (wq_fire k q)"
proof -
  assume only: "only_key nm q" and k: "k \<in> set (wq_waiting q)"
  then have "k = nm" by (auto simp: only_key_def)
  have "only_key nm (q\<lparr>wq_waiting := remove1 k (wq_waiting q)\<rparr>)"
    using only set_remove1_subset[of k "wq_waiting q"] by (auto simp: only_key_def)
  with \<open>k = nm\<close> show ?thesis by (simp add: wq_fire_def only_key_ops)
qed

lemma only_key_get: "only_key nm q \<Longrightarrow> wq_get q = Some (k, q') \<Longrightarrow> k = nm \<and> only_key nm q'"
  using set_remove1_subset[of k "wq_dirty q"]
  by (auto simp: only_key_def wq_get_def set_insert_def split: list.splits if_splits)

lemma wq_done_ok: "wq_ok q \<Longrightarrow> k \<in> set (wq_processing q) \<Longrightarrow> wq_ok (wq_done k q)"
  using wq.finish_law[of q k] by simp

lemma processing_gone: "wq_ok q \<Longrightarrow> k \<notin> set (remove1 k (wq_processing q))"
  by (simp add: wq_ok_def)

lemma after_ops_ok:
  assumes "wq_ok q" and "only_key nm q" and "nm \<in> set (wq_processing q)"
  shows "wq_ok (after_success nm q)" "only_key nm (after_success nm q)"
    "nm \<notin> set (wq_processing (after_success nm q))"
    "wq_ok (after_failure nm q)" "only_key nm (after_failure nm q)"
    "nm \<notin> set (wq_processing (after_failure nm q))"
  using assms processing_gone[of q nm]
  by (simp_all add: after_success_def after_failure_def wq_done_ok only_key_ops)

lemma wq_get_frame:
  "wq_get q = Some (k, q') \<Longrightarrow> wq_waiting q' = wq_waiting q \<and> wq_failures q' = wq_failures q"
  by (auto simp: wq_get_def split: list.splits)

lemma loop_step_ok:
  assumes ok: "loop_ok nm s" and e: "event_ok nm e" and step: "loop_step e s s'"
  shows "loop_ok nm s'"
  using step
proof cases
  case (receive r)
  have "rel_name r = nm" using e receive by (simp add: event_ok_def)
  with ok receive show ?thesis by (simp add: loop_ok_def loop_receive_def only_key_ops)
next
  case (start k q t)
  have k: "k = nm" "only_key nm q"
    using ok start(4) only_key_get unfolding loop_ok_def by blast+
  have q: "wq_ok q" "nm \<in> set (wq_processing q)"
    using ok wq_get_law[of "lp_queue s" k q] start(4) k(1) by (auto simp: loop_ok_def)
  with ok start k show ?thesis by (simp add: loop_ok_def)
next
  case (succeed t t')
  have "nm \<in> set (wq_processing (lp_queue s))" "rel_name t' = nm"
    using ok succeed by (auto simp: loop_ok_def)
  with ok succeed after_ops_ok[of "lp_queue s" nm] show ?thesis by (simp add: loop_ok_def)
next
  case (failed t t')
  have "nm \<in> set (wq_processing (lp_queue s))" "rel_name t' = nm"
    using ok failed by (auto simp: loop_ok_def)
  with ok failed after_ops_ok[of "lp_queue s" nm] show ?thesis by (simp add: loop_ok_def)
next
  case (fire k)
  have "lp_target s \<noteq> None" using ok fire by (auto simp: loop_ok_def)
  moreover have "wq_processing (wq_fire k (lp_queue s)) = wq_processing (lp_queue s)"
    by (simp add: wq_fire_def)
  ultimately show ?thesis using ok fire only_key_fire by (auto simp: loop_ok_def)
next
  case stop
  with ok show ?thesis by (simp add: loop_ok_def only_key_ops)
qed

lemma loop_steps_ok:
  "loop_steps es s s' \<Longrightarrow> loop_ok nm s \<Longrightarrow> (\<forall>e \<in> set es. event_ok nm e) \<Longrightarrow> loop_ok nm s'"
  by (induction rule: loop_steps.induct) (auto intro: loop_step_ok)

text \<open>The queue is shut down exactly when the loop has stopped.\<close>

lemma shutting_down_simps:
  "wq_shutting_down (wq_add k q) = wq_shutting_down q" "wq_shutting_down (wq_done k q) = wq_shutting_down q"
  "wq_shutting_down (wq_add_rate_limited k q) = wq_shutting_down q"
  "wq_get q = Some (k, q') \<Longrightarrow> wq_shutting_down q' = wq_shutting_down q"
  by (auto simp: wq_add_def wq_done_def wq_add_rate_limited_def wq_get_def Let_def split: list.splits)

lemma loop_step_closed:
  assumes "loop_step e s s'" and "wq_shutting_down (lp_queue s) = lp_stopped s"
  shows "wq_shutting_down (lp_queue s') = lp_stopped s'"
  using assms
  by cases (auto simp: loop_receive_def after_success_def after_failure_def wq_fire_def wq_shut_down_def
      shutting_down_simps)

lemma loop_steps_closed:
  "loop_steps es s s' \<Longrightarrow> wq_shutting_down (lp_queue s) = lp_stopped s \<Longrightarrow>
     wq_shutting_down (lp_queue s') = lp_stopped s'"
  by (induction rule: loop_steps.induct) (auto dest: loop_step_closed)

section \<open>Retries end\<close>

text \<open>What is left to do for a release: the retries it still has, its pending run, its waiting runs.\<close>

definition work_left :: "string \<Rightarrow> loop_state \<Rightarrow> nat" where
  "work_left nm s =
     (3 - wq_num_requeues nm (lp_queue s)) + (if nm \<in> set (wq_dirty (lp_queue s)) then 1 else 0) +
     length (wq_waiting (lp_queue s))"

definition is_started :: "loop_event \<Rightarrow> bool" where
  "is_started e = (case e of Started _ \<Rightarrow> True | _ \<Rightarrow> False)"

definition no_news :: "loop_event \<Rightarrow> bool" where
  "no_news e = (case e of Received _ \<Rightarrow> False | Succeeded \<Rightarrow> False | _ \<Rightarrow> True)"

lemma failure_work:
  "wq_num_requeues nm q < 3 \<Longrightarrow>
     length (wq_waiting (after_failure nm q)) \<le> Suc (length (wq_waiting q)) \<and>
     wq_num_requeues nm (after_failure nm q) = Suc (wq_num_requeues nm q)"
  by (simp add: after_failure_def) (simp add: wq_add_rate_limited_def Let_def)

lemma wq_requeues_get: "wq_get q = Some (k, q') \<Longrightarrow> wq_num_requeues nm q' = wq_num_requeues nm q"
  by (auto simp: wq_num_requeues_def dest!: wq_get_frame)

lemma work_left_step:
  assumes ok: "loop_ok nm s" and step: "loop_step e s s'" and e: "no_news e"
  shows "work_left nm s' + (if is_started e then 1 else 0) \<le> work_left nm s"
  using step
proof cases
  case (receive r)
  with e show ?thesis by (simp add: no_news_def)
next
  case (start k q t)
  have "k = nm" using ok start(4) only_key_get unfolding loop_ok_def by blast
  with wq_get_law[of "lp_queue s" k q] ok start(4) wq_get_frame[OF start(4)] wq_requeues_get[OF start(4)]
  show ?thesis by (simp add: start work_left_def is_started_def loop_ok_def)
next
  case (succeed t t')
  with e show ?thesis by (simp add: no_news_def)
next
  case (failed t t')
  have nm: "rel_name t' = nm" using ok failed by (auto simp: loop_ok_def)
  have dirty: "wq_dirty (after_failure nm (lp_queue s)) = wq_dirty (lp_queue s)"
    by (simp add: after_failure_def)
  show ?thesis
  proof (cases "wq_num_requeues nm (lp_queue s) < 3")
    case True
    have "3 - wq_num_requeues nm (after_failure nm (lp_queue s)) + length (wq_waiting (after_failure nm (lp_queue s)))
        \<le> 3 - wq_num_requeues nm (lp_queue s) + length (wq_waiting (lp_queue s))"
      using failure_work[OF True] True by linarith
    with nm dirty show ?thesis
      by (simp add: failed work_left_def is_started_def)
  next
    case False
    with nm dirty show ?thesis
      by (simp add: failed work_left_def is_started_def after_failure_def)
  qed
next
  case (fire k)
  have k: "k = nm" using ok fire by (auto simp: loop_ok_def only_key_def)
  have "length (wq_waiting (wq_fire nm (lp_queue s))) + 1 = length (wq_waiting (lp_queue s))"
    using fire k by (simp add: wq_fire_def length_remove1) (metis Suc_pred length_pos_if_in_set)
  with k show ?thesis by (simp add: fire work_left_def is_started_def)
next
  case stop
  then show ?thesis
    by (simp add: work_left_def is_started_def wq_shut_down_def wq_num_requeues_def)
qed

lemma work_left_steps:
  "loop_steps es s s' \<Longrightarrow> loop_ok nm s \<Longrightarrow> (\<forall>e \<in> set es. no_news e) \<Longrightarrow>
     work_left nm s' + length (filter is_started es) \<le> work_left nm s"
proof (induction rule: loop_steps.induct)
  case (step e s s' es s'')
  have "event_ok nm e" using step.prems(2) by (auto simp: no_news_def event_ok_def split: loop_event.splits)
  with step loop_step_ok[OF step.prems(1) _ step.hyps(1)] work_left_step[OF step.prems(1) step.hyps(1)]
  show ?case by fastforce
qed simp

section \<open>The newest release is applied\<close>

lemma pending_kept:
  assumes ok: "loop_ok nm s" and p: "nm \<in> set (wq_dirty (lp_queue s))" "lp_target s = Some r"
    and step: "loop_step e s s'" and e: "\<not> is_started e" "\<And>x. e \<noteq> Received x"
  shows "nm \<in> set (wq_dirty (lp_queue s')) \<and> lp_target s' = Some r"
  using step
proof cases
  case (fire k)
  with p show ?thesis by (simp add: wq_fire_def wq_add_def set_insert_def Let_def)
qed (use p e in \<open>auto simp: is_started_def after_success_def after_failure_def\<close>)

lemma pending_kept_steps:
  "loop_steps es s s' \<Longrightarrow> loop_ok nm s \<Longrightarrow> nm \<in> set (wq_dirty (lp_queue s)) \<Longrightarrow> lp_target s = Some r \<Longrightarrow>
     (\<forall>e \<in> set es. \<not> is_started e \<and> (\<forall>x. e \<noteq> Received x)) \<Longrightarrow>
     loop_ok nm s' \<and> nm \<in> set (wq_dirty (lp_queue s')) \<and> lp_target s' = Some r"
proof (induction rule: loop_steps.induct)
  case (step e s s' es s'')
  have "event_ok nm e" using step.prems(4) by (cases e) (auto simp: event_ok_def)
  then have "loop_ok nm s'" by (rule loop_step_ok[OF step.prems(1) _ step.hyps(1)])
  with pending_kept[OF step.prems(1-3) step.hyps(1)] step show ?case by simp
qed simp

lemma pending_starts:
  assumes ok: "loop_ok nm s" and p: "nm \<in> set (wq_dirty (lp_queue s))" "lp_target s = Some r"
    and idle: "lp_applying s = None"
  shows "\<exists>s'. loop_step (Started r) s s'"
proof -
  have "nm \<notin> set (wq_processing (lp_queue s))" using ok idle by (simp add: loop_ok_def)
  then have "wq_get (lp_queue s) \<noteq> None"
    using wq.get_progress[of "lp_queue s" nm] ok p(1) by (simp add: loop_ok_def)
  then obtain k q where "wq_get (lp_queue s) = Some (k, q)" by auto
  from loop_step.start[OF idle this p(2)] show ?thesis by blast
qed

section \<open>The manager\<close>

text \<open>
  A handler of the manager: its channel of capacity 10, whether its goroutine has been started
  (\<open>cancel\<close> is set), and whether it was canceled. \<open>mg_live\<close> lists the keys of the goroutines that
  were started and not canceled.
\<close>

record release_handler =
  rh_channel :: "release list"
  rh_started :: bool
  rh_canceled :: bool

record release_manager =
  mg_handlers :: "(string \<times> release_handler) list"
  mg_running :: bool
  mg_live :: "string list"

definition new_release_manager :: release_manager where
  "new_release_manager = \<lparr>mg_handlers = [], mg_running = False, mg_live = []\<rparr>"

definition key_for_name :: "string \<Rightarrow> string \<Rightarrow> string" where
  "key_for_name ns nm = ns @ ''/'' @ nm"

definition new_release_handler :: release_handler where
  "new_release_handler = \<lparr>rh_channel = [], rh_started = False, rh_canceled = False\<rparr>"

definition manager_run :: "release_manager \<Rightarrow> release_manager" where
  "manager_run m = (if mg_running m then m else m\<lparr>mg_running := True\<rparr>)"

definition channel_capacity :: nat where
  "channel_capacity = 10"

text \<open>
  \<open>Enqueue\<close>; \<open>None\<close> says that the send blocks. The flag tells whether a goroutine is started.
\<close>

definition enqueue :: "release \<Rightarrow> release_handler \<Rightarrow> ((error + bool) \<times> release_handler) option" where
  "enqueue r h =
     (if rh_canceled h
      then Some (Inl (Errorf ''can't enqueue an obj to a canceled handler''), h)
      else if length (rh_channel h) \<ge> channel_capacity then None
      else let h' = h\<lparr>rh_channel := rh_channel h @ [r]\<rparr>
           in if rh_started h' then Some (Inr False, h')
              else Some (Inr True, h'\<lparr>rh_started := True\<rparr>))"

definition manager_trigger :: "release \<Rightarrow> release_manager \<Rightarrow> ((error + unit) \<times> release_manager) option" where
  "manager_trigger r m =
     (if \<not> mg_running m then Some (Inl (Errorf ''release manager does not run''), m)
      else
        let key = key_for_name (rel_namespace r) (rel_name r);
            h = (case map_of (mg_handlers m) key of None \<Rightarrow> new_release_handler | Some h \<Rightarrow> h)
        in case enqueue r h of
             None \<Rightarrow> None
           | Some (res, h') \<Rightarrow>
               (let m' = m\<lparr>mg_handlers := AList.update key h' (mg_handlers m)\<rparr>
                in case res of
                     Inl e \<Rightarrow> Some (Inl e, m')
                   | Inr True \<Rightarrow> Some (Inr (), m'\<lparr>mg_live := mg_live m' @ [key]\<rparr>)
                   | Inr False \<Rightarrow> Some (Inr (), m')))"

text \<open>\<open>Stop\<close> calls \<open>cancel\<close>, which is nil until a goroutine was started.\<close>

definition stop_handler :: "release_handler \<Rightarrow> (error + bool) \<times> release_handler" where
  "stop_handler h =
     (if rh_canceled h then (Inr False, h)
      else if \<not> rh_started h then (Inl (Panic ''nil function call''), h\<lparr>rh_canceled := True\<rparr>)
      else (Inr True, h\<lparr>rh_canceled := True\<rparr>))"

definition manager_delete :: "string \<Rightarrow> string \<Rightarrow> release_manager \<Rightarrow> (error + unit) \<times> release_manager" where
  "manager_delete ns nm m =
     (if \<not> mg_running m then (Inl (Errorf ''release manager does not run''), m)
      else
        let key = key_for_name ns nm
        in case map_of (mg_handlers m) key of
             None \<Rightarrow> (Inl (Errorf (''no existing resource for '' @ key)), m)
           | Some h \<Rightarrow>
               (let m' = m\<lparr>mg_handlers := AList.delete key (mg_handlers m)\<rparr>
                in case stop_handler h of
                     (Inl e, _) \<Rightarrow> (Inl e, m')
                   | (Inr stopped, _) \<Rightarrow>
                       (Inr (), if stopped then m'\<lparr>mg_live := remove1 key (mg_live m')\<rparr> else m')))"

text \<open>The handler of a key takes a release out of its channel.\<close>

definition manager_take :: "string \<Rightarrow> release_manager \<Rightarrow> (release \<times> release_manager) option" where
  "manager_take key m =
     (case map_of (mg_handlers m) key of
        None \<Rightarrow> None
      | Some h \<Rightarrow>
          (case rh_channel h of
             [] \<Rightarrow> None
           | r # rs \<Rightarrow>
               Some (r, m\<lparr>mg_handlers := AList.update key (h\<lparr>rh_channel := rs\<rparr>) (mg_handlers m)\<rparr>)))"

section \<open>One live handler per release\<close>

definition manager_ok :: "release_manager \<Rightarrow> bool" where
  "manager_ok m \<longleftrightarrow>
     distinct (mg_live m) \<and> distinct (map fst (mg_handlers m)) \<and>
     set (mg_live m) = fst ` set (mg_handlers m) \<and>
     (\<forall>key h. map_of (mg_handlers m) key = Some h \<longrightarrow>
        rh_started h \<and> \<not> rh_canceled h \<and> length (rh_channel h) \<le> channel_capacity \<and>
        (\<forall>r \<in> set (rh_channel h). key_for_name (rel_namespace r) (rel_name r) = key))"

lemma manager_ok_new: "manager_ok new_release_manager"
  by (simp add: manager_ok_def new_release_manager_def)

lemma manager_ok_run: "manager_ok m \<Longrightarrow> manager_ok (manager_run m)"
  by (simp add: manager_ok_def manager_run_def)

lemma manager_ok_trigger:
  assumes ok: "manager_ok m" and tr: "manager_trigger r m = Some (res, m')"
  shows "manager_ok m'"
proof (cases "mg_running m")
  case False
  with ok tr show ?thesis by (simp add: manager_trigger_def)
next
  case True
  let ?key = "key_for_name (rel_namespace r) (rel_name r)"
  show ?thesis
  proof (cases "map_of (mg_handlers m) ?key")
    case None
    have m': "m' = m\<lparr>mg_handlers := AList.update ?key
                 \<lparr>rh_channel = [r], rh_started = True, rh_canceled = False\<rparr> (mg_handlers m),
               mg_live := mg_live m @ [?key]\<rparr>"
      using tr True None
      by (simp add: manager_trigger_def enqueue_def new_release_handler_def channel_capacity_def Let_def)
    from ok None show ?thesis
      by (auto simp: m' manager_ok_def distinct_update dom_update update_conv' map_of_in_dom
          channel_capacity_def)
  next
    case (Some h)
    with ok have h: "rh_started h" "\<not> rh_canceled h" "length (rh_channel h) \<le> channel_capacity"
      "\<forall>x \<in> set (rh_channel h). key_for_name (rel_namespace x) (rel_name x) = ?key"
      unfolding manager_ok_def by blast+
    have lt: "length (rh_channel h) < channel_capacity"
      using tr True Some h(2) by (auto simp: manager_trigger_def enqueue_def Let_def split: if_splits)
    have m': "m' = m\<lparr>mg_handlers := AList.update ?key (h\<lparr>rh_channel := rh_channel h @ [r]\<rparr>) (mg_handlers m)\<rparr>"
      using tr True Some h lt
      by (auto simp: manager_trigger_def enqueue_def Let_def split: if_splits)
    have mem: "?key \<in> fst ` set (mg_handlers m)" using Some by (auto dest: map_of_SomeD intro: rev_image_eqI)
    from ok h lt mem show ?thesis
      by (auto simp: m' manager_ok_def distinct_update dom_update update_conv')
  qed
qed

lemma manager_ok_delete:
  assumes ok: "manager_ok m" and dl: "manager_delete ns nm m = (res, m')"
  shows "manager_ok m'" and "\<And>e. res = Inl e \<Longrightarrow> \<not> is_panic e"
proof -
  let ?key = "key_for_name ns nm"
  have "manager_ok m' \<and> (\<forall>e. res = Inl e \<longrightarrow> \<not> is_panic e)"
  proof (cases "mg_running m \<and> map_of (mg_handlers m) ?key \<noteq> None")
    case False
    with ok dl show ?thesis by (auto simp: manager_delete_def Let_def split: if_splits)
  next
    case True
    then obtain h where run: "mg_running m" and h: "map_of (mg_handlers m) ?key = Some h" by blast
    with ok have "rh_started h" "\<not> rh_canceled h" unfolding manager_ok_def by blast+
    with dl run h have m': "m' = m\<lparr>mg_handlers := AList.delete ?key (mg_handlers m),
        mg_live := remove1 ?key (mg_live m)\<rparr>" and res: "res = Inr ()"
      by (auto simp: manager_delete_def stop_handler_def Let_def)
    from ok res show ?thesis
      by (auto simp: m' manager_ok_def distinct_delete dom_delete delete_conv' split: if_splits)
  qed
  then show "manager_ok m'" "\<And>e. res = Inl e \<Longrightarrow> \<not> is_panic e" by simp_all
qed

lemma manager_ok_take:
  assumes ok: "manager_ok m" and tk: "manager_take key m = Some (r, m')"
  shows "manager_ok m'" and "key_for_name (rel_namespace r) (rel_name r) = key"
proof -
  obtain h rs where h: "map_of (mg_handlers m) key = Some h" "rh_channel h = r # rs"
    and m': "m' = m\<lparr>mg_handlers := AList.update key (h\<lparr>rh_channel := rs\<rparr>) (mg_handlers m)\<rparr>"
    using tk by (auto simp: manager_take_def split: option.splits list.splits)
  from ok h have "rh_started h" "\<not> rh_canceled h" "length (r # rs) \<le> channel_capacity"
    "\<forall>x \<in> set (r # rs). key_for_name (rel_namespace x) (rel_name x) = key"
    unfolding manager_ok_def by metis+
  moreover have "key \<in> fst ` set (mg_handlers m)" using h by (auto dest: map_of_SomeD intro: rev_image_eqI)
  ultimately show "manager_ok m'" "key_for_name (rel_namespace r) (rel_name r) = key"
    using ok by (auto simp: m' manager_ok_def distinct_update dom_update update_conv')
qed

end
