(* ===== verification/Controller_Keys.thy ===== *)
theory Controller_Keys
  imports Kube_Objects
begin

text \<open>
  The keys of \<open>client-go/tools/cache\<close> under which the controllers queue objects:
  \<open>DeletionHandlingMetaNamespaceKeyFunc\<close> and \<open>SplitMetaNamespaceKey\<close>.
\<close>

definition meta_namespace_key :: "obj \<Rightarrow> error + string" where
  "meta_namespace_key ob =
     (case o_meta ob of
        None \<Rightarrow> Inl (Errorf ''object has no meta'')
      | Some m \<Rightarrow>
          Inr (if length (om_namespace m) > 0 then om_namespace m @ ''/'' @ om_name m else om_name m))"

fun deletion_handling_key :: "informer_object \<Rightarrow> error + string" where
  "deletion_handling_key (Tombstone key _) = Inr key"
| "deletion_handling_key (Plain ob) = meta_namespace_key ob"

definition split_meta_namespace_key :: "string \<Rightarrow> error + (string \<times> string)" where
  "split_meta_namespace_key key =
     (case split_str key ''/'' of
        [nm] \<Rightarrow> Inr ([], nm)
      | [ns, nm] \<Rightarrow> Inr (ns, nm)
      | _ \<Rightarrow> Inl (Errorf (''unexpected key format: '' @ key)))"

text \<open>A key is split into what it was made of; names hold no slash.\<close>

lemma split_key_roundtrip:
  assumes "o_meta ob = Some m" and "CHR ''/'' \<notin> set (om_namespace m)" and "CHR ''/'' \<notin> set (om_name m)"
    and "meta_namespace_key ob = Inr key"
  shows "split_meta_namespace_key key = Inr (om_namespace m, om_name m)"
proof (cases "om_namespace m = []")
  case True
  have "split_str (join_str [om_name m] ''/'') ''/'' = [om_name m]"
    using assms(3) by (intro split_join_char) auto
  with True assms(1,4) show ?thesis by (simp add: meta_namespace_key_def split_meta_namespace_key_def)
next
  case False
  have "split_str (join_str [om_namespace m, om_name m] ''/'') ''/'' = [om_namespace m, om_name m]"
    using assms(2,3) by (intro split_join_char) auto
  with False assms(1,4) show ?thesis
    by (auto simp: meta_namespace_key_def split_meta_namespace_key_def)
qed

end
