(* ===== verification/Release_Controller.thy ===== *)
theory Release_Controller
  imports Release_Handler Controller_Keys
begin

text \<open>
  \<open>pkg/controller/release/controller.go\<close>: the controller that hands the releases of its queue to
  the release manager.
\<close>

record release_controller =
  rc_queue :: "string work_queue"
  rc_manager :: release_manager

definition new_release_controller :: release_controller where
  "new_release_controller = \<lparr>rc_queue = new_work_queue, rc_manager = new_release_manager\<rparr>"

definition enqueue_release :: "informer_object \<Rightarrow> release_controller \<Rightarrow> release_controller" where
  "enqueue_release io rc =
     (case deletion_handling_key io of
        Inl _ \<Rightarrow> rc
      | Inr key \<Rightarrow> rc\<lparr>rc_queue := wq_add key (rc_queue rc)\<rparr>)"

text \<open>What \<open>processNextWorkItem\<close> does once the manager has answered, and its deferred \<open>Done\<close>.\<close>

definition answered :: "string \<Rightarrow> error + unit \<Rightarrow> release_manager \<Rightarrow> string work_queue \<Rightarrow> bool \<times> release_controller" where
  "answered key res m q =
     (case res of
        Inl _ \<Rightarrow> (False, \<lparr>rc_queue = wq_done key (wq_add_rate_limited key q), rc_manager = m\<rparr>)
      | Inr _ \<Rightarrow> (True, \<lparr>rc_queue = wq_done key q, rc_manager = m\<rparr>))"

text \<open>
  The body of \<open>processNextWorkItem\<close> on a key. \<open>lister\<close> is the release lister; \<open>None\<close> says that
  \<open>Trigger\<close> blocks on the channel of the handler.
\<close>

definition process_key ::
  "(string \<Rightarrow> string \<Rightarrow> error + release) \<Rightarrow> string \<Rightarrow> release_manager \<Rightarrow> string work_queue
     \<Rightarrow> (bool \<times> release_controller) option" where
  "process_key lister key m q =
     (case split_meta_namespace_key key of
        Inl _ \<Rightarrow> Some (False, \<lparr>rc_queue = wq_done key q, rc_manager = m\<rparr>)
      | Inr (ns, nm) \<Rightarrow>
          (case lister ns nm of
             Inl e \<Rightarrow>
               if \<not> is_not_found e then Some (False, \<lparr>rc_queue = wq_done key q, rc_manager = m\<rparr>)
               else (case manager_delete ns nm m of (res, m') \<Rightarrow> Some (answered key res m' q))
           | Inr r \<Rightarrow>
               (case manager_trigger r m of
                  None \<Rightarrow> None
                | Some (res, m') \<Rightarrow> Some (answered key res m' q))))"

text \<open>\<open>processNextWorkItem\<close>; \<open>None\<close> also when \<open>Get\<close> blocks on an empty queue.\<close>

definition process_next_work_item ::
  "(string \<Rightarrow> string \<Rightarrow> error + release) \<Rightarrow> release_controller \<Rightarrow> (bool \<times> release_controller) option" where
  "process_next_work_item lister rc =
     (case wq_get (rc_queue rc) of
        None \<Rightarrow> if wq_shutting_down (rc_queue rc) then Some (False, rc) else None
      | Some (key, q) \<Rightarrow> process_key lister key (rc_manager rc) q)"

text \<open>The start of \<open>worker\<close>; the error of \<open>Run\<close> is logged only.\<close>

definition worker_start :: "release_controller \<Rightarrow> release_controller" where
  "worker_start rc = rc\<lparr>rc_manager := manager_run (rc_manager rc)\<rparr>"

section \<open>The controller keeps its queue and its manager in order\<close>

definition controller_ok :: "release_controller \<Rightarrow> bool" where
  "controller_ok rc \<longleftrightarrow> wq_ok (rc_queue rc) \<and> wq_processing (rc_queue rc) = [] \<and> manager_ok (rc_manager rc)"

lemma controller_ok_new: "controller_ok new_release_controller"
  by (simp add: controller_ok_def new_release_controller_def manager_ok_new)
    (simp add: new_work_queue_def)

lemma controller_ok_start: "controller_ok rc \<Longrightarrow> controller_ok (worker_start rc)"
  by (simp add: controller_ok_def worker_start_def manager_ok_run)

lemma controller_ok_enqueue: "controller_ok rc \<Longrightarrow> controller_ok (enqueue_release io rc)"
  by (simp add: controller_ok_def enqueue_release_def split: sum.splits)

lemma controller_ok_due: "controller_ok rc \<Longrightarrow> controller_ok (rc\<lparr>rc_queue := wq_fire key (rc_queue rc)\<rparr>)"
  by (auto simp: controller_ok_def wq_fire_def)

lemma answered_ok:
  assumes "wq_ok q" and "wq_processing q = [key]" and "manager_ok m" and "answered key res m q = (b, rc)"
  shows "controller_ok rc"
  using assms wq_done_ok[of q key] wq_done_ok[of "wq_add_rate_limited key q" key]
  by (auto simp: answered_def controller_ok_def split: sum.splits)

lemma process_ok:
  assumes ok: "controller_ok rc" and run: "process_next_work_item lister rc = Some (b, rc')"
  shows "controller_ok rc'"
proof (cases "wq_get (rc_queue rc)")
  case None
  with ok run show ?thesis by (auto simp: process_next_work_item_def split: if_splits)
next
  case (Some p)
  obtain key q where p: "p = (key, q)" by (cases p)
  from Some have q: "wq_processing q = [key]"
    using ok by (auto simp: p wq_get_def controller_ok_def set_insert_def split: list.splits)
  have wq: "wq_ok q" using wq_get_law[OF _ Some[unfolded p]] ok by (simp add: controller_ok_def)
  have m: "manager_ok (rc_manager rc)" using ok by (simp add: controller_ok_def)
  have run': "process_key lister key (rc_manager rc) q = Some (b, rc')"
    using run Some by (simp add: process_next_work_item_def p)
  have skip: "controller_ok \<lparr>rc_queue = wq_done key q, rc_manager = rc_manager rc\<rparr>"
    using wq q m wq_done_ok[of q key] by (simp add: controller_ok_def)
  show ?thesis
    using run' skip answered_ok[OF wq q] manager_ok_delete(1)[OF m] manager_ok_trigger[OF m]
    by (fastforce simp: process_key_def split: sum.splits option.splits prod.splits if_splits)
qed

section \<open>What becomes of a key\<close>

text \<open>A deleted release that has no handler comes back: its key waits to be queued again.\<close>

lemma gone_without_handler:
  assumes "wq_get (rc_queue rc) = Some (key, q)" and "split_meta_namespace_key key = Inr (ns, nm)"
    and "lister ns nm = Inl e" and "is_not_found e" and "mg_running (rc_manager rc)"
    and "map_of (mg_handlers (rc_manager rc)) (key_for_name ns nm) = None" and "\<not> wq_shutting_down (rc_queue rc)"
  shows "\<exists>rc'. process_next_work_item lister rc = Some (False, rc') \<and> rc_manager rc' = rc_manager rc \<and>
     key \<in> set (wq_waiting (rc_queue rc'))"
proof -
  have "\<not> wq_shutting_down q" using assms(1,7) by (auto simp: wq_get_def split: list.splits)
  then have "key \<in> set (wq_waiting (wq_add_rate_limited key q))" by (simp add: wq_add_rate_limited_def Let_def)
  with assms show ?thesis
    by (simp add: process_next_work_item_def process_key_def manager_delete_def answered_def Let_def)
qed

text \<open>No run of the controller forgets the failures of a key.\<close>

lemma requeues_mono:
  assumes "process_next_work_item lister rc = Some (b, rc')"
  shows "wq_num_requeues k (rc_queue rc) \<le> wq_num_requeues k (rc_queue rc')"
proof -
  have add: "wq_num_requeues k q \<le> wq_num_requeues k (wq_add_rate_limited j q)" for j and q :: "string work_queue"
    by (cases "j = k") (auto simp: wq_num_requeues_def wq_add_rate_limited_def Let_def update_conv')
  have answer: "wq_num_requeues k q \<le> wq_num_requeues k (rc_queue rc1)" if "answered j res m q = (b, rc1)" for j res m q rc1
    using that add by (auto simp: answered_def split: sum.splits)
  show ?thesis
  proof (cases "wq_get (rc_queue rc)")
    case None
    with assms show ?thesis by (auto simp: process_next_work_item_def split: if_splits)
  next
    case (Some p)
    obtain key q where p: "p = (key, q)" by (cases p)
    have "wq_num_requeues k q = wq_num_requeues k (rc_queue rc)" by (rule wq_requeues_get[OF Some[unfolded p]])
    moreover have "process_key lister key (rc_manager rc) q = Some (b, rc')"
      using assms Some by (simp add: process_next_work_item_def p)
    ultimately show ?thesis
      using answer by (fastforce simp: process_key_def split: sum.splits option.splits prod.splits if_splits)
  qed
qed

text \<open>A listed release reaches the channel of its handler.\<close>

lemma listed_reaches_handler:
  assumes "wq_get (rc_queue rc) = Some (key, q)" and "split_meta_namespace_key key = Inr (ns, nm)"
    and "lister ns nm = Inr r" and "process_next_work_item lister rc = Some (True, rc')"
  shows "\<exists>h. map_of (mg_handlers (rc_manager rc')) (key_for_name (rel_namespace r) (rel_name r)) = Some h \<and>
     rh_started h \<and> r \<in> set (rh_channel h)"
proof -
  obtain m' where tr: "manager_trigger r (rc_manager rc) = Some (Inr (), m')" and rc': "rc_manager rc' = m'"
    using assms by (auto simp: process_next_work_item_def process_key_def answered_def split: option.splits sum.splits)
  from tr show ?thesis
    by (auto simp: rc' manager_trigger_def enqueue_def Let_def update_conv' split: if_splits option.splits bool.splits)
qed

end
