(* ===== verification/Release_Properties.thy ===== *)
theory Release_Properties
  imports Release_Apply Release_Storage Release_Controller
begin

text \<open>
  What \<open>pkg/storage\<close>, \<open>pkg/release\<close> and the release controller promise: the release that is kept in
  memory, the versions of histories, the order of an apply, the retries of a handler, and the
  handlers of the manager.
\<close>

section \<open>The storage\<close>

text \<open>The calls of a client of one storage, and what each of them returns.\<close>

datatype storage_call =
    CallUpdate release
  | CallRollback int32
  | CallFlush condition_reason string
  | CallStatus "release_status \<Rightarrow> release_status"

fun run_storage_call :: "'s storage_env \<Rightarrow> storage_call \<Rightarrow> ('s stored, release) io" where
  "run_storage_call env (CallUpdate r) = so_update (storage_ops env) r"
| "run_storage_call env (CallRollback v) = so_rollback (storage_ops env) v"
| "run_storage_call env (CallFlush reason msg) = so_flush (storage_ops env) reason msg"
| "run_storage_call env (CallStatus f) = so_update_status (storage_ops env) f"

fun storage_calls :: "'s storage_env \<Rightarrow> storage_call list \<Rightarrow> 's stored \<Rightarrow> (error + release) list \<times> 's stored" where
  "storage_calls env [] st = ([], st)"
| "storage_calls env (c # cs) st =
     (case run_storage_call env c st of (r, st1) \<Rightarrow>
      case storage_calls env cs st1 of (rs, st2) \<Rightarrow> (r # rs, st2))"

text \<open>The specification: the release of the last call that succeeded.\<close>

fun last_returned :: "release \<Rightarrow> (error + release) list \<Rightarrow> release" where
  "last_returned r [] = r"
| "last_returned r (Inl e # rs) = last_returned r rs"
| "last_returned r (Inr r' # rs) = last_returned r' rs"

lemma storage_call_kept: "returns_kept (run_storage_call env c)"
  by (cases c) (simp_all add: storage_ops_def storage_update_kept storage_rollback_kept
      storage_flush_reason_kept storage_update_status_def storage_patch_kept)

text \<open>
  Whatever sequence of updates, rollbacks, conditions and status changes is run, with whatever
  failures between them, the release the storage keeps in memory is the one that the last
  successful call returned, which is the object the server answered with.
\<close>

lemma kept_is_last_returned:
  "snd (snd (storage_calls env cs st)) = last_returned (snd st) (fst (storage_calls env cs st))"
proof (induction cs arbitrary: st)
  case (Cons c cs)
  obtain r st1 where run: "run_storage_call env c st = (r, st1)" by (cases "run_storage_call env c st")
  have "kept_result (snd st) r st1"
    using wpD[OF returns_keptD[OF storage_call_kept refl] run] .
  with Cons[of st1] run show ?case
    by (cases "storage_calls env cs st1"; cases r) simp_all
qed simp


section \<open>A small world\<close>

definition web_meta :: objmeta where
  "web_meta = \<lparr>om_name = ''web'', om_namespace = ''ns'', om_uid = ''u'', om_resource_version = ''1'', om_creation = 1,
     om_labels = None, om_annotations = None, om_owners = []\<rparr>"

definition web_release :: "string \<Rightarrow> int32 option \<Rightarrow> int32 \<Rightarrow> condition list \<Rightarrow> release" where
  "web_release cfg back v cs =
     \<lparr>rel_meta = web_meta,
      rel_spec = \<lparr>rs_description = [], rs_template = None, rs_config = cfg, rs_suspend = None, rs_rollback_to = back\<rparr>,
      rel_status = \<lparr>st_version = v, st_manifest = [], st_last_update = 0, st_details = None,
                    st_pods = \<lparr>ps_old = [], ps_updated = []\<rparr>, st_conditions = cs\<rparr>\<rparr>"

lemma web_release_simps [simp]: "rel_meta (web_release cfg back v cs) = web_meta"
  "rs_config (rel_spec (web_release cfg back v cs)) = cfg"
  "rs_rollback_to (rel_spec (web_release cfg back v cs)) = back"
  "st_version (rel_status (web_release cfg back v cs)) = v"
  "om_name web_meta = ''web''" "om_namespace web_meta = ''ns''" "om_uid web_meta = ''u''"
  by (simp_all add: web_release_def web_meta_def)

text \<open>
  A server that answers every patch with the given release and has the given histories. A patch is
  the name of the patched release.
\<close>

definition web_env :: "release \<Rightarrow> history list \<Rightarrow> unit storage_env" where
  "web_env answer hs =
     \<lparr>se_name = ''web'', se_release_patch = (\<lambda>_ _. ret answer), se_release_delete = (\<lambda>_. ret ()),
      se_history_create = ret,
      se_history_get = (\<lambda>nm. case find (\<lambda>h. om_name (h_meta h) = nm) hs of
          None \<Rightarrow> fail (new_not_found release_group ''releasehistories'' nm) | Some h \<Rightarrow> ret h),
      se_history_list = (\<lambda>_. ret hs), se_history_delete_collection = (\<lambda>_. ret ()), se_layers = None,
      se_marshal = (\<lambda>_. Inr []), se_merge_patch = (\<lambda>_ _. Inr ''p''), se_now = ret 9,
      se_render = (\<lambda>_. ret None), se_children = id, se_sort = insert_sort, se_valid_label = (\<lambda>_. True)\<rparr>"

lemma web_env_simps [simp]: "se_name (web_env a hs) = ''web''" "se_layers (web_env a hs) = None"
  "se_history_list (web_env a hs) sel = ret hs" "se_sort (web_env a hs) = insert_sort"
  by (simp_all add: web_env_def)

lemmas web_run = storage_ops_def storage_histories_def storage_history_def storage_patch_def storage_flush_reason_def
  storage_flush_def bind_io_def try_io_def quiet_def ret_def fail_def lift_result_def current_release_def
  keep_release_def with_layer_def new_condition_def

definition web_history :: "string \<Rightarrow> history" where
  "web_history cfg = construct_history (web_release cfg None 1 []) 1"

lemma web_history_simps [simp]: "h_version (web_history cfg) = 1" "hs_config (h_spec (web_history cfg)) = cfg"
  by (simp_all add: web_history_def construct_history_def)



definition rolled_back :: release where
  "rolled_back = (web_release ''old'' None 1 [make_condition ReasonRollbacking [] 9])\<lparr>rel_status :=
     (rel_status (web_release ''old'' None 1 [make_condition ReasonRollbacking [] 9]))\<lparr>st_last_update := 9\<rparr>\<rparr>"


section \<open>Applying a release\<close>

text \<open>
  C21: an apply that succeeds has done exactly this, in this order: listed the histories, rendered the
  release at its new version, applied the manifest under the ownership of the release, recorded the
  version, and reported it available; or, when a rollback is asked for, rolled back first and then
  applied. An apply that fails, panics aside, ends with the attempt to record the failure with the
  text of its error, or with the failed attempt to report success.
\<close>

theorem apply_runs_in_order:
  assumes "apply_release (traced_ops ops) (traced_apply env) r (s, []) = (res, (s', log))"
  shows "case res of Inr _ \<Rightarrow> apply_succeeded env r log | Inl e \<Rightarrow> apply_failed e log"
  using wpD[OF apply_release_traced assms] by (cases res) simp_all

definition calm_apply :: "'s apply_env" where
  "calm_apply = \<lparr>ae_client_apply = (\<lambda>_ _ _. ret ()), ae_render = (\<lambda>_. ret None), ae_children = id, ae_ignored = []\<rparr>"

lemma calm_apply_simps [simp]: "ae_client_apply calm_apply ns ms opts = ret ()" "ae_render calm_apply ro = ret None"
  "ae_children calm_apply = id" "ae_ignored calm_apply = []"
  by (simp_all add: calm_apply_def)

definition calm_ops :: "release \<Rightarrow> 's release_ops" where
  "calm_ops r =
     \<lparr>so_rollback = (\<lambda>_. ret r), so_histories = ret [], so_update = ret, so_flush = (\<lambda>_ _. ret r),
      so_update_status = (\<lambda>_. ret r)\<rparr>"

theorem apply_runs_in_order_witness:
  "\<exists>log. apply_release (traced_ops (calm_ops (web_release ''a'' None 0 []))) (traced_apply calm_apply)
       (web_release ''a'' None 0 []) ((), []) = (Inr (), ((), log)) \<and> length log = 5 \<and>
     apply_succeeded (calm_apply :: unit apply_env) (web_release ''a'' None 0 []) log"
proof -
  have "\<exists>log. apply_release (traced_ops (calm_ops (web_release ''a'' None 0 []))) (traced_apply calm_apply)
      (web_release ''a'' None 0 []) ((), []) = (Inr (), ((), log)) \<and> length log = 5"
    by (simp add: apply_release_def or_record_def try_io_def traced_ops_def calm_ops_def logged_def ret_def Let_def
        traced_apply_def apply_manifests_def bind_io_def)
  then show ?thesis using apply_runs_in_order[of "calm_ops (web_release ''a'' None 0 [])"] by fastforce
qed

text \<open>
  C37: a rollback to a version that does not exist is reported as a success. \<open>Rollback\<close> returns what
  \<open>FlushConditions\<close> returns, without the error: the apply goes on with the manifest of the release as
  it is and ends with the condition Available over the Failure it has just written.
\<close>

theorem missing_rollback_succeeds:
  assumes "rs_rollback_to (rel_spec r) = Some v"
    and "storage_history env v st = (Inl e, st1)" and "is_not_found e"
    and "storage_flush_reason env ReasonFailure (error_text e) st1 = (Inr rel, st2)"
    and "ae_client_apply ae (rel_namespace r) (split_manifest (st_manifest (rel_status rel)))
           (apply_options_of (ae_ignored ae) r) st2 = (Inr (), st3)"
    and "storage_flush_reason env ReasonAvailable [] st3 = (Inr rel', st4)"
  shows "apply_release (storage_ops env) ae r st = (Inr (), st4)"
proof -
  have "\<not> is_panic e" using assms(3) by (cases e) simp_all
  with assms(2-4) have "storage_rollback env v st = (Inr rel, st2)"
    by (simp add: storage_rollback_def try_io_def)
  with assms(1,5,6) show ?thesis
    by (simp add: apply_release_def or_record_def try_io_def storage_ops_def apply_manifests_def ret_def bind_io_def)
qed

theorem missing_rollback_succeeds_witness:
  "apply_release (storage_ops (web_env (web_release ''a'' (Some 7) 2 []) [])) calm_apply
     (web_release ''a'' (Some 7) 2 []) ((), web_release ''a'' (Some 7) 2 []) =
     (Inr (), ((), web_release ''a'' (Some 7) 2 []))"
proof (rule missing_rollback_succeeds[where v = 7])
  let ?r = "web_release ''a'' (Some 7) 2 []" and ?env = "web_env (web_release ''a'' (Some 7) 2 []) []"
  show "storage_history ?env 7 ((), ?r) =
      (Inl (new_not_found release_group ''releasehistories'' (history_name ''web'' 7)), ((), ?r))"
    by (simp add: web_run) (simp add: web_env_def fail_def)
  show "storage_flush_reason ?env ReasonFailure msg ((), ?r) = (Inr ?r, ((), ?r))" for msg
    by (simp add: web_run) (simp add: web_run web_env_def)
  show "storage_flush_reason ?env ReasonAvailable [] ((), ?r) = (Inr ?r, ((), ?r))"
    by (simp add: web_run) (simp add: web_run web_env_def)
qed (simp_all add: ret_def)

section \<open>The handler of a release\<close>

text \<open>The states of a handler whose releases all have the name \<open>nm\<close>.\<close>

definition loop_reach :: "string \<Rightarrow> loop_state \<Rightarrow> bool" where
  "loop_reach nm s \<longleftrightarrow> (\<exists>es. loop_steps es new_loop s \<and> (\<forall>e \<in> set es. event_ok nm e))"

lemma loop_reach_ok: "loop_reach nm s \<Longrightarrow> loop_ok nm s"
  unfolding loop_reach_def using loop_steps_ok loop_ok_new by blast

lemma loop_reach_closed: "loop_reach nm s \<Longrightarrow> wq_shutting_down (lp_queue s) = lp_stopped s"
  unfolding loop_reach_def using loop_steps_closed[where s = new_loop]
  by (auto simp: new_loop_def new_work_queue_def)

lemma received_state:
  assumes "loop_steps (Received r # es) s s'" and "must_apply (lp_target s) r"
  shows "\<not> lp_stopped s" and "loop_steps es (loop_receive r s) s'"
    and "loop_receive r s = s\<lparr>lp_target := Some r, lp_queue := wq_add (rel_name r) (wq_forget (rel_name r) (lp_queue s))\<rparr>"
  using assms by (auto simp: loop_receive_def received_simps elim!: loop_steps_ConsE)

lemma received_ok:
  assumes "loop_reach nm s" and "rel_name r = nm" and "\<not> lp_stopped s"
  shows "loop_ok nm (loop_receive r s)"
  by (rule loop_step_ok[OF loop_reach_ok[OF assms(1)] _ loop_step.receive[OF assms(3)]])
    (simp add: event_ok_def assms(2))

text \<open>
  C17: a release that was received is applied at most four times, the first time and three retries,
  until a new release is received or an apply succeeds; runs that older failures had already put on
  hold come on top, one each.
\<close>

theorem retries_bounded:
  assumes "loop_reach nm s" and "rel_name r = nm" and "must_apply (lp_target s) r"
    and "loop_steps (Received r # es) s s'" and "\<forall>e \<in> set es. no_news e"
  shows "length (filter is_started es) \<le> 4 + length (wq_waiting (lp_queue s))"
proof -
  note rcv = received_state[OF assms(4,3)]
  have ok: "loop_ok nm (loop_receive r s)" by (rule received_ok[OF assms(1,2) rcv(1)])
  have "work_left nm (loop_receive r s) \<le> 4 + length (wq_waiting (lp_queue s))"
    by (simp add: rcv(3) work_left_def assms(2))
  with work_left_steps[OF rcv(2) ok assms(5)] show ?thesis by linarith
qed

definition web :: release where
  "web = web_release ''a'' None 0 []"

lemma web_name [simp]: "rel_name web = ''web''"
  by (simp add: web_def)

lemma new_loop_reach: "loop_reach nm new_loop"
  unfolding loop_reach_def using loop_steps.none by (intro exI[of _ "[]"]) simp

lemma web_received: "loop_steps [Received web] new_loop (loop_receive web new_loop)"
  by (rule loop_steps.step[OF loop_step.receive loop_steps.none]) (simp add: new_loop_def)

lemma must_apply_first [simp]: "must_apply None r"
  by (simp add: must_apply_def)

theorem retries_bounded_witness:
  "\<exists>s'. loop_steps [Received web, Started web, Failed] new_loop s' \<and>
     length (filter is_started [Started web, Failed]) \<le> 4"
proof -
  let ?s1 = "loop_receive web new_loop"
  have s1: "lp_queue ?s1 = wq_add ''web'' (wq_forget ''web'' new_work_queue)" "lp_target ?s1 = Some web" "lp_applying ?s1 = None"
    by (simp_all add: loop_receive_def) (simp_all add: new_loop_def)
  obtain q where q: "wq_get (lp_queue ?s1) = Some (''web'', q)"
    unfolding s1 by (simp add: wq_get_def wq_add_def wq_forget_def new_work_queue_def Let_def)
  let ?s2 = "?s1\<lparr>lp_queue := q, lp_applying := Some web\<rparr>"
  have "loop_step (Started web) ?s1 ?s2" using loop_step.start[OF s1(3) q s1(2)] .
  moreover have "loop_step Failed ?s2 (?s2\<lparr>lp_queue := after_failure (rel_name web) (lp_queue ?s2), lp_applying := None\<rparr>)"
    by (rule loop_step.failed) (simp_all add: s1)
  moreover have "loop_step (Received web) new_loop ?s1" by (rule loop_step.receive) (simp add: new_loop_def)
  ultimately have run: "loop_steps [Received web, Started web, Failed] new_loop
      (?s2\<lparr>lp_queue := after_failure (rel_name web) (lp_queue ?s2), lp_applying := None\<rparr>)"
    by (blast intro: loop_steps.intros)
  have "lp_target new_loop = None" "wq_waiting (lp_queue new_loop) = []"
    by (simp_all add: new_loop_def new_work_queue_def)
  with retries_bounded[OF new_loop_reach[of "''web''"] _ _ run] have "length (filter is_started [Started web, Failed]) \<le> 4"
    by (simp add: no_news_def)
  with run show ?thesis by blast
qed

text \<open>
  C15: no update is lost. After a release that has to be applied was received, whatever else happens,
  an apply still running or a retry coming due, as long as no newer release is received and no new
  run is started it stays the target; the run that is going on can end, and once none is going on
  the next run is ready to start, on this release.
\<close>

theorem newest_release_is_applied:
  assumes "loop_reach nm s" and "rel_name r = nm" and "must_apply (lp_target s) r"
    and "loop_steps (Received r # es) s s'" and "\<forall>e \<in> set es. \<not> is_started e \<and> (\<forall>x. e \<noteq> Received x)"
  shows "lp_target s' = Some r \<and>
     (lp_applying s' = None \<longrightarrow> (\<exists>s''. loop_step (Started r) s' s'')) \<and>
     (lp_applying s' \<noteq> None \<longrightarrow> (\<exists>s''. loop_step Succeeded s' s'') \<and> (\<exists>s''. loop_step Failed s' s''))"
proof -
  note rcv = received_state[OF assms(4,3)]
  have ok: "loop_ok nm (loop_receive r s)" by (rule received_ok[OF assms(1,2) rcv(1)])
  have open_queue: "\<not> wq_shutting_down (lp_queue s)"
    using rcv(1) loop_reach_closed[OF assms(1)] by simp
  have "wq_ok (wq_forget nm (lp_queue s))" using loop_reach_ok[OF assms(1)] by (simp add: loop_ok_def)
  from wq.add_law[OF this, of nm] open_queue have "nm \<in> set (wq_dirty (lp_queue (loop_receive r s)))"
    by (simp add: rcv(3) assms(2))
  with pending_kept_steps[OF rcv(2) ok _ _ assms(5), of r] rcv(3)
  have s': "loop_ok nm s'" "nm \<in> set (wq_dirty (lp_queue s'))" "lp_target s' = Some r" by simp_all
  have "(\<exists>s''. loop_step Succeeded s' s'') \<and> (\<exists>s''. loop_step Failed s' s'')" if "lp_applying s' \<noteq> None"
    using that s'(3) by (auto intro: loop_step.succeed loop_step.failed)
  with s' pending_starts[OF s'] show ?thesis by blast
qed

theorem newest_release_is_applied_witness: "\<exists>s''. loop_step (Started web) (loop_receive web new_loop) s''"
proof -
  have "lp_target new_loop = None" "lp_applying (loop_receive web new_loop) = None"
    by (simp_all add: new_loop_def loop_receive_def)
  with newest_release_is_applied[OF new_loop_reach[of "''web''"] _ _ web_received] show ?thesis by simp
qed

section \<open>The release controller\<close>

text \<open>
  What happens to the controller and its manager: an informer reports an object, the worker starts,
  the delay of a key ends, a work item is processed, or a handler takes a release out of its channel.
\<close>

inductive controller_reach :: "release_controller \<Rightarrow> bool" where
  fresh: "controller_reach new_release_controller"
| start: "controller_reach rc \<Longrightarrow> controller_reach (worker_start rc)"
| reported: "controller_reach rc \<Longrightarrow> controller_reach (enqueue_release io rc)"
| due: "controller_reach rc \<Longrightarrow> key \<in> set (wq_waiting (rc_queue rc)) \<Longrightarrow>
     controller_reach (rc\<lparr>rc_queue := wq_fire key (rc_queue rc)\<rparr>)"
| processed: "controller_reach rc \<Longrightarrow> process_next_work_item lister rc = Some (b, rc') \<Longrightarrow> controller_reach rc'"
| taken: "controller_reach rc \<Longrightarrow> manager_take key (rc_manager rc) = Some (r, m) \<Longrightarrow>
     controller_reach (rc\<lparr>rc_manager := m\<rparr>)"

text \<open>
  C13: at every moment each release has at most one live handler: the goroutines that were started
  and not stopped are, one each, those of the handlers in the manager's table. No handler of the
  table is stopped or idle, and its channel holds at most ten releases, all of the handler's own key.
\<close>

theorem one_handler_per_release:
  assumes "controller_reach rc"
  shows "distinct (mg_live (rc_manager rc)) \<and>
     set (mg_live (rc_manager rc)) = fst ` set (mg_handlers (rc_manager rc)) \<and>
     (\<forall>key h. map_of (mg_handlers (rc_manager rc)) key = Some h \<longrightarrow>
        rh_started h \<and> \<not> rh_canceled h \<and> length (rh_channel h) \<le> 10 \<and>
        (\<forall>r \<in> set (rh_channel h). rel_namespace r @ ''/'' @ rel_name r = key))"
proof -
  have "controller_ok rc"
    using assms
  proof induction
    case fresh
    show ?case by (rule controller_ok_new)
  next
    case (start rc)
    from start(2) show ?case by (rule controller_ok_start)
  next
    case (reported rc io)
    from reported(2) show ?case by (rule controller_ok_enqueue)
  next
    case (due rc key)
    from due(3) show ?case by (rule controller_ok_due)
  next
    case (processed rc lister b rc')
    from processed(3,2) show ?case by (rule process_ok)
  next
    case (taken rc key r m)
    with manager_ok_take(1)[OF _ taken(2)] show ?case by (simp add: controller_ok_def)
  qed
  then show ?thesis
    unfolding controller_ok_def manager_ok_def channel_capacity_def key_for_name_def by blast
qed

definition web_controller :: release_controller where
  "web_controller = worker_start (enqueue_release (Plain (obj_of_release web)) new_release_controller)"

lemma web_controller_reach: "controller_reach web_controller"
  unfolding web_controller_def by (intro controller_reach.intros)

lemma web_key: "deletion_handling_key (Plain (obj_of_release web)) = Inr ''ns/web''"
  by (simp add: meta_namespace_key_def obj_of_release_def web_def)

lemma split_web_key: "split_meta_namespace_key ''ns/web'' = Inr (''ns'', ''web'')"
  by code_simp

lemma web_queue: "wq_get (rc_queue web_controller) =
    Some (''ns/web'', \<lparr>wq_queue = [], wq_dirty = [], wq_processing = [''ns/web''], wq_shutting_down = False,
      wq_failures = [], wq_waiting = []\<rparr>)"
  unfolding web_controller_def worker_start_def enqueue_release_def web_key
  by (simp add: new_release_controller_def wq_get_def wq_add_def new_work_queue_def set_insert_def Let_def)

lemma web_manager: "rc_manager web_controller = \<lparr>mg_handlers = [], mg_running = True, mg_live = []\<rparr>"
  unfolding web_controller_def worker_start_def enqueue_release_def web_key
  by (simp add: new_release_controller_def manager_run_def new_release_manager_def)

theorem one_handler_per_release_witness:
  "\<exists>rc. process_next_work_item (\<lambda>_ _. Inr web) web_controller = Some (True, rc) \<and>
     mg_live (rc_manager rc) = [''ns/web''] \<and> set (mg_live (rc_manager rc)) = fst ` set (mg_handlers (rc_manager rc))"
proof -
  obtain rc where run: "process_next_work_item (\<lambda>_ _. Inr web) web_controller = Some (True, rc)"
    and live: "mg_live (rc_manager rc) = [''ns/web'']"
    by (simp add: process_next_work_item_def web_queue process_key_def split_web_key manager_trigger_def web_manager
        enqueue_def new_release_handler_def channel_capacity_def key_for_name_def web_def answered_def Let_def)
  from one_handler_per_release[OF controller_reach.processed[OF web_controller_reach run]] run live
  show ?thesis by blast
qed

text \<open>
  A release that is gone and has no handler, for instance because it was deleted before the
  controller saw it, is never given up: the manager's \<open>Delete\<close> fails, the key goes back to the queue
  to wait, and its failure count, which no path of the controller resets, has grown by one.
\<close>

lemma gone_release_is_retried:
  assumes "wq_get (rc_queue rc) = Some (key, q)" and "split_meta_namespace_key key = Inr (ns, nm)"
    and "lister ns nm = Inl e" and "is_not_found e" and "mg_running (rc_manager rc)"
    and "map_of (mg_handlers (rc_manager rc)) (key_for_name ns nm) = None" and "\<not> wq_shutting_down (rc_queue rc)"
  shows "\<exists>rc'. process_next_work_item lister rc = Some (False, rc') \<and> rc_manager rc' = rc_manager rc \<and>
     key \<in> set (wq_waiting (rc_queue rc')) \<and>
     wq_num_requeues key (rc_queue rc') = wq_num_requeues key (rc_queue rc) + 1 \<and>
     (\<forall>lister' b rc''. process_next_work_item lister' rc' = Some (b, rc'') \<longrightarrow>
        wq_num_requeues key (rc_queue rc') \<le> wq_num_requeues key (rc_queue rc''))"
proof -
  from gone_without_handler[where lister = lister, OF assms] obtain rc' where
    rc': "process_next_work_item lister rc = Some (False, rc')" "rc_manager rc' = rc_manager rc"
      "key \<in> set (wq_waiting (rc_queue rc'))" by blast
  have "rc_queue rc' = wq_done key (wq_add_rate_limited key q)"
    using rc'(1) assms by (auto simp: process_next_work_item_def process_key_def manager_delete_def answered_def Let_def)
  then have "wq_num_requeues key (rc_queue rc') = wq_num_requeues key (rc_queue rc) + 1"
    using wq_requeues_get[OF assms(1)] by simp
  with rc' requeues_mono show ?thesis by blast
qed

lemma gone_release_is_retried_example:
  "\<exists>rc'. process_next_work_item (\<lambda>_ _. Inl (NotFound ''web'')) web_controller = Some (False, rc') \<and>
     ''ns/web'' \<in> set (wq_waiting (rc_queue rc')) \<and> wq_num_requeues ''ns/web'' (rc_queue rc') = 1"
proof -
  have "\<not> wq_shutting_down (rc_queue web_controller)" "wq_num_requeues ''ns/web'' (rc_queue web_controller) = 0"
    unfolding web_controller_def worker_start_def enqueue_release_def web_key
    by (simp_all add: new_release_controller_def wq_add_def new_work_queue_def wq_num_requeues_def Let_def)
  with gone_release_is_retried[OF web_queue split_web_key, of "\<lambda>_ _. Inl (NotFound ''web'')"] show ?thesis
    by (auto simp: web_manager)
qed

end
