(* ===== verification/Garbage_Collector.thy ===== *)
theory Garbage_Collector
  imports Release_Interfaces Render_Tree Kube_Codec API_Resources Work_Queue
begin

text \<open>
  \<open>pkg/controller/gc/controller.go\<close>: the collector that deletes resources no release asks for and
  histories beyond the limit.
\<close>

section \<open>Resources by release\<close>

record gc_resource =
  gr_gvk :: gvk
  gr_namespace :: string
  gr_name :: string
  gr_uid :: string
  gr_creation :: int
  gr_object :: obj

record gc_release =
  ge_namespace :: string
  ge_name :: string
  ge_uid :: string
  ge_resources :: "(string \<times> gc_resource) list"

record release_resources =
  rr_releases :: "(string \<times> gc_release) list"
  rr_ignored :: "gvk list"

definition new_release_resources :: "gvk list \<Rightarrow> release_resources" where
  "new_release_resources ignored = \<lparr>rr_releases = [], rr_ignored = remdups ignored\<rparr>"

text \<open>A release with name, namespace and uid only; the other fields have their zero values.\<close>

definition fake_release :: "gc_release \<Rightarrow> release" where
  "fake_release e =
     \<lparr>rel_meta = \<lparr>om_name = ge_name e, om_namespace = ge_namespace e, om_uid = ge_uid e,
                  om_resource_version = [], om_creation = 0, om_labels = None, om_annotations = None,
                  om_owners = []\<rparr>,
      rel_spec = \<lparr>rs_description = [], rs_template = None, rs_config = [], rs_suspend = None,
                  rs_rollback_to = None\<rparr>,
      rel_status = \<lparr>st_version = 0, st_manifest = [], st_last_update = 0, st_details = None,
                    st_pods = \<lparr>ps_old = [], ps_updated = []\<rparr>, st_conditions = []\<rparr>\<rparr>"

definition duplicate_releases ::
  "((string \<times> gc_release) list \<Rightarrow> (string \<times> gc_release) list) \<Rightarrow> release_resources \<Rightarrow> release list" where
  "duplicate_releases rng rr = map (fake_release \<circ> snd) (range_over rng (rr_releases rr))"

definition resources_of_release ::
  "((string \<times> gc_resource) list \<Rightarrow> (string \<times> gc_resource) list) \<Rightarrow> string \<Rightarrow> release_resources
     \<Rightarrow> gc_resource list" where
  "resources_of_release rng uid rr =
     (case map_of (rr_releases rr) uid of
        None \<Rightarrow> []
      | Some e \<Rightarrow> map snd (range_over rng (ge_resources e)))"

text \<open>The single owner of an object, when it is a release.\<close>

definition release_owner :: "objmeta \<Rightarrow> owner_ref option" where
  "release_owner m =
     (case om_owners m of
        [ow] \<Rightarrow>
          if or_api_version ow = gv_string (g_group gvk_release) (g_version gvk_release) \<and>
             or_kind ow = g_kind gvk_release
          then Some ow else None
      | _ \<Rightarrow> None)"

definition resource_of_object :: "gvk \<Rightarrow> obj \<Rightarrow> objmeta \<Rightarrow> gc_resource" where
  "resource_of_object g ob m =
     \<lparr>gr_gvk = g, gr_namespace = om_namespace m, gr_name = om_name m, gr_uid = om_uid m,
      gr_creation = om_creation m, gr_object = ob\<rparr>"

definition rr_set :: "gvk \<Rightarrow> obj \<Rightarrow> release_resources \<Rightarrow> release_resources" where
  "rr_set g ob rr =
     (if g \<in> set (rr_ignored rr) then rr
      else case o_meta ob of
        None \<Rightarrow> rr
      | Some m \<Rightarrow>
          (case release_owner m of
             None \<Rightarrow> rr
           | Some ow \<Rightarrow>
               (let e = (case map_of (rr_releases rr) (or_uid ow) of
                           Some e \<Rightarrow> e
                         | None \<Rightarrow> \<lparr>ge_namespace = om_namespace m, ge_name = or_name ow,
                                    ge_uid = or_uid ow, ge_resources = []\<rparr>);
                    e' = e\<lparr>ge_resources := AList.update (om_uid m) (resource_of_object g ob m) (ge_resources e)\<rparr>
                in rr\<lparr>rr_releases := AList.update (or_uid ow) e' (rr_releases rr)\<rparr>)))"

definition rr_remove :: "obj \<Rightarrow> release_resources \<Rightarrow> release_resources" where
  "rr_remove ob rr =
     (case o_meta ob of
        None \<Rightarrow> rr
      | Some m \<Rightarrow>
          (case release_owner m of
             None \<Rightarrow> rr
           | Some ow \<Rightarrow>
               (case map_of (rr_releases rr) (or_uid ow) of
                  None \<Rightarrow> rr
                | Some e \<Rightarrow>
                    (let e' = e\<lparr>ge_resources := AList.delete (om_uid m) (ge_resources e)\<rparr>
                     in if ge_resources e' = []
                        then rr\<lparr>rr_releases := AList.delete (ge_uid e') (rr_releases rr)\<rparr>
                        else rr\<lparr>rr_releases := AList.update (or_uid ow) e' (rr_releases rr)\<rparr>))))"

definition gc_on_add :: "gvk \<Rightarrow> obj \<Rightarrow> release_resources \<Rightarrow> release_resources" where
  "gc_on_add g ob rr = rr_set g ob rr"

definition gc_on_delete :: "informer_object \<Rightarrow> release_resources \<Rightarrow> release_resources" where
  "gc_on_delete io rr =
     (case io of
        Tombstone _ (Some ob) \<Rightarrow> rr_remove ob rr
      | Tombstone _ None \<Rightarrow> rr
      | Plain ob \<Rightarrow> rr_remove ob rr)"

section \<open>Which histories are retained\<close>

text \<open>
  \<open>ifRetainHistory\<close>. Cutting off more than the whole name panics; \<open>int\<close> has 64 bits, and the sum
  wraps around.
\<close>

definition int64_add :: "int \<Rightarrow> int \<Rightarrow> int" where
  "int64_add a b = sint (word_of_int a + word_of_int b :: 64 word)"

definition if_retain_history :: "int32 \<Rightarrow> release \<Rightarrow> string \<Rightarrow> error + bool" where
  "if_retain_history history_limit rls hname =
     (if \<not> has_prefix hname (rel_name rls)
      then Inl (Errorf (''cur release history '' @ hname @ '' is not belong the release '' @ rel_name rls))
      else if length hname < length (rel_name rls) + 2
      then Inl (Panic ''slice bounds out of range'')
      else case atoi (drop (length (rel_name rls) + 2) hname) of
          Inl e \<Rightarrow> Inl e
        | Inr version \<Rightarrow>
            if version \<le> 0
            then Inl (Errorf (''cur release history '' @ hname @ '' version '' @ int_str version @ '' is  invalid''))
            else Inr (sint (st_version (rel_status rls)) < int64_add version (sint history_limit)))"

section \<open>Collecting\<close>

text \<open>
  The collector's surroundings: the release lister, the codec, the pool, the server, the clock, and
  the order in which a map of resources is visited.
\<close>

record 's gc_env =
  gce_lister :: "string \<Rightarrow> string \<Rightarrow> ('s, obj) io"
  gce_codec :: codec
  gce_client_for :: "gvk \<Rightarrow> string \<Rightarrow> ('s, resource_client) io"
  gce_rest :: "'s rest"
  gce_now :: "('s, int) io"
  gce_range :: "(string \<times> gc_resource) list \<Rightarrow> (string \<times> gc_resource) list"
  gce_history_limit :: int32

type_synonym 's gc_state = "'s \<times> release_resources"

definition gc_remove :: "obj \<Rightarrow> ('s gc_state, unit) io" where
  "gc_remove ob st = (Inr (), (fst st, rr_remove ob (snd st)))"

definition gc_resources :: "'s gc_env \<Rightarrow> string \<Rightarrow> ('s gc_state, gc_resource list) io" where
  "gc_resources env uid st = (Inr (resources_of_release (gce_range env) uid (snd st)), st)"

definition key_for_resource :: "gvk \<Rightarrow> string \<Rightarrow> string" where
  "key_for_resource g nm = gk_string g @ '':'' @ nm"

definition three_seconds :: int where
  "three_seconds = 3 * 10 ^ 9"

text \<open>The deletion of a resource, only if it still has the uid that was seen.\<close>

definition gc_delete :: "'s gc_env \<Rightarrow> gc_resource \<Rightarrow> ('s gc_state, unit) io" where
  "gc_delete env res =
     bind_io (quiet (gce_client_for env (gr_gvk res) (gr_namespace res))) (\<lambda>c.
     try_io (quiet (rc_delete (gce_rest env) c (gr_name res)
               (Some \<lparr>do_propagation = Some ''Background'', do_precondition_uid = Some (gr_uid res)\<rparr>))) (\<lambda>r.
       case r of
         Inl e \<Rightarrow> if \<not> is_not_found e then fail e else gc_remove (gr_object res)
       | Inr _ \<Rightarrow> gc_remove (gr_object res)))"

text \<open>One round of the loop over the resources of a release.\<close>

definition collect_resource ::
  "'s gc_env \<Rightarrow> release \<Rightarrow> bool \<Rightarrow> string list \<Rightarrow> int \<Rightarrow> gc_resource \<Rightarrow> ('s gc_state, unit) io" where
  "collect_resource env r alive desired now res =
     (if now - gr_creation res \<le> three_seconds then ret ()
      else if gr_gvk res = gvk_release_history
      then bind_io (lift_result (if_retain_history (gce_history_limit env) r (gr_name res)))
             (\<lambda>retain. if alive \<and> retain then ret () else gc_delete env res)
      else if key_for_resource (gr_gvk res) (gr_name res) \<notin> set desired then gc_delete env res
      else ret ())"

definition desired_keys :: "obj list \<Rightarrow> objmeta list \<Rightarrow> string list" where
  "desired_keys obs ms = map2 (\<lambda>ob m. key_for_resource (o_gvk ob) (om_name m)) obs ms"

text \<open>
  The first half of \<open>collect\<close>: the release to go by, whether it is alive, and the keys its manifest
  asks for; \<open>None\<close> when there is nothing to do yet.
\<close>

definition collect_view ::
  "codec \<Rightarrow> release \<Rightarrow> error + obj \<Rightarrow> error + (release \<times> bool \<times> string list) option" where
  "collect_view cdc r found =
     (case found of
        Inl e \<Rightarrow> if \<not> is_not_found e then Inl e else Inr (Some (r, False, []))
      | Inr ob \<Rightarrow>
          bind_result (accessor_for_object ob) (\<lambda>m.
            if rel_uid r \<noteq> om_uid m then Inr (Some (r, False, []))
            else bind_result (as_release ob) (\<lambda>cur.
              if st_manifest (rel_status cur) = [] then Inr None
              else bind_result (accessors_for_resources cdc (split_manifest (st_manifest (rel_status cur))))
                     (\<lambda>(obs, ms). Inr (Some (cur, True, desired_keys obs ms))))))"

definition collect :: "'s gc_env \<Rightarrow> release \<Rightarrow> ('s gc_state, unit) io" where
  "collect env r =
     bind_io (try_io (quiet (gce_lister env (rel_namespace r) (rel_name r)))
                (\<lambda>found. lift_result (collect_view (gce_codec env) r found))) (\<lambda>t.
       case t of
         None \<Rightarrow> ret ()
       | Some (cur, alive, desired) \<Rightarrow>
           bind_io (quiet (gce_now env)) (\<lambda>now.
           bind_io (gc_resources env (rel_uid cur)) (\<lambda>rs.
             for_io (collect_resource env cur alive desired now) rs)))"

section \<open>The table of resources\<close>

definition resource_entry_ok :: "gvk list \<Rightarrow> string \<Rightarrow> string \<Rightarrow> gc_resource \<Rightarrow> bool" where
  "resource_entry_ok ignored uid k res \<longleftrightarrow>
     gr_uid res = k \<and> gr_gvk res \<notin> set ignored \<and>
     (\<exists>m ow. o_meta (gr_object res) = Some m \<and> res = resource_of_object (gr_gvk res) (gr_object res) m \<and>
        release_owner m = Some ow \<and> or_uid ow = uid)"

definition rr_ok :: "release_resources \<Rightarrow> bool" where
  "rr_ok rr \<longleftrightarrow>
     (\<forall>uid e. map_of (rr_releases rr) uid = Some e \<longrightarrow>
        ge_uid e = uid \<and> ge_resources e \<noteq> [] \<and> distinct (map fst (ge_resources e)) \<and>
        (\<forall>k res. map_of (ge_resources e) k = Some res \<longrightarrow> resource_entry_ok (rr_ignored rr) uid k res))"

lemma rr_ok_new [simp]: "rr_ok (new_release_resources ignored)"
  by (simp add: rr_ok_def new_release_resources_def)

lemma resource_entry_new:
  "o_meta ob = Some m \<Longrightarrow> release_owner m = Some ow \<Longrightarrow> g \<notin> set ignored \<Longrightarrow>
     resource_entry_ok ignored (or_uid ow) (om_uid m) (resource_of_object g ob m)"
  by (simp add: resource_entry_ok_def resource_of_object_def)

lemma update_nonempty [simp]: "AList.update k v al \<noteq> []"
  by (induction al) auto

lemma rr_ok_set: 
  assumes ok: "rr_ok rr"
  shows "rr_ok (rr_set g ob rr)"
proof (cases "g \<in> set (rr_ignored rr) \<or> o_meta ob = None \<or> release_owner (the (o_meta ob)) = None")
  case True
  with ok show ?thesis by (auto simp: rr_set_def split: option.splits)
next
  case False
  then obtain m ow where m: "o_meta ob = Some m" "release_owner m = Some ow" "g \<notin> set (rr_ignored rr)" by auto
  note new = resource_entry_new[OF m]
  show ?thesis
  proof (cases "map_of (rr_releases rr) (or_uid ow)")
    case None
    with ok new m show ?thesis
      by (auto simp: rr_ok_def rr_set_def Let_def update_conv')
  next
    case (Some e)
    with ok have e: "ge_uid e = or_uid ow" "distinct (map fst (ge_resources e))"
      "\<And>k res. map_of (ge_resources e) k = Some res \<Longrightarrow> resource_entry_ok (rr_ignored rr) (or_uid ow) k res"
      unfolding rr_ok_def by blast+
    from ok Some new m e show ?thesis
      by (auto simp: rr_ok_def rr_set_def Let_def update_conv' distinct_update split: if_splits)
  qed
qed

lemma rr_ok_remove:
  assumes ok: "rr_ok rr"
  shows "rr_ok (rr_remove ob rr)"
proof (cases "o_meta ob = None \<or> release_owner (the (o_meta ob)) = None")
  case True
  with ok show ?thesis by (auto simp: rr_remove_def split: option.splits)
next
  case False
  then obtain m ow where m: "o_meta ob = Some m" "release_owner m = Some ow" by auto
  show ?thesis
  proof (cases "map_of (rr_releases rr) (or_uid ow)")
    case None
    with ok m show ?thesis by (simp add: rr_remove_def)
  next
    case (Some e)
    with ok have e: "ge_uid e = or_uid ow" "distinct (map fst (ge_resources e))"
      "\<And>k res. map_of (ge_resources e) k = Some res \<Longrightarrow> resource_entry_ok (rr_ignored rr) (or_uid ow) k res"
      unfolding rr_ok_def by blast+
    from ok Some m e show ?thesis
      by (auto simp: rr_ok_def rr_remove_def Let_def update_conv' delete_conv' distinct_delete split: if_splits)
  qed
qed

lemma rr_ignored_frame [simp]:
  "rr_ignored (rr_set g ob rr) = rr_ignored rr" "rr_ignored (rr_remove ob rr) = rr_ignored rr"
  by (simp_all add: rr_set_def rr_remove_def Let_def split: option.splits)

text \<open>The resource with a uid under a release.\<close>

definition tracked :: "release_resources \<Rightarrow> string \<Rightarrow> string \<Rightarrow> gc_resource option" where
  "tracked rr uid k = (case map_of (rr_releases rr) uid of None \<Rightarrow> None | Some e \<Rightarrow> map_of (ge_resources e) k)"

lemma tracked_set:
  assumes "g \<notin> set (rr_ignored rr)" "o_meta ob = Some m" "release_owner m = Some ow"
  shows "tracked (rr_set g ob rr) uid k =
     (if uid = or_uid ow \<and> k = om_uid m then Some (resource_of_object g ob m) else tracked rr uid k)"
  using assms by (auto simp: tracked_def rr_set_def Let_def update_conv' split: option.splits)

lemma tracked_remove:
  assumes "rr_ok rr" and "o_meta ob = Some m" "release_owner m = Some ow"
  shows "tracked (rr_remove ob rr) uid k =
     (if uid = or_uid ow \<and> k = om_uid m then None else tracked rr uid k)"
proof (cases "map_of (rr_releases rr) (or_uid ow)")
  case None
  with assms show ?thesis by (auto simp: tracked_def rr_remove_def)
next
  case (Some e)
  with assms(1) have uid: "ge_uid e = or_uid ow" unfolding rr_ok_def by blast
  have del: "map_of (AList.delete (om_uid m) (ge_resources e)) k =
      (if k = om_uid m then None else map_of (ge_resources e) k)" for k
    by (simp add: delete_conv')
  show ?thesis
  proof (cases "AList.delete (om_uid m) (ge_resources e) = []")
    case True
    then have "map_of (AList.delete (om_uid m) (ge_resources e)) k = None" for k by simp
    then have "k \<noteq> om_uid m \<Longrightarrow> map_of (ge_resources e) k = None" for k
      using del[of k] by simp
    with assms Some uid True show ?thesis
      by (auto simp: tracked_def rr_remove_def Let_def delete_conv')
  next
    case False
    with assms Some uid show ?thesis
      by (auto simp: tracked_def rr_remove_def Let_def update_conv' del)
  qed
qed

section \<open>Retention of histories by name\<close>

text \<open>For a name that \<open>generateReleaseHistoryName\<close> made, the version is read back.\<close>

lemma sint_int32_bounds: "- (2 ^ 31) \<le> sint (v :: int32)" "sint (v :: int32) < 2 ^ 31"
  using sint_range_size[of v] by (simp_all add: word_size)

lemma int64_add_small:
  assumes "- (2 ^ 62) \<le> a" "a < 2 ^ 62" "- (2 ^ 62) \<le> b" "b < 2 ^ 62"
  shows "int64_add a b = a + b"
proof -
  have "sint (word_of_int a :: 64 word) = a" "sint (word_of_int b :: 64 word) = b"
    "signed_take_bit 63 (a + b) = a + b"
    using assms by (auto simp: sint_sbintrunc' intro!: signed_take_bit_int_eq_self)
  then show ?thesis by (simp add: int64_add_def sint_word_ariths)
qed

lemma retain_named_history:
  assumes "0 < sint v"
  shows "if_retain_history limit r (history_name (rel_name r) v) =
           Inr (sint (st_version (rel_status r)) - sint limit < sint v)"
proof -
  have cut: "drop (length (rel_name r) + 2) (history_name (rel_name r) v) = int_str (sint v)"
    by (simp add: history_name_def)
  have long: "\<not> length (history_name (rel_name r) v) < length (rel_name r) + 2"
    by (simp add: history_name_def)
  have prefix: "has_prefix (history_name (rel_name r) v) (rel_name r)"
    by (simp add: history_name_def has_prefix_iff)
  have read: "atoi (int_str (sint v)) = Inr (sint v)"
    using sint_int32_bounds[of v] by (intro atoi_int_str) auto
  have sum: "int64_add (sint v) (sint limit) = sint v + sint limit"
    using sint_int32_bounds[of v] sint_int32_bounds[of limit] by (intro int64_add_small) auto
  from assms show ?thesis
    unfolding if_retain_history_def cut read using prefix long by (auto simp: sum)
qed

section \<open>What is deleted\<close>

definition garbage :: "int32 \<Rightarrow> release \<Rightarrow> bool \<Rightarrow> string list \<Rightarrow> int \<Rightarrow> gc_resource \<Rightarrow> bool" where
  "garbage limit r alive desired now res \<longleftrightarrow>
     three_seconds < now - gr_creation res \<and>
     (if gr_gvk res = gvk_release_history
      then \<not> (alive \<and> if_retain_history limit r (gr_name res) = Inr True)
      else key_for_resource (gr_gvk res) (gr_name res) \<notin> set desired)"

text \<open>The one request that deletes a resource and no other that took its name.\<close>

definition deletes :: "gc_resource \<Rightarrow> rest_request \<Rightarrow> bool" where
  "deletes res rq \<longleftrightarrow>
     rq_verb rq = DELETE \<and> rq_name rq = Some (gr_name res) \<and>
     rq_body rq = BDelete (Some \<lparr>do_propagation = Some ''Background'',
                               do_precondition_uid = Some (gr_uid res)\<rparr>)"

type_synonym 's sent = "'s \<times> (rest_request \<times> (error + obj)) list"

definition traced_gc :: "'s gc_env \<Rightarrow> 's sent gc_env" where
  "traced_gc env =
     \<lparr>gce_lister = (\<lambda>ns nm. quiet (gce_lister env ns nm)), gce_codec = gce_codec env,
      gce_client_for = (\<lambda>g ns. quiet (gce_client_for env g ns)),
      gce_rest = (\<lambda>rq. logged (\<lambda>a. (rq, a)) (gce_rest env rq)),
      gce_now = quiet (gce_now env), gce_range = gce_range env,
      gce_history_limit = gce_history_limit env\<rparr>"

definition only_deletes :: "(gc_resource \<Rightarrow> bool) \<Rightarrow> 's sent gc_state \<Rightarrow> bool" where
  "only_deletes P st \<longleftrightarrow> (\<forall>(rq, a) \<in> set (snd (fst st)). \<exists>res. P res \<and> deletes res rq)"

lemma only_deletes_sent:
  "only_deletes P st \<Longrightarrow> P res \<Longrightarrow> deletes res rq \<Longrightarrow>
     only_deletes P ((s', (rq, a) # snd (fst st)), rr)"
  by (auto simp: only_deletes_def)

lemma only_deletes_frame: "only_deletes P st \<Longrightarrow> only_deletes P ((s', snd (fst st)), rr)"
  by (simp add: only_deletes_def)

lemma deletes_request:
  "deletes res (request c DELETE (Some (gr_name res)) []
     (BDelete (Some \<lparr>do_propagation = Some ''Background'', do_precondition_uid = Some (gr_uid res)\<rparr>)))"
  by (simp add: deletes_def request_def)

lemma wp_gc_remove [wp_simps]: "wp (gc_remove ob) Q st = Q (Inr ()) (fst st, rr_remove ob (snd st))"
  by (simp add: wp_def gc_remove_def)

lemma wp_gc_resources [wp_simps]:
  "wp (gc_resources env uid) Q st = Q (Inr (resources_of_release (gce_range env) uid (snd st))) st"
  by (simp add: wp_def gc_resources_def)

lemma traced_gc_simps [simp]:
  "gce_codec (traced_gc env) = gce_codec env" "gce_range (traced_gc env) = gce_range env"
  "gce_history_limit (traced_gc env) = gce_history_limit env"
  by (simp_all add: traced_gc_def)

lemma wp_quiet2:
  "(\<And>r s'. Q r ((s', snd (fst st)), snd st)) \<Longrightarrow> wp (quiet (quiet m)) Q st"
  by (simp add: wp_def quiet_def split: prod.splits)

lemma wp_quiet_logged:
  "(\<And>r s'. Q r ((s', f r # snd (fst st)), snd st)) \<Longrightarrow> wp (quiet (logged f m)) Q st"
  by (simp add: wp_def quiet_def logged_def split: prod.splits)

lemma gc_delete_only:
  assumes "P res" and "only_deletes P st"
  shows "wp (gc_delete (traced_gc env) res) (\<lambda>_. only_deletes P) st"
proof -
  have rest: "quiet (rc_delete (gce_rest (traced_gc env)) c nm opts) =
      quiet (bind_io (logged (\<lambda>a. (request c DELETE (Some nm) [] (BDelete opts), a))
        (gce_rest env (request c DELETE (Some nm) [] (BDelete opts)))) (\<lambda>_. ret ()))" for c nm opts
    by (simp add: rc_delete_def traced_gc_def)
  have bind: "wp (quiet (bind_io (logged f m) (\<lambda>_. ret ()))) Q st1"
    if "\<And>r x s'. Q r ((s', f x # snd (fst st1)), snd st1)" for f m Q and st1 :: "'a sent gc_state"
    using that by (simp add: wp_def quiet_def bind_io_def logged_def ret_def split: prod.splits sum.splits)
  have client: "gce_client_for (traced_gc env) g ns = quiet (gce_client_for env g ns)" for g ns
    by (simp add: traced_gc_def)
  show ?thesis
    unfolding gc_delete_def wp_simps rest client
    by (intro wp_quiet2)
      (auto simp: wp_simps split: sum.splits
        intro!: bind only_deletes_frame assms(2) only_deletes_sent[OF assms(2,1) deletes_request])
qed

lemma collect_resource_only:
  assumes "only_deletes P st" and "garbage (gce_history_limit env) r alive desired now res \<Longrightarrow> P res"
  shows "wp (collect_resource (traced_gc env) r alive desired now res) (\<lambda>_. only_deletes P) st"
  using assms
  by (auto simp: collect_resource_def garbage_def wp_simps split: sum.splits intro!: gc_delete_only)

lemma collect_only:
  fixes env :: "'s gc_env"
  assumes lister: "\<And>s. gce_lister env (rel_namespace r) (rel_name r) s = (found, s)"
    and clock: "\<And>s. gce_now env s = (Inr now, s)"
    and view: "collect_view (gce_codec env) r found = Inr (Some (cur, alive, desired))"
  shows "wp (collect (traced_gc env) r)
     (\<lambda>_. only_deletes (\<lambda>res. res \<in> set (resources_of_release (gce_range env) (rel_uid cur) rr) \<and>
        garbage (gce_history_limit env) cur alive desired now res)) ((s, []), rr)"
proof -
  let ?P = "\<lambda>res. res \<in> set (resources_of_release (gce_range env) (rel_uid cur) rr) \<and>
        garbage (gce_history_limit env) cur alive desired now res"
  have start: "only_deletes ?P ((s', []), rr)" for s' by (simp add: only_deletes_def)
  have l: "quiet (gce_lister (traced_gc env) (rel_namespace r) (rel_name r)) st = (found, st)" for st :: "'s sent gc_state"
    by (simp add: traced_gc_def quiet_def lister)
  have c: "quiet (gce_now (traced_gc env)) st = (Inr now, st)" for st :: "'s sent gc_state"
    by (simp add: traced_gc_def quiet_def clock)
  have wl: "wp (quiet (gce_lister (traced_gc env) (rel_namespace r) (rel_name r))) Q st = Q found st"
    for Q and st :: "'s sent gc_state"
    by (simp add: wp_def l)
  have wc: "wp (quiet (gce_now (traced_gc env))) Q st = Q (Inr now) st"
    for Q and st :: "'s sent gc_state"
    by (simp add: wp_def c)
  have loop: "wp (for_io (collect_resource (traced_gc env) cur alive desired now)
      (resources_of_release (gce_range env) (rel_uid cur) rr)) (\<lambda>_. only_deletes ?P) ((s, []), rr)"
    by (rule wp_for_inv) (auto intro!: collect_resource_only start)
  show ?thesis
    using start loop view
    by (auto simp: collect_def wp_simps wl wc split: sum.splits)
qed

end
