(* ===== verification/Collector_Loop.thy ===== *)
theory Collector_Loop
  imports Garbage_Collector
begin

text \<open>
  The goroutines of \<open>pkg/controller/gc/controller.go\<close> around \<open>collect\<close>: the informers queue releases
  and keep the table, the workers take items from the queue, and \<open>resync\<close> queues a fake release for
  every release in the table, as many at a time as there are idle workers. They are a step relation:
  a step is an event of the informers, what one worker does between two waits, one round of \<open>resync\<close>,
  or the end of a delay. A collection is one step.
\<close>

section \<open>Items\<close>

text \<open>Items of the queue are pointers; the number tells them apart.\<close>

datatype gc_object = GCRelease release | GCOther

type_synonym gc_item = "nat \<times> gc_object"

text \<open>
  \<open>processNextWorkItem\<close> on the item it was given: whether the worker goes on, and what it did to the
  queue; \<open>None\<close> when the collection panics, which ends the process.
\<close>

definition gc_process ::
  "'s gc_env \<Rightarrow> gc_item \<Rightarrow> gc_item work_queue \<Rightarrow> 's gc_state \<Rightarrow> (bool \<times> gc_item work_queue \<times> 's gc_state) option" where
  "gc_process env item q st =
     (case snd item of
        GCOther \<Rightarrow> Some (False, wq_done item q, st)
      | GCRelease r \<Rightarrow>
          (case collect env r st of
             (Inl e, st') \<Rightarrow> if is_panic e then None else Some (True, wq_done item (wq_add_rate_limited item q), st')
           | (Inr _, st') \<Rightarrow> Some (True, wq_done item (wq_forget item q), st')))"

text \<open>
  The inner loop of \<open>resync\<close>: while workers are idle, the next fake releases are queued. Its round
  takes the number of workers and of those that are working, and returns how far it got.
\<close>

definition resync_round ::
  "int32 \<Rightarrow> int32 \<Rightarrow> gc_item list \<Rightarrow> nat \<Rightarrow> gc_item work_queue \<Rightarrow> nat \<times> gc_item work_queue" where
  "resync_round workers working fakes synced q =
     (if 0 < sint (workers - working)
      then (let n = min (length fakes - synced) (nat (sint (workers - working)))
            in (synced + n, fold wq_add (take n (drop synced fakes)) q))
      else (synced, q))"

text \<open>\<open>enqueue\<close>: a tombstone is replaced by the object in it; what is queued may be something else.\<close>

definition gc_enqueue :: "nat \<Rightarrow> informer_object \<Rightarrow> gc_item work_queue \<Rightarrow> gc_item work_queue" where
  "gc_enqueue p io q =
     wq_add (p, case last_known io of
                  None \<Rightarrow> GCOther
                | Some ob \<Rightarrow> (case as_release ob of Inl _ \<Rightarrow> GCOther | Inr r \<Rightarrow> GCRelease r)) q"

section \<open>The loop\<close>

record 's collector_loop =
  cl_queue :: "gc_item work_queue"
  cl_workers :: int32
  cl_working :: int32
  cl_busy :: "gc_item list"
  cl_fakes :: "gc_item list"
  cl_synced :: nat
  cl_next :: nat
  cl_gc :: "'s gc_state"

definition new_collector_loop :: "int32 \<Rightarrow> 's \<Rightarrow> gvk list \<Rightarrow> 's collector_loop" where
  "new_collector_loop workers s ignored =
     \<lparr>cl_queue = new_work_queue, cl_workers = workers, cl_working = 0, cl_busy = [], cl_fakes = [], cl_synced = 0,
      cl_next = 0, cl_gc = (s, new_release_resources ignored)\<rparr>"

datatype collector_event =
  ReleaseEvent nat informer_object | ObjectSet gvk obj | ObjectRemoved informer_object
  | Taken gc_item | Collected gc_item | ResyncStarted | ResyncRound | Due gc_item

text \<open>
  \<open>Run\<close>: the workers are counted before the wait for the caches, which waits for nothing since no
  informer is in \<open>synced\<close>. The number is that of the worker goroutines that are started; the resync
  goes on beside them.
\<close>

definition run_collector :: "int32 \<Rightarrow> bool \<Rightarrow> 's collector_loop \<Rightarrow> nat \<times> 's collector_loop" where
  "run_collector workers synced c =
     (let c' = c\<lparr>cl_workers := cl_workers c + workers\<rparr>
      in if \<not> synced then (0, c') else (nat (sint workers), c'))"

lemma run_collector_new:
  "run_collector workers True (new_collector_loop 0 s ignored) = (nat (sint workers), new_collector_loop workers s ignored)"
  by (simp add: run_collector_def new_collector_loop_def)

definition fake_items :: "nat \<Rightarrow> release list \<Rightarrow> gc_item list" where
  "fake_items p rs = zip [p..<p + length rs] (map GCRelease rs)"

inductive collector_step ::
  "'s gc_env \<Rightarrow> ((string \<times> gc_release) list \<Rightarrow> (string \<times> gc_release) list) \<Rightarrow> collector_event
     \<Rightarrow> 's collector_loop \<Rightarrow> 's collector_loop \<Rightarrow> bool"
  for env rng where
    release_event:
      "collector_step env rng (ReleaseEvent p io) s
         (s\<lparr>cl_queue := gc_enqueue p io (cl_queue s), cl_next := max (cl_next s) (Suc p)\<rparr>)"
  | object_set:
      "collector_step env rng (ObjectSet g ob) s (s\<lparr>cl_gc := (fst (cl_gc s), gc_on_add g ob (snd (cl_gc s)))\<rparr>)"
  | object_removed:
      "collector_step env rng (ObjectRemoved io) s (s\<lparr>cl_gc := (fst (cl_gc s), gc_on_delete io (snd (cl_gc s)))\<rparr>)"
  | taken:
      "int (length (cl_busy s)) < sint (cl_workers s) \<Longrightarrow> wq_get (cl_queue s) = Some (item, q) \<Longrightarrow>
         collector_step env rng (Taken item) s
           (s\<lparr>cl_queue := q, cl_working := cl_working s + 1, cl_busy := cl_busy s @ [item]\<rparr>)"
  | collected:
      "item \<in> set (cl_busy s) \<Longrightarrow> gc_process env item (cl_queue s) (cl_gc s) = Some (goes_on, q, st) \<Longrightarrow>
         collector_step env rng (Collected item) s
           (s\<lparr>cl_queue := q, cl_working := cl_working s - 1, cl_busy := remove1 item (cl_busy s), cl_gc := st\<rparr>)"
  | resync_started:
      "length (cl_fakes s) \<le> cl_synced s \<Longrightarrow> fakes = duplicate_releases rng (snd (cl_gc s)) \<Longrightarrow>
         collector_step env rng ResyncStarted s
           (s\<lparr>cl_fakes := fake_items (cl_next s) fakes, cl_synced := 0, cl_next := cl_next s + length fakes\<rparr>)"
  | resync_round:
      "cl_synced s < length (cl_fakes s) \<Longrightarrow>
         resync_round (cl_workers s) (cl_working s) (cl_fakes s) (cl_synced s) (cl_queue s) = (n, q) \<Longrightarrow>
         collector_step env rng ResyncRound s (s\<lparr>cl_synced := n, cl_queue := q\<rparr>)"
  | due:
      "item \<in> set (wq_waiting (cl_queue s)) \<Longrightarrow>
         collector_step env rng (Due item) s (s\<lparr>cl_queue := wq_fire item (cl_queue s)\<rparr>)"

inductive collector_reach ::
  "'s gc_env \<Rightarrow> ((string \<times> gc_release) list \<Rightarrow> (string \<times> gc_release) list) \<Rightarrow> int32 \<Rightarrow> 's \<Rightarrow> gvk list
     \<Rightarrow> 's collector_loop \<Rightarrow> bool"
  for env rng workers s ignored where
    reach_init: "collector_reach env rng workers s ignored (new_collector_loop workers s ignored)"
  | reach_step: "collector_reach env rng workers s ignored c \<Longrightarrow> collector_step env rng e c c' \<Longrightarrow>
      collector_reach env rng workers s ignored c'"

inductive_cases taken_stepE: "collector_step env rng (Taken item) s s'"
inductive_cases collected_stepE: "collector_step env rng (Collected item) s s'"
inductive_cases round_stepE: "collector_step env rng ResyncRound s s'"

section \<open>Workers are counted right\<close>

definition collector_ok :: "'s collector_loop \<Rightarrow> bool" where
  "collector_ok c \<longleftrightarrow>
     wq_ok (cl_queue c) \<and> distinct (cl_busy c) \<and> set (wq_processing (cl_queue c)) = set (cl_busy c) \<and>
     cl_working c = of_nat (length (cl_busy c)) \<and> int (length (cl_busy c)) \<le> max 0 (sint (cl_workers c)) \<and>
     cl_synced c \<le> length (cl_fakes c)"

lemma fold_add_law:
  "wq_ok q \<Longrightarrow> wq_ok (fold wq_add xs q) \<and> set (wq_processing (fold wq_add xs q)) = set (wq_processing q)"
proof (induction xs arbitrary: q)
  case (Cons x xs)
  from wq.add_law[OF Cons.prems, of x] Cons.IH[of "wq_add x q"] show ?case by simp
qed simp

lemma enqueue_law:
  "wq_ok q \<Longrightarrow> wq_ok (gc_enqueue p io q) \<and> set (wq_processing (gc_enqueue p io q)) = set (wq_processing q)"
  using wq.add_law[of q] by (simp add: gc_enqueue_def)

lemma processing_frame [simp]:
  "wq_processing (wq_forget k q) = wq_processing q" "wq_processing (wq_add_rate_limited k q) = wq_processing q"
  by (simp_all add: wq_forget_def wq_add_rate_limited_def Let_def)

lemma fire_law:
  "wq_ok q \<Longrightarrow> wq_ok (wq_fire k q) \<and> set (wq_processing (wq_fire k q)) = set (wq_processing q)"
  using wq.add_law[of "q\<lparr>wq_waiting := remove1 k (wq_waiting q)\<rparr>" k] by (simp add: wq_fire_def)

lemma gc_process_law:
  assumes "gc_process env item q st = Some (goes_on, q', st')" and "wq_ok q" and "item \<in> set (wq_processing q)"
  shows "wq_ok q' \<and> set (wq_processing q') = set (wq_processing q) - {item}"
proof -
  have "q' = wq_done item q \<or> q' = wq_done item (wq_forget item q) \<or> q' = wq_done item (wq_add_rate_limited item q)"
    using assms(1) by (auto simp: gc_process_def split: gc_object.splits prod.splits sum.splits if_splits)
  with wq.finish_law[of q item] wq.finish_law[of "wq_forget item q" item]
    wq.finish_law[of "wq_add_rate_limited item q" item] assms(2,3)
  show ?thesis by auto
qed

lemma collector_ok_new: "collector_ok (new_collector_loop workers s ignored)"
  by (simp add: collector_ok_def new_collector_loop_def new_work_queue_def wq_ok_def)

lemma collector_ok_step:
  assumes "collector_step env rng e c c'" and "collector_ok c"
  shows "collector_ok c'"
  using assms
proof cases
  case (release_event p io)
  with assms(2) enqueue_law[of "cl_queue c" p io] show ?thesis by (auto simp: collector_ok_def)
next
  case (taken item q)
  with assms(2) wq.get_law[of "cl_queue c" item q] show ?thesis by (auto simp: collector_ok_def)
next
  case (collected item goes_on q st)
  have "length (cl_busy c) = Suc (length (remove1 item (cl_busy c)))"
    using length_pos_if_in_set[OF collected(3)] collected(3) by (simp add: length_remove1)
  with collected assms(2) gc_process_law[OF collected(4)] show ?thesis by (auto simp: collector_ok_def)
next
  case (resync_round n q)
  with assms(2) fold_add_law[of "cl_queue c"] show ?thesis
    by (auto simp: collector_ok_def resync_round_def Let_def split: if_splits)
next
  case (due item)
  with assms(2) fire_law[of "cl_queue c" item] show ?thesis by (auto simp: collector_ok_def)
qed (use assms(2) in \<open>auto simp: collector_ok_def\<close>)

lemma new_collector_workers: "cl_workers (new_collector_loop workers s ignored) = workers"
  by (simp add: new_collector_loop_def)

lemma collector_workers_step: "collector_step env rng e c c' \<Longrightarrow> cl_workers c' = cl_workers c"
  by (induction rule: collector_step.induct) simp_all

lemma collector_reach_ok:
  "collector_reach env rng workers s ignored c \<Longrightarrow> collector_ok c \<and> cl_workers c = workers"
  by (induction rule: collector_reach.induct)
    (auto simp: collector_ok_new new_collector_workers collector_workers_step intro: collector_ok_step)

text \<open>The counter of working goroutines, and the room it leaves.\<close>

lemma counter_sint: "int n \<le> sint (w :: int32) \<Longrightarrow> sint (of_nat n :: int32) = int n \<and> sint (w - of_nat n) = sint w - int n"
proof -
  assume n: "int n \<le> sint w"
  have w: "sint w < 2 ^ 31" using sint_lt[of w] by simp
  have n': "sint (of_nat n :: int32) = int n"
    using n w by (simp add: signed_of_nat signed_take_bit_int_eq_self)
  have "sint (w - of_nat n) = signed_take_bit 31 (sint w - int n)"
    using n' by (simp add: sint_word_ariths(2))
  also have "\<dots> = sint w - int n"
    using n w by (simp add: signed_take_bit_int_eq_self)
  finally show ?thesis using n' by simp
qed

lemma resync_round_room:
  assumes "resync_round workers working fakes synced q = (n, q')"
  shows "synced \<le> n" and "int (n - synced) \<le> max 0 (sint (workers - working))"
  using assms by (auto simp: resync_round_def Let_def split: if_splits)

section \<open>A release that cannot be collected\<close>

text \<open>Nothing to do but what waits, and one release in the table.\<close>

definition idle_with :: "((string \<times> gc_release) list \<Rightarrow> (string \<times> gc_release) list) \<Rightarrow> release \<Rightarrow> 's collector_loop \<Rightarrow> bool" where
  "idle_with rng r c \<longleftrightarrow>
     cl_busy c = [] \<and> cl_working c = 0 \<and> wq_queue (cl_queue c) = [] \<and> wq_dirty (cl_queue c) = [] \<and>
     wq_processing (cl_queue c) = [] \<and> \<not> wq_shutting_down (cl_queue c) \<and> length (cl_fakes c) \<le> cl_synced c \<and>
     duplicate_releases rng (snd (cl_gc c)) = [r]"

lemma one_more_waits:
  assumes fails: "\<And>st. \<exists>e. collect env r st = (Inl e, st) \<and> \<not> is_panic e"
    and idle: "idle_with rng r c" and workers: "0 < sint (cl_workers c)"
    and reach: "collector_reach env rng workers s ignored c"
  shows "\<exists>c'. collector_reach env rng workers s ignored c' \<and> idle_with rng r c' \<and> cl_workers c' = cl_workers c \<and>
     wq_waiting (cl_queue c') = wq_waiting (cl_queue c) @ [(cl_next c, GCRelease r)] \<and> cl_next c' = Suc (cl_next c)"
proof -
  let ?item = "(cl_next c, GCRelease r)" and ?q = "cl_queue c"
  obtain e where e: "collect env r (cl_gc c) = (Inl e, cl_gc c)" "\<not> is_panic e" using fails by blast
  define c1 where "c1 = c\<lparr>cl_fakes := [?item], cl_synced := 0, cl_next := Suc (cl_next c)\<rparr>"
  define c2 where "c2 = c1\<lparr>cl_synced := 1, cl_queue := wq_add ?item ?q\<rparr>"
  define q3 where "q3 = (wq_add ?item ?q)\<lparr>wq_queue := [], wq_processing := [?item], wq_dirty := []\<rparr>"
  define c3 where "c3 = c2\<lparr>cl_queue := q3, cl_working := 1, cl_busy := [?item]\<rparr>"
  define c4 where "c4 = c3\<lparr>cl_queue := wq_done ?item (wq_add_rate_limited ?item q3), cl_working := 0, cl_busy := []\<rparr>"
  note idle = idle[unfolded idle_with_def]
  have "collector_step env rng ResyncStarted c c1"
    using collector_step.resync_started[of c "[r]" rng env] idle by (simp add: c1_def fake_items_def upt_rec)
  moreover have "collector_step env rng ResyncRound c1 c2"
    using collector_step.resync_round[of c1 1 "wq_add ?item ?q" env rng] workers idle
    by (simp add: c1_def c2_def resync_round_def)
  moreover have "collector_step env rng (Taken ?item) c2 c3"
    using collector_step.taken[of c2 ?item q3 env rng] workers idle
    by (simp add: c1_def c2_def c3_def q3_def wq_get_def wq_add_def set_insert_def)
  moreover have "collector_step env rng (Collected ?item) c3 c4"
    using collector_step.collected[of ?item c3 env True "wq_done ?item (wq_add_rate_limited ?item q3)" "cl_gc c" rng] e
    by (simp add: c1_def c2_def c3_def c4_def gc_process_def)
  ultimately have "collector_reach env rng workers s ignored c4"
    using reach by (blast intro: reach_step)
  moreover have "idle_with rng r c4 \<and> cl_workers c4 = cl_workers c \<and>
      wq_waiting (cl_queue c4) = wq_waiting ?q @ [?item] \<and> cl_next c4 = Suc (cl_next c)"
    using idle by (simp add: idle_with_def c1_def c2_def c3_def c4_def q3_def wq_done_def wq_add_rate_limited_def wq_add_def)
  ultimately show ?thesis by blast
qed

end
