(* ===== verification/Status_Controller.thy ===== *)
theory Status_Controller
  imports Release_Storage Render_Exec Controller_Keys
begin

text \<open>
  \<open>pkg/controller/status\<close>: the controller that looks up every resource of a release's manifest,
  counts how they are doing and patches the counts into the status of the release.
\<close>

section \<open>Keys of details\<close>

text \<open>
  A regular expression that \<open>Match\<close> looks for without anchors: some substring is in its language.
\<close>

definition found_in :: "(string \<Rightarrow> bool) \<Rightarrow> string \<Rightarrow> bool" where
  "found_in L s = list_ex L (sublists s)"

definition alnum_char :: "char \<Rightarrow> bool" where
  "alnum_char c =
     (let n = of_char c :: nat in (97 \<le> n \<and> n \<le> 122) \<or> (65 \<le> n \<and> n \<le> 90) \<or> (48 \<le> n \<and> n \<le> 57))"

definition name_char :: "char \<Rightarrow> bool" where
  "name_char c = (alnum_char c \<or> c = CHR ''/'' \<or> c = CHR ''.'')"

definition kind_lang :: "string \<Rightarrow> bool" where
  "kind_lang w = list_all alnum_char w"

definition name_lang :: "string \<Rightarrow> bool" where
  "name_lang w = (w \<noteq> [] \<and> list_all name_char w)"

definition key_lang :: "string \<Rightarrow> bool" where
  "key_lang w =
     (name_lang w \<or>
      (let k = takeWhile alnum_char w; r = dropWhile alnum_char w
       in k \<noteq> [] \<and> r \<noteq> [] \<and> hd r = CHR '':'' \<and> name_lang (tl r)))"

definition detail_key :: "string \<Rightarrow> string \<Rightarrow> error + string" where
  "detail_key kind nm =
     (if \<not> found_in kind_lang kind then Inl (Errorf ''invalid kind of key'')
      else if \<not> found_in name_lang nm then Inl (Errorf ''invalid name of key'')
      else if kind = [] then Inr nm
      else Inr (kind @ '':'' @ nm))"

definition parse_key :: "string \<Rightarrow> error + (string \<times> string)" where
  "parse_key key =
     (if \<not> found_in key_lang key then Inl (Errorf ''invalid key'')
      else case index_str key '':'' of
          None \<Rightarrow> Inr ([], key)
        | Some i \<Rightarrow> Inr (take i key, drop (i + 1) key))"

section \<open>Which releases are looked at\<close>

definition normal_details :: "(string \<times> detail_status) list option \<Rightarrow> bool" where
  "normal_details details =
     (case details of None \<Rightarrow> True | Some al \<Rightarrow> list_all (\<lambda>p. ds_reason (snd p) = []) al)"

text \<open>The filter of \<open>UpdateFunc\<close>: is the updated release enqueued?\<close>

definition update_enqueues :: "release \<Rightarrow> release \<Rightarrow> bool" where
  "update_enqueues old new =
     (\<not> (rel_spec old = rel_spec new \<and> normal_details (st_details (rel_status old))))"

fun owning_release_name :: "owner_ref list \<Rightarrow> string" where
  "owning_release_name [] = []"
| "owning_release_name (ow # ows) =
     (if or_kind ow = ''Release'' then or_name ow else owning_release_name ows)"

text \<open>The handlers of events return what they enqueue.\<close>

definition enqueue_child_resource ::
  "(string \<Rightarrow> string \<Rightarrow> error + release) \<Rightarrow> informer_object \<Rightarrow> release option" where
  "enqueue_child_resource lister io =
     (case last_known io of
        None \<Rightarrow> None
      | Some ob \<Rightarrow>
          (case o_meta ob of
             None \<Rightarrow> None
           | Some m \<Rightarrow>
               (let release_name = owning_release_name (om_owners m)
                in if release_name = [] then None
                   else case lister (om_namespace m) release_name of
                       Inl _ \<Rightarrow> None
                     | Inr r \<Rightarrow> Some r)))"

definition annotation_release :: string where
  "annotation_release = ''helm.sh/release''"

definition pod_label_release :: string where
  "pod_label_release = ''controller.caicloud.io/release''"

definition string_at :: "(string \<times> string) list option \<Rightarrow> string \<Rightarrow> string" where
  "string_at m k = (case map_get m k of None \<Rightarrow> [] | Some v \<Rightarrow> v)"

definition enqueue_accessor :: "informer_object \<Rightarrow> string option" where
  "enqueue_accessor io =
     (case last_known io of
        None \<Rightarrow> None
      | Some ob \<Rightarrow>
          (case o_meta ob of
             None \<Rightarrow> None
           | Some m \<Rightarrow>
               (let release_name =
                      (if string_at (om_annotations m) annotation_release \<noteq> []
                       then string_at (om_annotations m) annotation_release
                       else if string_at (om_labels m) pod_label_release \<noteq> []
                       then string_at (om_labels m) pod_label_release
                       else [])
                in if release_name = [] then None
                   else Some (om_namespace m @ ''/'' @ release_name))))"

text \<open>An event names the object it is about; the lister of that kind is asked for it.\<close>

record involved_object =
  iv_kind :: string
  iv_namespace :: string
  iv_name :: string

definition enqueue_event ::
  "(string \<Rightarrow> string \<Rightarrow> string \<Rightarrow> error + obj) \<Rightarrow> involved_object option \<Rightarrow> string option" where
  "enqueue_event lister ev =
     (case ev of
        None \<Rightarrow> None
      | Some iv \<Rightarrow>
          if iv_kind iv \<in> set [''Pod'', ''ReplicaSet'', ''StatefulSet'', ''DaemonSet'']
          then (case lister (iv_kind iv) (iv_namespace iv) (iv_name iv) of
                  Inl _ \<Rightarrow> None
                | Inr ob \<Rightarrow> enqueue_accessor (Plain ob))
          else None)"

section \<open>Detecting\<close>

record resource_status =
  rt_phase :: resource_phase
  rt_reason :: string
  rt_message :: string
  rt_pods :: "pod_statistics option"

definition resource_status_from :: "resource_phase \<Rightarrow> resource_status" where
  "resource_status_from ph = \<lparr>rt_phase = ph, rt_reason = [], rt_message = [], rt_pods = None\<rparr>"

text \<open>
  The surroundings of the controller: the lister of releases, the codec, the store, the judge of
  running objects, the annotations of a resource with the name of the path annotation, the text of
  aggregate errors, and the storage of a release without layers.
\<close>

record 's status_env =
  su_lister :: "string \<Rightarrow> string \<Rightarrow> ('s, release) io"
  su_codec :: codec
  su_layers :: "'s cache_layers"
  su_judge :: "obj \<Rightarrow> ('s, resource_status \<times> error option) io"
  su_annotations :: "string \<Rightarrow> error + anno_field"
  su_path_key :: string
  su_aggregate :: "error list \<Rightarrow> string"
  su_storage :: "'s storage_env"

text \<open>The status of one resource: it is progressing while it does not exist.\<close>

definition resource_status_of ::
  "'s status_env \<Rightarrow> release \<Rightarrow> gvk \<Rightarrow> objmeta \<Rightarrow> ('s, resource_status) io" where
  "resource_status_of env rls g m =
     bind_io (cls_layer_for (su_layers env) g) (\<lambda>ly.
     try_io (lo_ns_get ly (rel_namespace rls) (om_name m)) (\<lambda>found.
       case found of
         Inl e \<Rightarrow> if \<not> is_not_found e then fail e else ret (resource_status_from ResourceProgressing)
       | Inr ob \<Rightarrow>
           bind_io (su_judge env (ob\<lparr>o_gvk := g\<rparr>)) (\<lambda>(st, err).
             case err of
               None \<Rightarrow> ret st
             | Some e \<Rightarrow>
                 ret (st\<lparr>rt_phase := ResourceFailed, rt_reason := ''ErrorJudgeResource'',
                         rt_message := error_text e\<rparr>))))"

definition count_one :: "'k \<Rightarrow> ('k \<times> int32) list \<Rightarrow> ('k \<times> int32) list" where
  "count_one k c = (case map_of c k of Some n \<Rightarrow> AList.update k (n + 1) c | None \<Rightarrow> AList.update k 1 c)"

fun add_counts :: "pod_counter \<Rightarrow> pod_counter \<Rightarrow> pod_counter" where
  "add_counts [] c = c"
| "add_counts ((k, v) # kvs) c =
     add_counts kvs (AList.update k ((case map_of c k of None \<Rightarrow> 0 | Some n \<Rightarrow> n) + v) c)"

definition add_statistics :: "pod_statistics option \<Rightarrow> pod_statistics \<Rightarrow> pod_statistics" where
  "add_statistics stats p =
     (case stats of
        None \<Rightarrow> p
      | Some t \<Rightarrow> \<lparr>ps_old = add_counts (ps_old t) (ps_old p), ps_updated = add_counts (ps_updated t) (ps_updated p)\<rparr>)"

definition count_resource :: "gvk \<Rightarrow> resource_status \<Rightarrow> detail_status \<Rightarrow> detail_status" where
  "count_resource g st d =
     (let key = gvk_string g;
          counter = (case map_of (ds_resources d) key of None \<Rightarrow> [] | Some c \<Rightarrow> c);
          counter' = count_one (rt_phase st) counter;
          d' = (if rt_phase st = ResourceFailed
                then d\<lparr>ds_reason := rt_reason st, ds_message := rt_message st\<rparr> else d)
      in d'\<lparr>ds_resources := AList.update key counter' (ds_resources d')\<rparr>)"

text \<open>What the handlers of one detection write to.\<close>

record detected =
  dt_details :: "(string \<times> detail_status) list"
  dt_pods :: pod_statistics

definition nothing_detected :: detected where
  "nothing_detected = \<lparr>dt_details = [], dt_pods = \<lparr>ps_old = [], ps_updated = []\<rparr>\<rparr>"

definition new_detail :: "string \<Rightarrow> detail_status" where
  "new_detail path = \<lparr>ds_path = path, ds_resources = [], ds_reason = [], ds_message = []\<rparr>"

definition add_pods :: "pod_statistics option \<Rightarrow> ('s \<times> detected, unit) io" where
  "add_pods stats = modify_st (\<lambda>(s, d). (s, d\<lparr>dt_pods := add_statistics stats (dt_pods d)\<rparr>))"

fun detect_resources ::
  "'s status_env \<Rightarrow> release \<Rightarrow> string list \<Rightarrow> detail_status \<Rightarrow> ('s \<times> detected, detail_status) io" where
  "detect_resources env rls [] d = ret d"
| "detect_resources env rls (res # rs) d =
     bind_io (lift_result (accessor_for_resource (su_codec env) res)) (\<lambda>(ob, m).
     bind_io (quiet (resource_status_of env rls (o_gvk ob) m)) (\<lambda>st.
     bind_io (add_pods (rt_pods st)) (\<lambda>_.
       detect_resources env rls rs (count_resource (o_gvk ob) st d))))"

definition keep_detail :: "string \<Rightarrow> detail_status \<Rightarrow> ('s \<times> detected, unit) io" where
  "keep_detail path d = modify_st (\<lambda>(s, dt). (s, dt\<lparr>dt_details := AList.update path d (dt_details dt)\<rparr>))"

definition detect_node :: "'s status_env \<Rightarrow> release \<Rightarrow> string \<Rightarrow> string list \<Rightarrow> ('s \<times> detected, unit) io" where
  "detect_node env rls path rs =
     bind_io (detect_resources env rls rs (new_detail path)) (keep_detail path)"

text \<open>
  The handlers of a run, one after the other in the order of its trace. In the source the handlers
  of siblings write to the same maps without a lock; here each of them runs as a whole.
\<close>

definition outcome :: "error + unit \<Rightarrow> error option" where
  "outcome r = (case r of Inl e \<Rightarrow> Some e | Inr _ \<Rightarrow> None)"

inductive handlers_run ::
  "(string \<Rightarrow> string list \<Rightarrow> ('s, unit) io) \<Rightarrow> node \<Rightarrow> run_event list \<Rightarrow> 's \<Rightarrow> 's \<Rightarrow> bool"
  for h :: "string \<Rightarrow> string list \<Rightarrow> ('s, unit) io" and root :: node where
    run_none: "handlers_run h root [] s s"
  | run_next:
      "n \<in> set (all_nodes root) \<Longrightarrow> h (nd_path n) (nd_resources n) s = (r, s1) \<Longrightarrow>
         handlers_run h root es s1 s2 \<Longrightarrow>
         handlers_run h root (Handled (nd_path n) (outcome r) # es) s s2"

inductive detects ::
  "'s status_env \<Rightarrow> release \<Rightarrow> 's \<Rightarrow> error + ((string \<times> detail_status) list \<times> pod_statistics option) \<Rightarrow> 's \<Rightarrow> bool"
  for env :: "'s status_env" and rls :: release where
    no_manifest: "st_manifest (rel_status rls) = [] \<Longrightarrow> detects env rls s (Inr ([], None)) s"
  | no_carrier:
      "st_manifest (rel_status rls) \<noteq> [] \<Longrightarrow>
         carrier_for_manifest (su_annotations env) (su_path_key env) (st_manifest (rel_status rls)) = Inl e \<Longrightarrow>
         detects env rls s (Inl e) s"
  | empty_carrier:
      "st_manifest (rel_status rls) \<noteq> [] \<Longrightarrow>
         carrier_for_manifest (su_annotations env) (su_path_key env) (st_manifest (rel_status rls)) = Inr None \<Longrightarrow>
         detects env rls s (Inr ([], Some (dt_pods nothing_detected))) s"
  | ran:
      "st_manifest (rel_status rls) \<noteq> [] \<Longrightarrow>
         carrier_for_manifest (su_annotations env) (su_path_key env) (st_manifest (rel_status rls)) = Inr (Some root) \<Longrightarrow>
         carrier_run (su_aggregate env) (\<lambda>_ _ _. True) PositiveOrder (Some root) tr err \<Longrightarrow>
         handlers_run (detect_node env rls) root tr (s, nothing_detected) (s', dt) \<Longrightarrow>
         detects env rls s
           (case err of None \<Rightarrow> Inr (dt_details dt, Some (dt_pods dt)) | Some e \<Rightarrow> Inl e) s'"

section \<open>Patching the status\<close>

text \<open>The keys that are left when those of the empty kind and the unreadable ones are deleted.\<close>

definition kept_key :: "string \<Rightarrow> bool" where
  "kept_key key = (case parse_key key of Inl _ \<Rightarrow> False | Inr (k, _) \<Rightarrow> k \<noteq> [])"

fun set_details :: "(string \<times> detail_status) list \<Rightarrow> (string \<times> detail_status) list \<Rightarrow> (string \<times> detail_status) list" where
  "set_details [] al = al"
| "set_details ((node, st) # rest) al =
     (case detail_key [] node of
        Inl _ \<Rightarrow> set_details rest al
      | Inr key \<Rightarrow> set_details rest (AList.update key st al))"

definition status_modifier ::
  "(string \<times> detail_status) list \<Rightarrow> pod_statistics option \<Rightarrow> release \<Rightarrow> ('s, release) io" where
  "status_modifier found stats r =
     (let old = (case st_details (rel_status r) of None \<Rightarrow> [] | Some al \<Rightarrow> al);
          new = set_details found (filter (\<lambda>p. kept_key (fst p)) old)
      in case stats of
           None \<Rightarrow> fail (Panic ''nil pointer dereference'')
         | Some p \<Rightarrow> ret (r\<lparr>rel_status := (rel_status r)\<lparr>st_details := Some new, st_pods := p\<rparr>\<rparr>))"

text \<open>\<open>syncRelease\<close> ignores the error of the key, and then looks for the release of the empty name.\<close>

definition sync_key :: "string \<Rightarrow> string \<times> string" where
  "sync_key key = (case split_meta_namespace_key key of Inl _ \<Rightarrow> ([], []) | Inr p \<Rightarrow> p)"

inductive syncs :: "'s status_env \<Rightarrow> string \<Rightarrow> 's \<Rightarrow> error option \<Rightarrow> 's \<Rightarrow> bool"
  for env :: "'s status_env" and key :: string where
    not_listed:
      "su_lister env (fst (sync_key key)) (snd (sync_key key)) s = (Inl e, s') \<Longrightarrow>
         syncs env key s (if is_not_found e then None else Some e) s'"
  | nothing_to_do:
      "su_lister env (fst (sync_key key)) (snd (sync_key key)) s = (Inr r, s') \<Longrightarrow>
         st_manifest (rel_status r) = [] \<Longrightarrow> syncs env key s None s'"
  | undetected:
      "su_lister env (fst (sync_key key)) (snd (sync_key key)) s = (Inr r, s1) \<Longrightarrow>
         st_manifest (rel_status r) \<noteq> [] \<Longrightarrow> detects env r s1 (Inl e) s' \<Longrightarrow>
         syncs env key s (Some e) s'"
  | patched:
      "su_lister env (fst (sync_key key)) (snd (sync_key key)) s = (Inr r, s1) \<Longrightarrow>
         st_manifest (rel_status r) \<noteq> [] \<Longrightarrow> detects env r s1 (Inr (found, stats)) s2 \<Longrightarrow>
         storage_patch (storage_for (su_storage env) r) (status_modifier found stats) (s2, r) = (res, (s', kept)) \<Longrightarrow>
         syncs env key s (case res of Inl e \<Rightarrow> Some e | Inr _ \<Rightarrow> None) s'"

section \<open>What the patterns accept\<close>

lemma found_inI: "L w \<Longrightarrow> sublist w s \<Longrightarrow> found_in L s"
  by (auto simp: found_in_def list_ex_iff)

lemma found_inD: "found_in L s \<Longrightarrow> \<exists>w. L w \<and> sublist w s"
  by (auto simp: found_in_def list_ex_iff)

lemma found_char:
  assumes "\<And>w. L w \<Longrightarrow> \<exists>c \<in> set w. P c" and "\<And>c. P c \<Longrightarrow> L [c]"
  shows "found_in L s \<longleftrightarrow> (\<exists>c \<in> set s. P c)"
proof
  assume "found_in L s"
  then obtain w where "L w" "sublist w s" by (blast dest: found_inD)
  with assms(1) show "\<exists>c \<in> set s. P c" by (blast dest: set_mono_sublist)
next
  assume "\<exists>c \<in> set s. P c"
  then obtain c ys zs where "P c" "s = ys @ c # zs" by (auto dest: split_list)
  then have "L [c]" "sublist [c] s" using assms(2) by (auto simp: sublist_def)
  then show "found_in L s" by (rule found_inI)
qed

lemma found_kind [simp]: "found_in kind_lang s"
  by (rule found_inI[of _ "[]"]) (simp_all add: kind_lang_def)

lemma found_name: "found_in name_lang s \<longleftrightarrow> (\<exists>c \<in> set s. name_char c)"
  by (rule found_char) (auto simp: name_lang_def list_all_iff neq_Nil_conv)

lemma found_key: "found_in key_lang s \<longleftrightarrow> (\<exists>c \<in> set s. name_char c)"
proof (rule found_char)
  fix w assume "key_lang w"
  then consider "name_lang w" | "name_lang (tl (dropWhile alnum_char w))"
    by (auto simp: key_lang_def Let_def)
  then show "\<exists>c \<in> set w. name_char c"
  proof cases
    case 1
    then show ?thesis by (cases w) (auto simp: name_lang_def)
  next
    case 2
    then obtain c where "c \<in> set (tl (dropWhile alnum_char w))" "name_char c"
      by (cases "tl (dropWhile alnum_char w)") (auto simp: name_lang_def)
    then have "c \<in> set (dropWhile alnum_char w)" by (cases "dropWhile alnum_char w") auto
    with \<open>name_char c\<close> show ?thesis by (blast dest: set_dropWhileD)
  qed
qed (auto simp: key_lang_def name_lang_def)

text \<open>A key is read back when its kind has no colon and, for the empty kind, its name has none.\<close>

lemma parse_detail_key:
  assumes "detail_key kind nm = Inr key" and "CHR '':'' \<notin> set kind" and "kind = [] \<longrightarrow> CHR '':'' \<notin> set nm"
  shows "parse_key key = Inr (kind, nm)"
proof -
  have valid: "\<exists>c \<in> set nm. name_char c" using assms(1) by (auto simp: detail_key_def found_name split: if_splits)
  have colon: "CHR '':'' \<notin> set s \<Longrightarrow> index_str (s @ '':'' @ t) '':'' = Some (length s)"
    "CHR '':'' \<notin> set s \<Longrightarrow> index_str s '':'' = None" for s t
    by (induction s) (auto simp: has_prefix_def)
  show ?thesis
  proof (cases "kind = []")
    case True
    with assms valid colon(2)[of nm] show ?thesis
      by (auto simp: detail_key_def parse_key_def found_key split: if_splits)
  next
    case False
    then have key: "key = kind @ '':'' @ nm" using assms(1) by (auto simp: detail_key_def split: if_splits)
    have "parse_key (kind @ '':'' @ nm) = Inr (kind, nm)"
      using valid colon(1)[OF assms(2), of nm] by (auto simp: parse_key_def found_key)
    with key show ?thesis by simp
  qed
qed

section \<open>The patched status\<close>

lemma set_details_at:
  assumes "distinct (map fst found)"
  shows "map_of (set_details found al) k =
     (if found_in name_lang k \<and> map_of found k \<noteq> None then map_of found k else map_of al k)"
  using assms
proof (induction found al rule: set_details.induct)
  case (2 node st rest al)
  then have "map_of rest node = None" by (simp add: map_of_eq_None_iff)
  with 2 show ?case by (auto simp: detail_key_def update_conv' split: if_splits)
qed simp

text \<open>
  After the patch the details are the new ones, for the nodes with valid names, and the old ones
  under keys of another kind.
\<close>

definition details_after ::
  "(string \<times> detail_status) list \<Rightarrow> (string \<times> detail_status) list option \<Rightarrow> string \<Rightarrow> detail_status option" where
  "details_after found old k =
     (if found_in name_lang k \<and> map_of found k \<noteq> None then map_of found k
      else if kept_key k then map_get old k else None)"

lemma map_of_filter_key: "map_of (filter (\<lambda>p. P (fst p)) al) k = (if P k then map_of al k else None)"
  by (induction al) auto

lemma status_modifier_details:
  assumes "distinct (map fst found)" and "status_modifier found (Some p) r s = (Inr r', s')"
  shows "\<exists>al. st_details (rel_status r') = Some al \<and> (\<forall>k. map_of al k = details_after found (st_details (rel_status r)) k)"
    and "st_pods (rel_status r') = p" and "rel_spec r' = rel_spec r" and "rel_meta r' = rel_meta r"
  using assms
  by (auto simp: status_modifier_def Let_def ret_def set_details_at details_after_def map_of_filter_key
      map_get_def split: option.splits)

section \<open>The counts\<close>

definition counted :: "detail_status \<Rightarrow> string \<Rightarrow> int32" where
  "counted d key = (case map_of (ds_resources d) key of None \<Rightarrow> 0 | Some c \<Rightarrow> sum_list (map snd c))"

definition counters_ok :: "detail_status \<Rightarrow> bool" where
  "counters_ok d \<longleftrightarrow> (\<forall>key c. map_of (ds_resources d) key = Some c \<longrightarrow> distinct (map fst c))"

lemma sum_update:
  "distinct (map fst c) \<Longrightarrow> sum_list (map snd (AList.update k v c)) =
     (sum_list (map snd c) - (case map_of c k of None \<Rightarrow> 0 | Some n \<Rightarrow> n) + v :: int32)"
  by (induction c) (auto simp: map_of_eq_None_iff split: option.splits)

lemma sum_count_one: "distinct (map fst c) \<Longrightarrow> sum_list (map snd (count_one k c)) = sum_list (map snd c) + 1"
  by (simp add: count_one_def sum_update split: option.splits)

lemma count_resource_counted:
  assumes "counters_ok d"
  shows "counted (count_resource g st d) key = counted d key + (if gvk_string g = key then 1 else 0)"
    and "counters_ok (count_resource g st d)"
proof -
  define c where "c = (case map_of (ds_resources d) (gvk_string g) of None \<Rightarrow> [] | Some c \<Rightarrow> c)"
  have c: "distinct (map fst c)" using assms by (auto simp: c_def counters_ok_def split: option.splits)
  have res: "ds_resources (count_resource g st d) =
      AList.update (gvk_string g) (count_one (rt_phase st) c) (ds_resources d)"
    by (simp add: count_resource_def Let_def c_def)
  have old: "counted d (gvk_string g) = sum_list (map snd c)"
    by (simp add: counted_def c_def split: option.splits)
  show "counted (count_resource g st d) key = counted d key + (if gvk_string g = key then 1 else 0)"
    using old by (auto simp: counted_def res update_conv' sum_count_one[OF c])
  have "distinct (map fst (count_one (rt_phase st) c))"
    using c by (auto simp: count_one_def distinct_update split: option.splits)
  then show "counters_ok (count_resource g st d)"
    using assms by (auto simp: counters_ok_def res update_conv')
qed

text \<open>The resources of a kind among the given texts.\<close>

definition of_kind :: "codec \<Rightarrow> string \<Rightarrow> string list \<Rightarrow> string list" where
  "of_kind c key rs =
     filter (\<lambda>r. case cd_decode c r of Inl _ \<Rightarrow> False | Inr ob \<Rightarrow> gvk_string (o_gvk ob) = key) rs"

definition counts_all ::
  "codec \<Rightarrow> string list \<Rightarrow> detail_status \<Rightarrow> error + detail_status \<Rightarrow> 'x \<Rightarrow> bool" where
  "counts_all c rs d r st \<longleftrightarrow>
     (\<forall>d'. r = Inr d' \<longrightarrow> counters_ok d' \<and> ds_path d' = ds_path d \<and>
        (\<forall>key. counted d' key = counted d key + of_nat (length (of_kind c key rs))))"

lemma count_resource_path [simp]: "ds_path (count_resource g st d) = ds_path d"
  by (simp add: count_resource_def Let_def)

lemma wp_add_pods: "Q (Inr ()) (fst st, (snd st)\<lparr>dt_pods := add_statistics p (dt_pods (snd st))\<rparr>) \<Longrightarrow>
    wp (add_pods p) Q st"
  by (cases st) (simp add: add_pods_def wp_simps)

lemma of_kind_Cons:
  "cd_decode c res = Inr ob \<Longrightarrow>
     length (of_kind c key (res # rs)) = (if gvk_string (o_gvk ob) = key then 1 else 0) + length (of_kind c key rs)"
  by (simp add: of_kind_def)

lemma counts_all_Cons:
  assumes "cd_decode c res = Inr ob" and "counters_ok d"
    and "counts_all c rs (count_resource (o_gvk ob) st d) r x"
  shows "counts_all c (res # rs) d r x"
  unfolding counts_all_def
proof (intro allI impI)
  fix d' assume "r = Inr d'"
  with assms(3) have d': "counters_ok d'" "ds_path d' = ds_path d"
    "counted d' key = counted (count_resource (o_gvk ob) st d) key + of_nat (length (of_kind c key rs))" for key
    by (simp_all add: counts_all_def)
  with count_resource_counted(1)[OF assms(2), of "o_gvk ob" st] of_kind_Cons[OF assms(1), of _ rs]
  show "counters_ok d' \<and> ds_path d' = ds_path d \<and>
      (\<forall>key. counted d' key = counted d key + of_nat (length (of_kind c key (res # rs))))"
    by simp
qed

lemma counts_all_Inl [simp]: "counts_all c rs d (Inl e) x"
  by (simp add: counts_all_def)

lemma wp_add_pods_bind:
  "(\<And>st'. dt_details (snd st') = dt_details (snd st) \<Longrightarrow> wp (f ()) Q st') \<Longrightarrow> wp (bind_io (add_pods p) f) Q st"
  unfolding wp_bind by (rule wp_add_pods) simp

text \<open>One round of the loop over the resources of a node, for any postcondition.\<close>

lemma wp_detect_step:
  assumes "\<And>e st'. dt_details (snd st') = dt_details (snd st) \<Longrightarrow> Q (Inl e) st'"
    and "\<And>ob m x st'. accessor_for_resource (su_codec env) res = Inr (ob, m) \<Longrightarrow>
           dt_details (snd st') = dt_details (snd st) \<Longrightarrow>
           wp (detect_resources env rls rs (count_resource (o_gvk ob) x d)) Q st'"
  shows "wp (detect_resources env rls (res # rs) d) Q st"
proof (cases "accessor_for_resource (su_codec env) res")
  case (Inl e)
  with assms(1) show ?thesis by (simp add: wp_simps)
next
  case (Inr p)
  obtain ob m where p: "p = (ob, m)" by (cases p)
  show ?thesis
    by (auto simp: wp_bind[of "lift_result _"] wp_lift Inr p simp del: bind_result_simps
        intro!: wp_bind_quiet wp_add_pods_bind assms(1) assms(2)[OF Inr[unfolded p]])
qed

lemma detect_resources_counts:
  "counters_ok d \<Longrightarrow> wp (detect_resources env rls rs d) (counts_all (su_codec env) rs d) st"
proof (induction rs arbitrary: d st)
  case Nil
  then show ?case by (simp add: wp_simps counts_all_def of_kind_def)
next
  case (Cons res rs)
  show ?case
  proof (rule wp_detect_step)
    fix ob m x st'
    assume "accessor_for_resource (su_codec env) res = Inr (ob, m)"
    then have ob: "cd_decode (su_codec env) res = Inr ob" by (simp add: accessor_for_resource_Inr)
    show "wp (detect_resources env rls rs (count_resource (o_gvk ob) x d)) (counts_all (su_codec env) (res # rs) d) st'"
      by (rule wp_mono[OF Cons.IH counts_all_Cons[OF ob Cons.prems]])
        (simp add: count_resource_counted(2)[OF Cons.prems])
  qed simp
qed

section \<open>The nodes that are reported\<close>

lemma wp_keep_detail:
  "Q (Inr ()) (fst st, (snd st)\<lparr>dt_details := AList.update path d (dt_details (snd st))\<rparr>) \<Longrightarrow>
     wp (keep_detail path d) Q st"
  by (cases st) (simp add: keep_detail_def wp_simps)

lemma detect_resources_frame:
  "dt_details (snd st) = ds \<Longrightarrow> wp (detect_resources env rls rs d) (\<lambda>_ st'. dt_details (snd st') = ds) st"
proof (induction rs arbitrary: d st)
  case (Cons res rs)
  show ?case by (rule wp_detect_step) (use Cons in auto)
qed (simp add: wp_simps)

lemma detect_node_details:
  "wp (detect_node env rls path rs)
     (\<lambda>r st'. (outcome r = None \<longrightarrow> (\<exists>d. dt_details (snd st') = AList.update path d (dt_details (snd st)))) \<and>
        (outcome r \<noteq> None \<longrightarrow> dt_details (snd st') = dt_details (snd st))) st"
  unfolding detect_node_def wp_bind
  by (rule wp_mono[OF detect_resources_frame[OF refl]])
    (auto simp: outcome_def split: sum.splits intro!: wp_keep_detail)

lemma handlers_details:
  assumes "handlers_run (detect_node env rls) root tr st st'"
  shows "fst ` set (dt_details (snd st')) =
       fst ` set (dt_details (snd st)) \<union> {p. Handled p None \<in> set tr} \<and>
     (distinct (map fst (dt_details (snd st))) \<longrightarrow> distinct (map fst (dt_details (snd st'))))"
  using assms
proof (induction rule: handlers_run.induct)
  case (run_next n s r s1 es s2)
  note node = wpD[OF detect_node_details run_next(2)]
  show ?case
  proof (cases "outcome r = None")
    case True
    with node obtain d where d: "dt_details (snd s1) = AList.update (nd_path n) d (dt_details (snd s))" by blast
    have "{p. Handled p None \<in> set (Handled (nd_path n) (outcome r) # es)} =
        insert (nd_path n) {p. Handled p None \<in> set es}" using True by auto
    with run_next(4) d show ?thesis by (simp add: dom_update distinct_update)
  next
    case False
    with node have same: "dt_details (snd s1) = dt_details (snd s)" by blast
    have "{p. Handled p None \<in> set (Handled (nd_path n) (outcome r) # es)} = {p. Handled p None \<in> set es}"
      using False by auto
    with run_next(4) same show ?thesis by simp
  qed
qed simp

text \<open>A run with any handler is a run with handlers that end the way its trace says.\<close>

lemma exec_pos_restrict:
  "exec_pos A H n tr r \<Longrightarrow> set tr \<subseteq> S \<Longrightarrow> exec_pos A (\<lambda>p _ out. Handled p out \<in> S) n tr r"
  "exec_pos_all A H ns tr errs \<Longrightarrow> set tr \<subseteq> S \<Longrightarrow> exec_pos_all A (\<lambda>p _ out. Handled p out \<in> S) ns tr errs"
proof (induction rule: exec_pos_exec_pos_all.inducts)
  case (pos_failed ch tr errs seen e nm p res)
  then show ?case by (blast intro: exec_pos_exec_pos_all.pos_failed)
next
  case (pos_handled ch tr errs seen p res out nm)
  then show ?case by (auto intro: exec_pos_exec_pos_all.pos_handled)
next
  case (pos_Cons n t r ns ts errs tr)
  then have "set tr = set t \<union> set ts" by (intro set_shuffles)
  with pos_Cons show ?case by (auto intro: exec_pos_exec_pos_all.pos_Cons)
qed (rule exec_pos_exec_pos_all.pos_Nil)

text \<open>When no handler failed, the details are of exactly the nodes of the tree.\<close>

lemma detects_all_nodes:
  assumes "carrier_run A H PositiveOrder (Some root) tr err"
    and "handlers_run (detect_node env rls) root tr (s, nothing_detected) (s', dt)"
    and "\<forall>ev \<in> set tr. he_outcome ev = None"
  shows "err = None" and "fst ` set (dt_details dt) = nd_path ` set (all_nodes root)"
    and "distinct (map fst (dt_details dt))"
proof -
  have "exec_pos A (\<lambda>p _ out. Handled p out \<in> set tr) root tr err"
    using assms(1) exec_pos_restrict(1) by blast
  moreover have "never_fails (\<lambda>p _ out. Handled p out \<in> set tr)"
    using assms(3) by (fastforce simp: never_fails_def)
  ultimately have run: "err = None" "mset tr = mset (map (\<lambda>m. Handled (nd_path m) None) (all_nodes root))"
    using exec_pos_all_good(1) by blast+
  then show "err = None" by simp
  from run(2) have tr: "set tr = (\<lambda>m. Handled (nd_path m) None) ` set (all_nodes root)"
    by (metis list.set_map mset_eq_setD)
  from handlers_details[OF assms(2)] show "distinct (map fst (dt_details dt))"
    "fst ` set (dt_details dt) = nd_path ` set (all_nodes root)"
    by (auto simp: nothing_detected_def tr)
qed

end
