(* ===== verification/Controller_Properties.thy ===== *)
theory Controller_Properties
  imports Collector_Loop Status_Controller Render_Paths
begin

text \<open>
  What the garbage collector and the status controller promise: what is deleted and what is tracked,
  which histories are retained, and what the status of a release says about its resources.
\<close>

section \<open>The garbage collector\<close>

text \<open>
  C12: a collection asks for nothing but deletions of garbage: a resource tracked for the release,
  older than three seconds, that the manifest of the live release does not ask for, or a history
  that is not retained. Every deletion carries the uid that was seen, so that an object which took
  the name since is left alone.
\<close>

theorem collector_deletes_only_garbage:
  fixes env :: "'s gc_env"
  assumes "\<And>s. gce_lister env (rel_namespace r) (rel_name r) s = (found, s)"
    and "\<And>s. gce_now env s = (Inr now, s)"
    and "collect_view (gce_codec env) r found = Inr (Some (cur, alive, desired))"
    and "collect (traced_gc env) r ((s, []), rr) = (res, ((s', sent), rr'))"
  shows "\<forall>(rq, a) \<in> set sent. \<exists>g \<in> set (resources_of_release (gce_range env) (rel_uid cur) rr).
     garbage (gce_history_limit env) cur alive desired now g \<and> deletes g rq"
  using wpD[OF collect_only[where env = env, OF assms(1-3)] assms(4)]
  by (fastforce simp: only_deletes_def)

definition old_meta :: objmeta where
  "old_meta =
     \<lparr>om_name = ''svc'', om_namespace = ''ns'', om_uid = ''k'', om_resource_version = ''1'', om_creation = 0,
      om_labels = None, om_annotations = None,
      om_owners = [\<lparr>or_api_version = release_api_version, or_kind = ''Release'', or_name = ''web'', or_uid = ''u''\<rparr>]\<rparr>"

definition old_service :: obj where
  "old_service =
     \<lparr>o_gvk = \<lparr>g_group = [], g_version = ''v1'', g_kind = ''Service''\<rparr>, o_meta = Some old_meta, o_body = Opaque []\<rparr>"

definition gone_release :: release where
  "gone_release = fake_release \<lparr>ge_namespace = ''ns'', ge_name = ''web'', ge_uid = ''u'', ge_resources = []\<rparr>"

definition service_client :: resource_client where
  "service_client = \<lparr>rcl_api_path = ''/api'', rcl_group = [], rcl_version = ''v1'',
     rcl_resource = \<lparr>ar_name = ''services'', ar_kind = ''Service'', ar_namespaced = True\<rparr>, rcl_ns = ''ns''\<rparr>"

definition collecting_env :: "unit gc_env" where
  "collecting_env =
     \<lparr>gce_lister = (\<lambda>ns nm. fail (NotFound nm)),
      gce_codec = \<lparr>cd_decode = (\<lambda>r. Inr old_service), cd_encode = (\<lambda>ob. Inr [])\<rparr>,
      gce_client_for = (\<lambda>g ns. ret service_client), gce_rest = (\<lambda>rq. ret old_service), gce_now = ret (10 ^ 10),
      gce_range = id, gce_history_limit = 3\<rparr>"

definition tracking_service :: release_resources where
  "tracking_service = gc_on_add (o_gvk old_service) old_service (new_release_resources [])"

lemma old_owner: "release_owner old_meta =
    Some \<lparr>or_api_version = release_api_version, or_kind = ''Release'', or_name = ''web'', or_uid = ''u''\<rparr>"
  by (simp add: release_owner_def old_meta_def release_api_version_def gvk_release_def)

lemma tracked_services: "resources_of_release id ''u'' tracking_service =
    [resource_of_object (o_gvk old_service) old_service old_meta]"
  by (simp add: tracking_service_def gc_on_add_def rr_set_def new_release_resources_def old_service_def old_owner
      resources_of_release_def range_over_def Let_def)

theorem collector_deletes_only_garbage_witness:
  "\<exists>sent rr'. collect (traced_gc collecting_env) gone_release (((), []), tracking_service) =
       (Inr (), (((), sent), rr')) \<and> length sent = 1 \<and>
     (\<forall>(rq, a) \<in> set sent. deletes (resource_of_object (o_gvk old_service) old_service old_meta) rq)"
proof -
  have uid: "rel_uid gone_release = ''u''" by (simp add: gone_release_def fake_release_def)
  have view: "collect_view (gce_codec collecting_env) gone_release (Inl (NotFound ''web'')) =
      Inr (Some (gone_release, False, []))"
    by (simp add: collect_view_def)
  have lister: "gce_lister collecting_env (rel_namespace gone_release) (rel_name gone_release) s = (Inl (NotFound ''web''), s)" for s
    by (simp add: collecting_env_def fail_def gone_release_def fake_release_def)
  have clock: "gce_now collecting_env s = (Inr (10 ^ 10), s)" for s
    by (simp add: collecting_env_def ret_def)
  have "\<exists>sent rr'. collect (traced_gc collecting_env) gone_release (((), []), tracking_service) =
      (Inr (), (((), sent), rr')) \<and> length sent = 1"
    by (simp add: collect_def try_io_def bind_io_def lift_result_def traced_gc_def quiet_def lister view clock
        gc_resources_def uid collecting_env_def[THEN arg_cong[where f = gce_range]] tracked_services
        collect_resource_def resource_of_object_def old_meta_def old_service_def three_seconds_def
        gvk_release_history_def gc_delete_def rc_delete_def logged_def ret_def gc_remove_def)
      (simp add: collecting_env_def ret_def try_io_def quiet_def bind_io_def logged_def gc_remove_def)
  then obtain sent rr' where run: "collect (traced_gc collecting_env) gone_release (((), []), tracking_service) =
      (Inr (), (((), sent), rr'))" and len: "length sent = 1" by blast
  have "gce_range collecting_env = id" by (simp add: collecting_env_def)
  with collector_deletes_only_garbage[where env = collecting_env, OF lister clock view run]
  have "\<forall>(rq, a) \<in> set sent. deletes (resource_of_object (o_gvk old_service) old_service old_meta) rq"
    by (auto simp: uid tracked_services)
  with run len show ?thesis by blast
qed

text \<open>The events of the informers, and what a map from owner and uid to resources makes of them.\<close>

datatype gc_event = ObjectAdded gvk obj | ObjectDeleted informer_object

fun track_event :: "gc_event \<Rightarrow> release_resources \<Rightarrow> release_resources" where
  "track_event (ObjectAdded g ob) rr = gc_on_add g ob rr"
| "track_event (ObjectDeleted io) rr = gc_on_delete io rr"

definition place_of :: "obj \<Rightarrow> (string \<times> string) option" where
  "place_of ob =
     (case o_meta ob of
        None \<Rightarrow> None
      | Some m \<Rightarrow> map_option (\<lambda>ow. (or_uid ow, om_uid m)) (release_owner m))"

type_synonym tracking = "string \<times> string \<Rightarrow> gc_resource option"

fun spec_event :: "gvk list \<Rightarrow> gc_event \<Rightarrow> tracking \<Rightarrow> tracking" where
  "spec_event ignored (ObjectAdded g ob) m =
     (case place_of ob of
        None \<Rightarrow> m
      | Some at \<Rightarrow> if g \<in> set ignored then m else m(at \<mapsto> resource_of_object g ob (the (o_meta ob))))"
| "spec_event ignored (ObjectDeleted io) m =
     (case Option.bind (last_known io) place_of of None \<Rightarrow> m | Some at \<Rightarrow> m(at := None))"

lemma gc_on_delete_last: "gc_on_delete io rr = (case last_known io of None \<Rightarrow> rr | Some ob \<Rightarrow> rr_remove ob rr)"
  by (auto simp: gc_on_delete_def split: informer_object.splits option.splits)

lemma track_event_ok: "rr_ok rr \<Longrightarrow> rr_ok (track_event e rr)"
  by (cases e) (auto simp: gc_on_add_def gc_on_delete_last rr_ok_set rr_ok_remove split: option.splits)

lemma track_event_ignored [simp]: "rr_ignored (track_event e rr) = rr_ignored rr"
  by (cases e) (auto simp: gc_on_add_def gc_on_delete_last split: option.splits)

lemma untracked_set: "place_of ob = None \<or> g \<in> set (rr_ignored rr) \<Longrightarrow> rr_set g ob rr = rr"
  by (auto simp: place_of_def rr_set_def split: option.splits)

lemma untracked_remove: "place_of ob = None \<Longrightarrow> rr_remove ob rr = rr"
  by (auto simp: place_of_def rr_remove_def split: option.splits)

lemma place_of_Some: "place_of ob = Some at \<longleftrightarrow>
    (\<exists>m ow. o_meta ob = Some m \<and> release_owner m = Some ow \<and> at = (or_uid ow, om_uid m))"
  by (auto simp: place_of_def split: option.splits)

lemma track_event_spec:
  assumes "rr_ok rr"
  shows "(\<lambda>(uid, k). tracked (track_event e rr) uid k) = spec_event (rr_ignored rr) e (\<lambda>(uid, k). tracked rr uid k)"
proof (cases e)
  case (ObjectAdded g ob)
  show ?thesis
  proof (cases "place_of ob = None \<or> g \<in> set (rr_ignored rr)")
    case True
    with ObjectAdded show ?thesis by (auto simp: gc_on_add_def untracked_set fun_eq_iff split: option.splits)
  next
    case False
    then obtain m ow where m: "o_meta ob = Some m" "release_owner m = Some ow" "g \<notin> set (rr_ignored rr)"
      by (auto simp: place_of_Some)
    then have "place_of ob = Some (or_uid ow, om_uid m)" by (simp add: place_of_Some)
    with m ObjectAdded show ?thesis by (auto simp: gc_on_add_def tracked_set[OF m(3,1,2)] fun_eq_iff)
  qed
next
  case (ObjectDeleted io)
  show ?thesis
  proof (cases "Option.bind (last_known io) place_of")
    case None
    with ObjectDeleted show ?thesis
      by (cases "last_known io") (auto simp: gc_on_delete_last untracked_remove fun_eq_iff)
  next
    case (Some at)
    then obtain ob m ow where ob: "last_known io = Some ob" "o_meta ob = Some m" "release_owner m = Some ow"
      "at = (or_uid ow, om_uid m)"
      by (cases "last_known io") (auto simp: place_of_Some)
    with Some ObjectDeleted show ?thesis
      by (auto simp: gc_on_delete_last tracked_remove[OF assms ob(2,3)] fun_eq_iff)
  qed
qed

text \<open>
  C24: after any sequence of events the table of the collector holds what a plain map from a release
  and an object's uid to resources would hold: the object last added there and not deleted since. No
  release stays in the table without resources, and none is of an ignored kind. An object that gets
  another owner is added under the new one and stays under the old one, too.
\<close>

theorem table_refines_map:
  "(\<lambda>(uid, k). tracked (fold track_event es (new_release_resources ignored)) uid k) =
     fold (spec_event (remdups ignored)) es (\<lambda>_. None) \<and>
   (\<forall>uid e. map_of (rr_releases (fold track_event es (new_release_resources ignored))) uid = Some e \<longrightarrow>
      ge_uid e = uid \<and> ge_resources e \<noteq> [] \<and> (\<forall>g \<in> snd ` set (ge_resources e). gr_gvk g \<notin> set ignored))"
proof -
  have step: "(\<lambda>(uid, k). tracked (fold track_event es rr) uid k) =
      fold (spec_event (rr_ignored rr)) es (\<lambda>(uid, k). tracked rr uid k) \<and> rr_ok (fold track_event es rr) \<and>
      rr_ignored (fold track_event es rr) = rr_ignored rr" if "rr_ok rr" for rr
    using that
  proof (induction es arbitrary: rr)
    case (Cons e es)
    from Cons.IH[OF track_event_ok[OF Cons.prems, of e]] track_event_spec[OF Cons.prems, of e] show ?case by simp
  qed simp
  let ?rr = "fold track_event es (new_release_resources ignored)"
  note run = step[OF rr_ok_new[of ignored]]
  have empty: "(\<lambda>(uid, k). tracked (new_release_resources ignored) uid k) = (\<lambda>_. None)"
    "rr_ignored (new_release_resources ignored) = remdups ignored"
    by (auto simp: tracked_def new_release_resources_def fun_eq_iff)
  have "ge_uid e = uid \<and> ge_resources e \<noteq> [] \<and> (\<forall>g \<in> snd ` set (ge_resources e). gr_gvk g \<notin> set ignored)"
    if "map_of (rr_releases ?rr) uid = Some e" for uid e
  proof -
    have e: "ge_uid e = uid" "ge_resources e \<noteq> []" "distinct (map fst (ge_resources e))"
      "\<And>k res. map_of (ge_resources e) k = Some res \<Longrightarrow> resource_entry_ok (rr_ignored ?rr) uid k res"
      using run that unfolding rr_ok_def by blast+
    have "gr_gvk g \<notin> set ignored" if "g \<in> snd ` set (ge_resources e)" for g
    proof -
      from that obtain k where "(k, g) \<in> set (ge_resources e)" by auto
      with e(3) have "map_of (ge_resources e) k = Some g" by simp
      from e(4)[OF this] run empty(2) show ?thesis by (simp add: resource_entry_ok_def)
    qed
    with e(1,2) show ?thesis by blast
  qed
  with run empty show ?thesis by simp
qed

theorem table_refines_map_witness:
  "tracked tracking_service ''u'' ''k'' = Some (resource_of_object (o_gvk old_service) old_service old_meta)"
proof -
  have uid: "om_uid old_meta = ''k''" by (simp add: old_meta_def)
  have meta: "o_meta old_service = Some old_meta" by (simp add: old_service_def)
  have place: "place_of old_service = Some (''u'', ''k'')"
    by (simp add: place_of_Some meta old_owner uid)
  from meta place have "(\<lambda>(uid, k). tracked tracking_service uid k) (''u'', ''k'') =
      Some (resource_of_object (o_gvk old_service) old_service old_meta)"
    using table_refines_map[of "[ObjectAdded (o_gvk old_service) old_service]" "[]"]
    by (simp add: tracking_service_def)
  then show ?thesis by simp
qed

text \<open>
  Of the histories that the storage names, the collector keeps for a live release those whose
  version is greater than the current version minus the limit. Nothing bounds them from above: after
  a rollback all histories newer than the current version are kept as well.
\<close>

lemma histories_kept_by_version:
  assumes "0 < sint v"
  shows "if_retain_history limit r (history_name (rel_name r) v) =
     Inr (sint (st_version (rel_status r)) - sint limit < sint v)"
  using assms by (rule retain_named_history)

lemma histories_kept_by_version_example:
  "if_retain_history 3 gone_release (history_name (rel_name gone_release) 5) = Inr True"
  using histories_kept_by_version[of 5 3 gone_release] by (simp add: gone_release_def fake_release_def)



text \<open>
  C35: a release whose collection keeps failing fills the queue. Every round of the resync queues it
  under a new pointer, so the queue does not see that it is there, and every failed item is held to be
  tried again for ever: from an idle moment with one release in the table, any number of items of
  this release can be on hold.
\<close>

theorem failing_collections_pile_up:
  assumes "\<And>st. \<exists>e. collect env r st = (Inl e, st) \<and> \<not> is_panic e"
    and "collector_reach env rng workers s ignored c" and "idle_with rng r c" and "0 < sint workers"
  shows "\<exists>c'. collector_reach env rng workers s ignored c' \<and>
     length (filter (\<lambda>item. snd item = GCRelease r) (wq_waiting (cl_queue c'))) \<ge> n \<and>
     distinct (drop (length (wq_waiting (cl_queue c))) (wq_waiting (cl_queue c')))"
proof -
  have "\<exists>c'. collector_reach env rng workers s ignored c' \<and> idle_with rng r c' \<and> cl_next c' = cl_next c + n \<and>
      wq_waiting (cl_queue c') = wq_waiting (cl_queue c) @ map (\<lambda>p. (p, GCRelease r)) [cl_next c..<cl_next c + n]" for n
  proof (induction n)
    case 0
    with assms(2,3) show ?case by auto
  next
    case (Suc n)
    then obtain c' where c': "collector_reach env rng workers s ignored c'" "idle_with rng r c'" "cl_next c' = cl_next c + n"
      "wq_waiting (cl_queue c') = wq_waiting (cl_queue c) @ map (\<lambda>p. (p, GCRelease r)) [cl_next c..<cl_next c + n]"
      by blast
    have "0 < sint (cl_workers c')" using collector_reach_ok[OF c'(1)] assms(4) by simp
    from one_more_waits[OF assms(1) c'(2) this c'(1)] c'(3,4) show ?case by auto
  qed
  from this[of n] obtain c' where c': "collector_reach env rng workers s ignored c'"
    "wq_waiting (cl_queue c') = wq_waiting (cl_queue c) @ map (\<lambda>p. (p, GCRelease r)) [cl_next c..<cl_next c + n]"
    by blast
  have "inj_on (\<lambda>p. (p, GCRelease r)) A" for A :: "nat set" by (simp add: inj_on_def)
  with c' show ?thesis by (intro exI[of _ c']) (simp add: distinct_map filter_map comp_def)
qed

text \<open>A collector whose lister fails, with one tracked service.\<close>

definition failing_env :: "unit gc_env" where
  "failing_env = collecting_env\<lparr>gce_lister := (\<lambda>_ _. fail (External ''timeout''))\<rparr>"

definition tracked_release :: release where
  "tracked_release = fake_release \<lparr>ge_namespace = ''ns'', ge_name = ''web'', ge_uid = ''u'',
     ge_resources = [(''k'', resource_of_object (o_gvk old_service) old_service old_meta)]\<rparr>"

definition stuck_loop :: "unit collector_loop" where
  "stuck_loop = (new_collector_loop 1 () [])\<lparr>cl_gc := ((), tracking_service)\<rparr>"

theorem failing_collections_pile_up_witness:
  "\<exists>c'. collector_reach failing_env id 1 () [] c' \<and>
     length (filter (\<lambda>item. snd item = GCRelease tracked_release) (wq_waiting (cl_queue c'))) \<ge> 1000"
proof -
  have fails: "\<exists>e. collect failing_env tracked_release st = (Inl e, st) \<and> \<not> is_panic e" for st
    by (cases st) (simp add: collect_def bind_io_def try_io_def quiet_def failing_env_def fail_def lift_result_def
        collect_view_def)
  have "collector_step failing_env id (ObjectSet (o_gvk old_service) old_service) (new_collector_loop 1 () []) stuck_loop"
    using object_set[of failing_env id "o_gvk old_service" old_service "new_collector_loop 1 () []"]
    by (simp add: stuck_loop_def new_collector_loop_def tracking_service_def)
  then have reach: "collector_reach failing_env id 1 () [] stuck_loop"
    by (rule reach_step[OF reach_init])
  have meta: "o_meta old_service = Some old_meta" "om_uid old_meta = ''k''" "om_namespace old_meta = ''ns''"
    by (simp_all add: old_service_def old_meta_def)
  have "duplicate_releases id tracking_service = [tracked_release]"
    by (simp add: duplicate_releases_def tracking_service_def tracked_release_def gc_on_add_def rr_set_def
        new_release_resources_def meta old_owner range_over_def Let_def)
  then have "idle_with id tracked_release stuck_loop"
    by (simp add: idle_with_def stuck_loop_def new_collector_loop_def new_work_queue_def)
  from failing_collections_pile_up[OF fails reach this, of 1000] show ?thesis by auto
qed

section \<open>The status controller\<close>

text \<open>
  The key of a detail is read back as the kind and the name it was made of, when the kind has no
  colon and a name without a kind has none. The patterns are not anchored: they accept every kind
  and every name with one valid character.
\<close>

lemma detail_key_roundtrip:
  assumes "CHR '':'' \<notin> set kind" and "kind = [] \<longrightarrow> CHR '':'' \<notin> set nm"
    and "\<exists>c \<in> set nm. name_char c"
  shows "\<exists>key. detail_key kind nm = Inr key \<and> parse_key key = Inr (kind, nm)"
proof -
  obtain key where key: "detail_key kind nm = Inr key"
    using assms(3) by (cases "kind = []") (auto simp: detail_key_def found_name)
  with parse_detail_key[OF key assms(1,2)] show ?thesis by blast
qed

lemma detail_key_roundtrip_example:
  "\<exists>key. detail_key ''Pod'' ''??a'' = Inr key \<and> parse_key key = Inr (''Pod'', ''??a'')"
proof (rule detail_key_roundtrip)
  have "name_char CHR ''a''" by code_simp
  then show "\<exists>c \<in> set ''??a''. name_char c" by simp
qed simp_all

text \<open>
  C29: the detail of a node counts each of its resources exactly once: the counters of a kind add up
  to the number of its resources of that kind, modulo \<open>2 ^ 32\<close>, whatever their phases are. The
  details of the other nodes stay as they are.
\<close>

theorem node_counts_every_resource:
  assumes "detect_node env rls path rs (s, dt) = (Inr (), (s', dt'))"
  shows "\<exists>d. map_of (dt_details dt') path = Some d \<and> ds_path d = path \<and>
     (\<forall>kind. counted d kind = of_nat (length (of_kind (su_codec env) kind rs))) \<and>
     (\<forall>other. other \<noteq> path \<longrightarrow> map_of (dt_details dt') other = map_of (dt_details dt) other)"
proof -
  have new: "counters_ok (new_detail path)" "counted (new_detail path) kind = 0" "ds_path (new_detail path) = path" for kind
    by (simp_all add: counters_ok_def new_detail_def counted_def)
  obtain d s1 dt1 where d: "detect_resources env rls rs (new_detail path) (s, dt) = (Inr d, (s1, dt1))"
    and keep: "keep_detail path d (s1, dt1) = (Inr (), (s', dt'))"
    using assms by (auto simp: detect_node_def bind_io_def split: prod.splits sum.splits)
  have "dt_details dt1 = dt_details dt"
    using wpD[OF detect_resources_frame[OF refl] d] by simp
  then have dt': "dt_details dt' = AList.update path d (dt_details dt)"
    using keep by (auto simp: keep_detail_def modify_st_def)
  from wpD[OF detect_resources_counts[OF new(1)] d] new(2,3)
  have "ds_path d = path" "counted d kind = of_nat (length (of_kind (su_codec env) kind rs))" for kind
    by (simp_all add: counts_all_def)
  then show ?thesis by (simp add: dt' update_conv')
qed

text \<open>A world in which every resource is a service that runs.\<close>

definition steady_layer :: "unit layer_ops" where
  "steady_layer =
     \<lparr>lo_created = (\<lambda>_. ret ()), lo_updated = (\<lambda>_. ret ()), lo_deleted = (\<lambda>_. ret ()),
      lo_ns_get = (\<lambda>_ _. ret old_service), lo_ns_list = (\<lambda>_ _. ret [])\<rparr>"

definition steady_storage :: "unit storage_env" where
  "steady_storage =
     \<lparr>se_name = ''web'', se_release_patch = (\<lambda>_ _. ret gone_release), se_release_delete = (\<lambda>_. ret ()),
      se_history_create = ret, se_history_get = (\<lambda>nm. fail (NotFound nm)), se_history_list = (\<lambda>_. ret []),
      se_history_delete_collection = (\<lambda>_. ret ()), se_layers = None, se_marshal = (\<lambda>_. Inr []),
      se_merge_patch = (\<lambda>_ _. Inr ''p''), se_now = ret 9, se_render = (\<lambda>_. ret None), se_children = id,
      se_sort = insert_sort, se_valid_label = (\<lambda>_. True)\<rparr>"

definition steady_env :: "unit status_env" where
  "steady_env =
     \<lparr>su_lister = (\<lambda>_ _. ret gone_release), su_codec = \<lparr>cd_decode = (\<lambda>r. Inr old_service), cd_encode = (\<lambda>_. Inr [])\<rparr>,
      su_layers = \<lparr>cls_layer_for = (\<lambda>_. ret steady_layer)\<rparr>,
      su_judge = (\<lambda>_. ret (resource_status_from ResourceRunning, None)),
      su_annotations = (\<lambda>_. Inr (AnnoMap [(''path'', ''web'')])), su_path_key = ''path'',
      su_aggregate = (\<lambda>_. []), su_storage = steady_storage\<rparr>"

lemma steady_node: "\<exists>dt'. detect_node steady_env rls path rs ((), dt) = (Inr (), ((), dt'))"
proof -
  have "\<exists>d' dt'. detect_resources steady_env rls rs d ((), dt) = (Inr d', ((), dt'))" for d dt
  proof (induction rs arbitrary: d dt)
    case (Cons r rs)
    have acc: "accessor_for_resource (su_codec steady_env) r = Inr (old_service, old_meta)"
      by (simp add: accessor_for_resource_Inr) (simp add: steady_env_def old_service_def)
    have stat: "quiet (resource_status_of steady_env rls (o_gvk old_service) old_meta) ((), dt) =
        (Inr (resource_status_from ResourceRunning), ((), dt))"
      by (simp add: quiet_def resource_status_of_def bind_io_def try_io_def steady_env_def steady_layer_def ret_def)
    have pods: "add_pods p ((), dt) = (Inr (), ((), dt\<lparr>dt_pods := add_statistics p (dt_pods dt)\<rparr>))" for p
      by (simp add: add_pods_def modify_st_def)
    from Cons show ?case by (simp add: bind_io_def lift_result_def acc stat pods)
  qed (simp add: ret_def)
  from this[of "new_detail path" dt] obtain d' dt' where
    "detect_resources steady_env rls rs (new_detail path) ((), dt) = (Inr d', ((), dt'))" by blast
  then show ?thesis by (simp add: detect_node_def bind_io_def keep_detail_def modify_st_def)
qed

theorem node_counts_every_resource_witness:
  "\<exists>dt' d. detect_node steady_env gone_release ''web'' [''a'', ''b''] ((), nothing_detected) = (Inr (), ((), dt')) \<and>
     map_of (dt_details dt') ''web'' = Some d \<and> counted d (gvk_string (o_gvk old_service)) = 2"
proof -
  obtain dt' where run: "detect_node steady_env gone_release ''web'' [''a'', ''b''] ((), nothing_detected) =
      (Inr (), ((), dt'))"
    using steady_node by blast
  from node_counts_every_resource[OF run] obtain d where "map_of (dt_details dt') ''web'' = Some d"
    "counted d (gvk_string (o_gvk old_service)) = of_nat (length (of_kind (su_codec steady_env)
       (gvk_string (o_gvk old_service)) [''a'', ''b'']))" by blast
  moreover have "of_kind (su_codec steady_env) (gvk_string (o_gvk old_service)) [''a'', ''b''] = [''a'', ''b'']"
    by (simp add: of_kind_def steady_env_def)
  ultimately show ?thesis using run by (intro exI[of _ dt'] exI[of _ d]) simp
qed

lemma handlers_all_good:
  assumes "\<And>p rs st. \<exists>st'. h p rs st = (Inr (), st')"
  shows "handlers_run h root tr s s' \<Longrightarrow> \<forall>ev \<in> set tr. he_outcome ev = None"
proof (induction rule: handlers_run.induct)
  case (run_next n s r s1 es s2)
  with assms[of "nd_path n" "nd_resources n" s] show ?case by (auto simp: outcome_def)
qed simp


definition busy_release :: release where
  "busy_release = gone_release\<lparr>rel_status := (rel_status gone_release)\<lparr>st_manifest := ''svc''\<rparr>\<rparr>"

lemma busy_carrier:
  "carrier_for_manifest (su_annotations steady_env) (su_path_key steady_env) (st_manifest (rel_status busy_release)) =
     Inr (Some (Node ''web'' ''web'' [''svc''] []))"
proof -
  have "carrier_for_manifest (\<lambda>_. Inr (AnnoMap [(''path'', ''web'')])) ''path'' ''svc'' =
      Inr (Some (Node ''web'' ''web'' [''svc''] []))"
    by code_simp
  then show ?thesis by (simp add: steady_env_def busy_release_def)
qed


text \<open>
  The patch of the status writes the pod statistics and the details that were found: under the
  keys of the nodes with a valid name the new details, nothing else but the old details of other
  kinds. Neither the specification nor the metadata of the release change.
\<close>

lemma patched_status:
  assumes "distinct (map fst found)" and "status_modifier found (Some p) r s = (Inr r', s')"
  shows "rel_spec r' = rel_spec r \<and> rel_meta r' = rel_meta r \<and> st_pods (rel_status r') = p \<and>
     (\<exists>al. st_details (rel_status r') = Some al \<and>
        (\<forall>k. map_of al k = details_after found (st_details (rel_status r)) k))"
  using status_modifier_details[OF assms] by blast

lemma patched_status_example:
  "\<exists>r' al. status_modifier [(''web'', new_detail ''web'')] (Some (dt_pods nothing_detected)) gone_release () = (Inr r', ()) \<and>
     st_details (rel_status r') = Some al \<and> map_of al ''web'' = Some (new_detail ''web'')"
proof -
  obtain r' where run: "status_modifier [(''web'', new_detail ''web'')] (Some (dt_pods nothing_detected)) gone_release () = (Inr r', ())"
    by (simp add: status_modifier_def ret_def Let_def)
  have "found_in name_lang ''web''" by code_simp
  with patched_status[OF _ run] run show ?thesis by (auto simp: details_after_def)
qed

end
