(* ===== verification/Controller_Setup.thy ===== *)
theory Controller_Setup
  imports Garbage_Collector Status_Controller Release_Controller Integration_Store
begin

text \<open>
  \<open>cmd/controller/app\<close> and the constructors of the controllers: the custom resource definitions that
  are made sure of, the kinds the controllers are given, the informers they ask for and the handlers
  they hang on them, and the whole start of the server. The health endpoint and the cutting of the command line
  into flags are left out.
\<close>

section \<open>The custom resource definitions (\<open>crd.go\<close>)\<close>

record crd =
  crd_name :: string
  crd_group :: string
  crd_version :: string
  crd_kind :: string
  crd_list_kind :: string
  crd_plural :: string
  crd_singular :: string

definition crds :: "crd list" where
  "crds =
     [\<lparr>crd_name = ''releases.release.caicloud.io'', crd_group = ''release.caicloud.io'', crd_version = ''v1alpha1'',
       crd_kind = ''Release'', crd_list_kind = ''ReleaseList'', crd_plural = ''releases'', crd_singular = ''release''\<rparr>,
      \<lparr>crd_name = ''releasehistories.release.caicloud.io'', crd_group = ''release.caicloud.io'',
       crd_version = ''v1alpha1'', crd_kind = ''ReleaseHistory'', crd_list_kind = ''ReleaseHistoryList'',
       crd_plural = ''releasehistories'', crd_singular = ''releasehistory''\<rparr>]"

definition ensure_one_crd ::
  "(string \<Rightarrow> ('s, crd) io) \<Rightarrow> (crd \<Rightarrow> ('s, crd) io) \<Rightarrow> crd \<Rightarrow> ('s, unit) io" where
  "ensure_one_crd get create c =
     try_io (get (crd_name c)) (\<lambda>r.
       case r of
         Inr _ \<Rightarrow> ret ()
       | Inl e \<Rightarrow> if \<not> is_not_found e then fail e else bind_io (create c) (\<lambda>_. ret ()))"

definition ensure_crd :: "(string \<Rightarrow> ('s, crd) io) \<Rightarrow> (crd \<Rightarrow> ('s, crd) io) \<Rightarrow> ('s, unit) io" where
  "ensure_crd get create = for_io (ensure_one_crd get create) crds"

section \<open>Kinds (\<open>release.go\<close>)\<close>

definition core_kind :: "string \<Rightarrow> gvk" where
  "core_kind k = \<lparr>g_group = [], g_version = ''v1'', g_kind = k\<rparr>"

definition apps_kind :: "string \<Rightarrow> gvk" where
  "apps_kind k = \<lparr>g_group = ''apps'', g_version = ''v1'', g_kind = k\<rparr>"

definition available_kinds :: "gvk list" where
  "available_kinds =
     [gvk_release, gvk_release_history,
      \<lparr>g_group = ''batch'', g_version = ''v1beta1'', g_kind = ''CronJob''\<rparr>,
      apps_kind ''DaemonSet'', apps_kind ''Deployment'',
      \<lparr>g_group = ''batch'', g_version = ''v1'', g_kind = ''Job''\<rparr>,
      apps_kind ''StatefulSet'', core_kind ''Service'', core_kind ''PersistentVolumeClaim'',
      core_kind ''ConfigMap'', core_kind ''Secret'']"

definition ignored_kinds :: "gvk list" where
  "ignored_kinds = [core_kind ''PersistentVolumeClaim'']"

section \<open>The controllers and what they listen to\<close>

text \<open>
  The handlers of the collector: those of releases queue the release, those of another kind keep the
  table of resources.
\<close>

datatype gc_watch = QueueReleases | TrackKind gvk

fun gc_watches :: "informer_factory \<Rightarrow> gvk list \<Rightarrow> (store_state, gc_watch list) io" where
  "gc_watches fac [] = ret []"
| "gc_watches fac (t # ts) =
     bind_io (informer_for fac t) (\<lambda>_.
     bind_io (gc_watches fac ts) (\<lambda>ws.
       ret ((if t = gvk_release then QueueReleases else TrackKind t) # ws)))"

record garbage_collector =
  gcc_resources :: release_resources
  gcc_watches :: "gc_watch list"
  gcc_ignored :: "gvk list"
  gcc_history_limit :: int32

definition new_garbage_collector ::
  "informer_factory \<Rightarrow> gvk list \<Rightarrow> gvk list \<Rightarrow> int32 \<Rightarrow> (store_state, garbage_collector) io" where
  "new_garbage_collector fac targets ignored limit =
     bind_io (informer_for fac gvk_release) (\<lambda>_.
     bind_io (gc_watches fac targets) (\<lambda>ws.
       ret \<lparr>gcc_resources = new_release_resources ignored, gcc_watches = ws, gcc_ignored = ignored,
            gcc_history_limit = limit\<rparr>))"

text \<open>The informers the status controller waits for, and the handlers it hangs on them.\<close>

datatype status_watch = ReleaseChanges | ChildChanges gvk | ListerOnly gvk | EventChanges | PodChanges

definition extra_resources :: "gvk list" where
  "extra_resources = [apps_kind ''ReplicaSet'', apps_kind ''ControllerRevision'']"

text \<open>Finding the informer of a kind in the factory.\<close>

definition factory_informer :: "resource_map \<Rightarrow> informer_factory \<Rightarrow> gvk \<Rightarrow> error + unit" where
  "factory_informer m fac g =
     bind_result (resource_for m g) (\<lambda>res.
       case if_for_resource fac res of Some e \<Rightarrow> Inl e | None \<Rightarrow> Inr ())"

definition new_status_controller :: "resource_map \<Rightarrow> informer_factory \<Rightarrow> gvk list \<Rightarrow> error + status_watch list" where
  "new_status_controller m fac children =
     bind_result (mapM_result (\<lambda>g. bind_result (factory_informer m fac g) (\<lambda>_. Inr (ChildChanges g))) children) (\<lambda>cs.
     bind_result (mapM_result (\<lambda>g. bind_result (factory_informer m fac g) (\<lambda>_. Inr (ListerOnly g))) extra_resources) (\<lambda>xs.
       Inr (ReleaseChanges # cs @ xs @ [EventChanges, PodChanges])))"

section \<open>Starting them (\<open>controllers.go\<close>)\<close>

datatype initializer = StartReleaseController | StartStatusController | StartGCController

definition all_controllers :: "(string \<times> initializer) list" where
  "all_controllers =
     [(''release-controller'', StartReleaseController), (''status-controller'', StartStatusController),
      (''garbage-collector'', StartGCController)]"

definition known_controllers :: "string list" where
  "known_controllers = [''release-controller'', ''status-controller'', ''garbage-collector'']"

fun collect_initializers :: "string list \<Rightarrow> (string \<times> initializer) list \<Rightarrow> error + (string \<times> initializer) list" where
  "collect_initializers [] result = Inr result"
| "collect_initializers (nm # nms) result =
     (case map_of all_controllers nm of
        None \<Rightarrow> Inl (Errorf (''there is no controller named: '' @ nm))
      | Some f \<Rightarrow> collect_initializers nms (AList.update nm f result))"

definition new_controller_initializers :: "string list \<Rightarrow> error + (string \<times> initializer) list" where
  "new_controller_initializers available = collect_initializers available []"

text \<open>The controllers that run, newest first, over the store they share.\<close>

datatype running =
  RunRelease release_controller | RunStatus "status_watch list" | RunGC garbage_collector

record start_env =
  sx_resources :: resource_map
  sx_factory :: informer_factory
  sx_available :: "gvk list"
  sx_ignored :: "gvk list"
  sx_history_limit :: int32

type_synonym starting = "store_state \<times> running list"

definition go_run :: "running \<Rightarrow> (starting, unit) io" where
  "go_run c = modify_st (\<lambda>(s, rs). (s, c # rs))"

fun start_one :: "start_env \<Rightarrow> initializer \<Rightarrow> (starting, unit) io" where
  "start_one env StartReleaseController = go_run (RunRelease new_release_controller)"
| "start_one env StartStatusController =
     bind_io (lift_result (new_status_controller (sx_resources env) (sx_factory env) (sx_available env)))
       (\<lambda>ws. go_run (RunStatus ws))"
| "start_one env StartGCController =
     bind_io (quiet (new_garbage_collector (sx_factory env) (sx_available env) (sx_ignored env) (sx_history_limit env)))
       (\<lambda>gc. go_run (RunGC gc))"

text \<open>The order in which the map of initializers is ranged over is the order of the list.\<close>

definition start_controllers :: "start_env \<Rightarrow> (string \<times> initializer) list \<Rightarrow> (starting, unit) io" where
  "start_controllers env controllers = for_io (\<lambda>c. start_one env (snd c)) controllers"

text \<open>The part of \<open>Run\<close> from the choice of controllers on.\<close>

definition run_server :: "start_env \<Rightarrow> ((string \<times> initializer) list \<Rightarrow> (string \<times> initializer) list)
    \<Rightarrow> string list \<Rightarrow> (starting, unit) io" where
  "run_server env rng names =
     bind_io (lift_result (new_controller_initializers names)) (\<lambda>cs. start_controllers env (range_over rng cs))"

section \<open>Options (\<open>options.go\<close>)\<close>

text \<open>Durations are counted in nanoseconds.\<close>

record server_options =
  so_kubeconfig :: string
  so_controllers :: "string list"
  so_gc_syncs :: int32
  so_status_syncs :: int32
  so_resync_period :: int
  so_release_resync_period :: int
  so_healthz_port :: int
  so_history_limit :: int32

definition new_release_server :: server_options where
  "new_release_server =
     \<lparr>so_kubeconfig = [], so_controllers = [], so_gc_syncs = 5, so_status_syncs = 5,
      so_resync_period = 5 * 60 * 10 ^ 9, so_release_resync_period = 30 * 10 ^ 9,
      so_healthz_port = 0, so_history_limit = 0\<rparr>"

text \<open>Registering the flags gives each option its default; the flags that are given come after it.\<close>

definition add_flags :: "string list \<Rightarrow> server_options \<Rightarrow> server_options" where
  "add_flags all_names opts =
     opts\<lparr>so_controllers := all_names, so_healthz_port := 8080, so_history_limit := 50\<rparr>"

section \<open>Bringing the server up (\<open>release.go\<close>)\<close>

text \<open>
  What \<open>Run\<close> uses of client-go: the configuration and the clients, the definitions on the server,
  discovery, the informers. Building the client pool and the codec cannot fail and changes nothing.
\<close>

record ('w, 'c) bring_up_env =
  bu_build_config :: "string \<Rightarrow> error + 'c"
  bu_new_client :: "'c \<Rightarrow> error + unit"
  bu_get_crd :: "string \<Rightarrow> ('w, crd) io"
  bu_create_crd :: "crd \<Rightarrow> ('w, crd) io"
  bu_discover :: "('w, (string \<times> api_resource list) list) io"
  bu_factory :: informer_factory
  bu_content :: "gvk \<Rightarrow> obj indexer"
  bu_now :: int
  bu_range :: "(string \<times> initializer) list \<Rightarrow> (string \<times> initializer) list"

text \<open>The cluster, the store once it is made, the controllers that run, and whether the factory was started.\<close>

record 'w server_state =
  vs_world :: 'w
  vs_store :: "store_state option"
  vs_running :: "running list"
  vs_factory_started :: bool

definition new_server_state :: "'w \<Rightarrow> 'w server_state" where
  "new_server_state w = \<lparr>vs_world = w, vs_store = None, vs_running = [], vs_factory_started = False\<rparr>"

definition on_world :: "('w, 'a) io \<Rightarrow> ('w server_state, 'a) io" where
  "on_world m st = (case m (vs_world st) of (r, w) \<Rightarrow> (r, st\<lparr>vs_world := w\<rparr>))"

definition on_store :: "store_state \<Rightarrow> (starting, 'a) io \<Rightarrow> ('w server_state, 'a) io" where
  "on_store store m st =
     (case m (store, vs_running st) of (r, s, rs) \<Rightarrow> (r, st\<lparr>vs_store := Some s, vs_running := rs\<rparr>))"

definition start_env_of :: "('w, 'c) bring_up_env \<Rightarrow> server_options \<Rightarrow> resource_map \<Rightarrow> start_env" where
  "start_env_of env opts resources =
     \<lparr>sx_resources = resources, sx_factory = bu_factory env, sx_available = available_kinds,
      sx_ignored = ignored_kinds, sx_history_limit = so_history_limit opts\<rparr>"

text \<open>\<open>Run\<close>, up to the wait for a stop that never comes.\<close>

definition run_release_server :: "('w, 'c) bring_up_env \<Rightarrow> server_options \<Rightarrow> ('w server_state, unit) io" where
  "run_release_server env opts =
     bind_io (lift_result (bu_build_config env (so_kubeconfig opts))) (\<lambda>cfg.
     bind_io (lift_result (bu_new_client env cfg)) (\<lambda>_.
     bind_io (on_world (ensure_crd (bu_get_crd env) (bu_create_crd env))) (\<lambda>_.
     bind_io (on_world (bu_discover env)) (\<lambda>lists.
     bind_io (lift_result (new_api_resources lists [])) (\<lambda>resources.
     bind_io (on_store (new_integration_store resources (bu_content env) (bu_now env))
                (run_server (start_env_of env opts resources) (bu_range env) (so_controllers opts))) (\<lambda>_.
       modify_st (\<lambda>st. st\<lparr>vs_factory_started := True\<rparr>)))))))"

text \<open>
  \<open>main\<close>: the options with their defaults, what the flags on the command line make of them, and the
  server. An error is printed and ends the process with status 1.
\<close>

definition controller_main ::
  "(server_options \<Rightarrow> server_options) \<Rightarrow> ('w, 'c) bring_up_env \<Rightarrow> ('w server_state, unit) io" where
  "controller_main parse env = run_release_server env (parse (add_flags known_controllers new_release_server))"

section \<open>Facts\<close>

lemma collect_initializers_Inr:
  "collect_initializers nms result = Inr m \<Longrightarrow>
     (\<forall>nm. map_of m nm = (if nm \<in> set nms then map_of all_controllers nm else map_of result nm)) \<and>
     set nms \<subseteq> dom (map_of all_controllers)"
  by (induction nms result rule: collect_initializers.induct)
    (auto simp: update_conv' split: option.splits dest: map_of_SomeD)

lemma informer_for_found:
  "informer_for fac g s = (Inr (), s') \<Longrightarrow>
     map_of (ss_informers s') g \<noteq> None \<and> (\<forall>h. map_of (ss_informers s) h \<noteq> None \<longrightarrow> map_of (ss_informers s') h \<noteq> None)"
  by (auto simp: informer_for_def Let_def update_conv' split: option.splits sum.splits if_splits)

lemma gc_watches_found:
  "gc_watches fac ts s = (Inr ws, s') \<Longrightarrow>
     ws = map (\<lambda>t. if t = gvk_release then QueueReleases else TrackKind t) ts \<and>
     (\<forall>h. h \<in> set ts \<or> map_of (ss_informers s) h \<noteq> None \<longrightarrow> map_of (ss_informers s') h \<noteq> None)"
proof (induction ts arbitrary: s ws)
  case (Cons t ts)
  then obtain s1 ws1 where run: "informer_for fac t s = (Inr (), s1)" "gc_watches fac ts s1 = (Inr ws1, s')"
    and ws: "ws = (if t = gvk_release then QueueReleases else TrackKind t) # ws1"
    by (auto simp: bind_io_def ret_def split: prod.splits sum.splits)
  from informer_for_found[OF run(1)] Cons.IH[OF run(2)] ws show ?case by auto
qed (simp add: ret_def)

lemma new_garbage_collector_Inr:
  assumes "new_garbage_collector fac targets ignored limit s = (Inr gc, s')"
  shows "gcc_watches gc = map (\<lambda>t. if t = gvk_release then QueueReleases else TrackKind t) targets"
    and "gcc_resources gc = new_release_resources ignored"
    and "h \<in> insert gvk_release (set targets) \<Longrightarrow> map_of (ss_informers s') h \<noteq> None"
proof -
  obtain s1 ws where run: "informer_for fac gvk_release s = (Inr (), s1)" "gc_watches fac targets s1 = (Inr ws, s')"
    and gc: "gc = \<lparr>gcc_resources = new_release_resources ignored, gcc_watches = ws, gcc_ignored = ignored,
            gcc_history_limit = limit\<rparr>"
    using assms by (auto simp: new_garbage_collector_def bind_io_def ret_def split: prod.splits sum.splits)
  from gc_watches_found[OF run(2)] informer_for_found[OF run(1)] gc
  show "gcc_watches gc = map (\<lambda>t. if t = gvk_release then QueueReleases else TrackKind t) targets"
    "gcc_resources gc = new_release_resources ignored"
    "h \<in> insert gvk_release (set targets) \<Longrightarrow> map_of (ss_informers s') h \<noteq> None"
    by auto
qed

text \<open>The controllers that run after a start are those that were chosen, one each.\<close>

fun started_by :: "running \<Rightarrow> initializer" where
  "started_by (RunRelease _) = StartReleaseController"
| "started_by (RunStatus _) = StartStatusController"
| "started_by (RunGC _) = StartGCController"

text \<open>A collector has the limit and the ignored kinds it was given, and an informer for every kind.\<close>

definition equipped :: "start_env \<Rightarrow> store_state \<Rightarrow> running \<Rightarrow> bool" where
  "equipped env s c \<longleftrightarrow>
     (\<forall>gc. c = RunGC gc \<longrightarrow> gcc_history_limit gc = sx_history_limit env \<and> gcc_ignored gc = sx_ignored env \<and>
        (\<forall>h \<in> insert gvk_release (set (sx_available env)). map_of (ss_informers s) h \<noteq> None))"

definition informers_stay :: "store_state \<Rightarrow> store_state \<Rightarrow> bool" where
  "informers_stay s s' \<longleftrightarrow> (\<forall>h. map_of (ss_informers s) h \<noteq> None \<longrightarrow> map_of (ss_informers s') h \<noteq> None)"

lemma equipped_stays: "equipped env s c \<Longrightarrow> informers_stay s s' \<Longrightarrow> equipped env s' c"
  by (auto simp: equipped_def informers_stay_def)

lemma start_one_Inr:
  assumes "start_one env f (s, rs) = (Inr (), s', rs')"
  shows "\<exists>c. rs' = c # rs \<and> started_by c = f \<and> informers_stay s s' \<and> equipped env s' c"
proof (cases f)
  case StartGCController
  with assms obtain gc where run: "new_garbage_collector (sx_factory env) (sx_available env) (sx_ignored env) (sx_history_limit env) s = (Inr gc, s')"
    and rs': "rs' = RunGC gc # rs"
    by (auto simp: bind_io_def quiet_def go_run_def modify_st_def split: prod.splits sum.splits)
  obtain s1 ws where "informer_for (sx_factory env) gvk_release s = (Inr (), s1)" "gc_watches (sx_factory env) (sx_available env) s1 = (Inr ws, s')"
    and gc: "gcc_history_limit gc = sx_history_limit env" "gcc_ignored gc = sx_ignored env"
    using run by (auto simp: new_garbage_collector_def bind_io_def ret_def split: prod.splits sum.splits)
  with informer_for_found gc_watches_found have "informers_stay s s'" unfolding informers_stay_def by blast
  moreover have "equipped env s' (RunGC gc)" using new_garbage_collector_Inr(3)[OF run] gc by (simp add: equipped_def)
  ultimately show ?thesis using rs' StartGCController by auto
qed (use assms in \<open>auto simp: bind_io_def lift_result_def go_run_def modify_st_def equipped_def informers_stay_def
    split: prod.splits sum.splits\<close>)

lemma start_controllers_Inr:
  "start_controllers env cs (s, rs) = (Inr (), s', rs') \<Longrightarrow>
     \<exists>new. rs' = new @ rs \<and> map started_by new = rev (map snd cs) \<and> informers_stay s s' \<and>
       (\<forall>c \<in> set new. equipped env s' c)"
proof (induction cs arbitrary: s rs)
  case Nil
  then show ?case by (simp add: start_controllers_def ret_def informers_stay_def)
next
  case (Cons c cs)
  then obtain s1 rs1 where c: "start_one env (snd c) (s, rs) = (Inr (), s1, rs1)"
    and cs: "start_controllers env cs (s1, rs1) = (Inr (), s', rs')"
    by (auto simp: start_controllers_def bind_io_def split: prod.splits sum.splits)
  from start_one_Inr[OF c] obtain r where r: "rs1 = r # rs" "started_by r = snd c" "informers_stay s s1" "equipped env s1 r"
    by blast
  from Cons.IH[OF cs] obtain new where new: "rs' = new @ rs1" "map started_by new = rev (map snd cs)" "informers_stay s1 s'"
    "\<forall>c \<in> set new. equipped env s' c" by blast
  with r equipped_stays[OF r(4) new(3)] show ?case
    by (intro exI[of _ "new @ [r]"]) (auto simp: informers_stay_def)
qed

lemma collect_initializers_distinct:
  "collect_initializers nms result = Inr m \<Longrightarrow> distinct (map fst result) \<Longrightarrow> distinct (map fst m)"
  by (induction nms result rule: collect_initializers.induct) (auto simp: distinct_update split: option.splits)

lemma collect_initializers_unknown:
  "nm \<in> set nms \<Longrightarrow> map_of all_controllers nm = None \<Longrightarrow> \<exists>e. collect_initializers nms result = Inl e"
  by (induction nms result rule: collect_initializers.induct) (auto split: option.splits)

lemma initializers_distinct:
  assumes "new_controller_initializers nms = Inr cs"
  shows "distinct (map snd cs)" and "set (map snd cs) = {f. \<exists>nm \<in> set nms. map_of all_controllers nm = Some f}"
proof -
  have run: "collect_initializers nms [] = Inr cs" using assms by (simp add: new_controller_initializers_def)
  have keys: "distinct (map fst cs)" by (rule collect_initializers_distinct[OF run]) simp
  have at: "map_of cs nm = (if nm \<in> set nms then map_of all_controllers nm else None)" for nm
    using collect_initializers_Inr[OF run] by simp
  have mem: "(nm, f) \<in> set cs \<longleftrightarrow> nm \<in> set nms \<and> map_of all_controllers nm = Some f" for nm f
    using at[of nm] keys by (auto split: if_splits)
  have inj: "nm = nm'" if "map_of all_controllers nm = Some f" "map_of all_controllers nm' = Some f" for nm nm' f
    using that by (auto simp: all_controllers_def split: if_splits)
  have "inj_on snd (set cs)" using mem inj by (auto intro!: inj_onI)
  with keys show "distinct (map snd cs)" by (simp add: distinct_map)
  show "set (map snd cs) = {f. \<exists>nm \<in> set nms. map_of all_controllers nm = Some f}" using mem by force
qed

end
