(* ===== verification/System_Properties.thy ===== *)
theory System_Properties
  imports Controller_Properties Release_Apply Controller_Setup
begin

text \<open>
  Properties that span components: what applying a release sends to the server is what the garbage
  collector tracks for the release and leaves alone. Both get the same list of ignored kinds, the
  release controller as the kinds without an owner and the collector as the kinds it does not track.
  And the start of the server: the definitions it makes sure of, the controllers it starts and the order
  in which it does.
\<close>

section \<open>What is applied is not collected\<close>

lemma applied_owner:
  assumes "o_meta ob = Some m" and "om_owners m = []" and "o_gvk ob \<notin> set ignored"
  shows "o_meta (with_owners (apply_options_of ignored r) ob) = Some (m\<lparr>om_owners := references_for_release r\<rparr>)"
  using assms
  by (auto simp: with_owners_def apply_options_of_def checker_accepts_def ignored_kind_def add_owners_def list_ex_iff)

lemma release_owner_references:
  "om_owners m = references_for_release r \<Longrightarrow> \<exists>ow. release_owner m = Some ow \<and> or_uid ow = rel_uid r"
  by (simp add: release_owner_def references_for_release_def release_api_version_def gvk_release_def)

lemma view_desires:
  assumes "collect_view cdc r found = Inr (Some (cur, True, desired))"
    and "res \<in> set (split_manifest (st_manifest (rel_status cur)))"
    and "resource_to_object cdc res = Inr ob" and "o_meta ob = Some m"
  shows "key_for_resource (o_gvk ob) (om_name m) \<in> set desired"
proof -
  obtain obs ms where acc: "accessors_for_resources cdc (split_manifest (st_manifest (rel_status cur))) = Inr (obs, ms)"
    and desired: "desired = desired_keys obs ms"
    using assms(1) by (auto simp: collect_view_def bind_result_def split: sum.splits if_splits)
  then obtain ps where ps: "list_all2 (\<lambda>x y. accessor_for_resource cdc x = Inr y)
      (split_manifest (st_manifest (rel_status cur))) ps" "obs = map fst ps" "ms = map snd ps"
    by (auto simp: accessors_for_resources_def bind_result_def mapM_result_Inr_iff split: sum.splits)
  have "accessor_for_resource cdc res = Inr (ob, m)"
    using assms(3,4) by (simp add: accessor_for_resource_def accessor_for_object_def bind_result_def)
  with ps(1) assms(2) have "(ob, m) \<in> set ps"
    by (auto simp: list_all2_conv_all_nth in_set_conv_nth)
  then show ?thesis by (force simp: desired desired_keys_def ps(2,3) zip_map_fst_snd)
qed

lemma tracked_entry:
  assumes "rr_ok rr" and "g \<in> set (resources_of_release rng uid rr)"
  shows "tracked rr uid (gr_uid g) = Some g"
proof -
  obtain e k where e: "map_of (rr_releases rr) uid = Some e" and k: "(k, g) \<in> set (ge_resources e)"
    using assms(2) by (cases "map_of (rr_releases rr) uid") (auto simp: resources_of_release_def)
  have "distinct (map fst (ge_resources e))"
    and entry: "\<And>k res. map_of (ge_resources e) k = Some res \<Longrightarrow> resource_entry_ok (rr_ignored rr) uid k res"
    using assms(1) e unfolding rr_ok_def by blast+
  then have "map_of (ge_resources e) k = Some g" using k by simp
  with entry[OF this] e show ?thesis by (simp add: tracked_def resource_entry_ok_def)
qed

lemma new_ignored: "rr_ignored (new_release_resources ignored) = remdups ignored"
  by (simp add: new_release_resources_def)

lemma events_ok: "rr_ok (fold track_event es (new_release_resources ignored)) \<and>
    rr_ignored (fold track_event es (new_release_resources ignored)) = remdups ignored"
  by (rule fold_invariant[where Q = "\<lambda>_. True"]) (auto simp: track_event_ok new_ignored)


text \<open>A release with one service, which it created a long time ago.\<close>

definition bare_service :: obj where
  "bare_service = old_service\<lparr>o_meta := Some (old_meta\<lparr>om_owners := []\<rparr>)\<rparr>"

definition serving_env :: "unit gc_env" where
  "serving_env = collecting_env\<lparr>gce_lister := (\<lambda>_ _. ret (obj_of_release busy_release)),
     gce_codec := \<lparr>cd_decode = (\<lambda>r. Inr bare_service), cd_encode = (\<lambda>ob. Inr [])\<rparr>\<rparr>"

lemma serving_view: "collect_view (gce_codec serving_env) busy_release (Inr (obj_of_release busy_release)) =
    Inr (Some (busy_release, True, [key_for_resource (o_gvk old_service) ''svc'']))"
proof -
  have split: "split_manifest (st_manifest (rel_status busy_release)) = [''svc'']"
    by (simp add: busy_release_def) code_simp
  have acc: "accessors_for_resources (gce_codec serving_env) [''svc''] = Inr ([bare_service], [old_meta\<lparr>om_owners := []\<rparr>])"
    by (simp add: accessors_for_resources_def accessor_for_resource_def resource_to_object_def accessor_for_object_def
        bind_result_def serving_env_def bare_service_def)
  have uid: "accessor_for_object (obj_of_release busy_release) = Inr (rel_meta busy_release)"
    by (simp add: accessor_for_object_def obj_of_release_def)
  have some: "st_manifest (rel_status busy_release) \<noteq> []" by (simp add: busy_release_def)
  show ?thesis
    by (simp add: collect_view_def uid some split acc bind_result_def desired_keys_def bare_service_def old_meta_def)
qed


section \<open>The custom resource definitions\<close>

lemma ensure_one:
  assumes get: "\<And>n s. get n s = (if n \<in> names s then Inr (found n) else Inl (NotFound n), s)"
    and create: "\<And>c s. crd_name c \<notin> names s \<Longrightarrow>
      \<exists>made s'. create c s = (Inr made, s') \<and> names s' = insert (crd_name c) (names s)"
  shows "\<exists>s'. ensure_one_crd get create c s = (Inr (), s') \<and> names s' = insert (crd_name c) (names s) \<and>
     (crd_name c \<in> names s \<longrightarrow> s' = s)"
proof (cases "crd_name c \<in> names s")
  case True
  then show ?thesis by (simp add: ensure_one_crd_def try_io_def get ret_def insert_absorb)
next
  case False
  with create obtain made s' where "create c s = (Inr made, s')" "names s' = insert (crd_name c) (names s)" by blast
  with False show ?thesis by (simp add: ensure_one_crd_def try_io_def get bind_io_def ret_def)
qed

text \<open>
  On a server that finds a definition exactly when its name exists and that creates a definition
  whose name is free, making sure of the definitions succeeds, leaves exactly the definitions of
  releases and histories beside what there was, and changes nothing when both are there; so a second
  start creates nothing.
\<close>

lemma crds_ensured:
  assumes "\<And>n s. get n s = (if n \<in> names s then Inr (found n) else Inl (NotFound n), s)"
    and "\<And>c s. crd_name c \<notin> names s \<Longrightarrow>
      \<exists>made s'. create c s = (Inr made, s') \<and> names s' = insert (crd_name c) (names s)"
  shows "\<exists>s'. ensure_crd get create s = (Inr (), s') \<and>
     names s' = names s \<union> {''releases.release.caicloud.io'', ''releasehistories.release.caicloud.io''} \<and>
     ensure_crd get create s' = (Inr (), s')"
proof -
  note one = ensure_one[where get = get and create = create and names = names, OF assms]
  have all: "\<exists>s'. for_io (ensure_one_crd get create) cs s = (Inr (), s') \<and> names s' = names s \<union> crd_name ` set cs \<and>
      (crd_name ` set cs \<subseteq> names s \<longrightarrow> s' = s)" for cs s
  proof (induction cs arbitrary: s)
    case (Cons c cs)
    from one[of c s] obtain s1 where c: "ensure_one_crd get create c s = (Inr (), s1)"
      "names s1 = insert (crd_name c) (names s)" "crd_name c \<in> names s \<longrightarrow> s1 = s" by blast
    from Cons.IH[of s1] c show ?case by (fastforce simp: bind_io_def)
  qed (simp add: ret_def)
  have names: "crd_name ` set crds = {''releases.release.caicloud.io'', ''releasehistories.release.caicloud.io''}"
    by (simp add: crds_def)
  obtain s' where s': "ensure_crd get create s = (Inr (), s')" "names s' = names s \<union> crd_name ` set crds"
    using all[of crds s] unfolding ensure_crd_def by blast
  moreover have "ensure_crd get create s' = (Inr (), s')"
    using all[of crds s'] s'(2) unfolding ensure_crd_def by auto
  ultimately show ?thesis by (simp add: names)
qed

definition crd_get :: "string \<Rightarrow> (string list, crd) io" where
  "crd_get n s = (if n \<in> set s then Inr (hd crds) else Inl (NotFound n), s)"

definition crd_create :: "crd \<Rightarrow> (string list, crd) io" where
  "crd_create c s = (Inr c, crd_name c # s)"

lemma crds_ensured_example:
  "\<exists>s'. ensure_crd crd_get crd_create [] = (Inr (), s') \<and>
     set s' = {''releases.release.caicloud.io'', ''releasehistories.release.caicloud.io''} \<and>
     ensure_crd crd_get crd_create s' = (Inr (), s')"
  using crds_ensured[of crd_get set "\<lambda>_. hd crds" crd_create "[]"]
  by (simp add: crd_get_def crd_create_def)

section \<open>The start of the server\<close>

text \<open>
  C11: when \<open>Run\<close> gets to its wait, both definitions were made sure of before the resources were
  discovered, every name of the option is a controller, exactly the chosen controllers run, one each,
  a collector has the history limit of the options and an informer for every available kind, and only
  then the factory was started. When it fails, the factory was not started; an unknown name lets no
  controller start.
\<close>

theorem bring_up_order:
  assumes "run_release_server env opts (new_server_state w) = (r, st')"
  shows "(r = Inr () \<longrightarrow>
      (\<exists>w1 lists. ensure_crd (bu_get_crd env) (bu_create_crd env) w = (Inr (), w1) \<and>
         bu_discover env w1 = (Inr lists, vs_world st')) \<and>
      vs_factory_started st' \<and> distinct (map started_by (vs_running st')) \<and>
      set (map started_by (vs_running st')) = {f. \<exists>nm \<in> set (so_controllers opts). map_of all_controllers nm = Some f} \<and>
      set (so_controllers opts) \<subseteq> set known_controllers \<and>
      (\<forall>gc. RunGC gc \<in> set (vs_running st') \<longrightarrow> gcc_history_limit gc = so_history_limit opts \<and>
         (\<exists>s. vs_store st' = Some s \<and> (\<forall>g \<in> set available_kinds. map_of (ss_informers s) g \<noteq> None)))) \<and>
     (\<forall>e. r = Inl e \<longrightarrow> \<not> vs_factory_started st') \<and>
     (\<not> set (so_controllers opts) \<subseteq> set known_controllers \<longrightarrow> vs_running st' = [] \<and> (\<exists>e. r = Inl e))"
proof -
  have known: "map_of all_controllers nm = None \<longleftrightarrow> nm \<notin> set known_controllers" for nm
    by (simp add: all_controllers_def known_controllers_def)
  note defs = run_release_server_def new_server_state_def bind_io_def lift_result_def on_world_def on_store_def run_server_def
    modify_st_def
  have failed: "\<not> vs_factory_started st'" if "r = Inl e" for e
    using assms that by (auto simp: defs split: prod.splits sum.splits)
  have unknown: "vs_running st' = [] \<and> (\<exists>e. r = Inl e)" if bad: "\<not> set (so_controllers opts) \<subseteq> set known_controllers"
  proof -
    from bad obtain nm where "nm \<in> set (so_controllers opts)" "map_of all_controllers nm = None" using known by blast
    then obtain e where "new_controller_initializers (so_controllers opts) = Inl e"
      using collect_initializers_unknown unfolding new_controller_initializers_def by blast
    with assms show ?thesis by (auto simp: defs split: prod.splits sum.splits) metis
  qed
  show ?thesis
  proof (cases r)
    case (Inl e)
    with failed unknown show ?thesis by auto
  next
    case (Inr u)
    with assms obtain w1 w2 lists resources cs s rs where
      crd: "ensure_crd (bu_get_crd env) (bu_create_crd env) w = (Inr (), w1)" "bu_discover env w1 = (Inr lists, w2)"
      and cs: "new_controller_initializers (so_controllers opts) = Inr cs"
      and start: "start_controllers (start_env_of env opts resources) (range_over (bu_range env) cs)
          (new_integration_store resources (bu_content env) (bu_now env), []) = (Inr (), s, rs)"
      and st': "st' = \<lparr>vs_world = w2, vs_store = Some s, vs_running = rs, vs_factory_started = True\<rparr>"
      by (auto simp: defs split: prod.splits sum.splits)
    from start_controllers_Inr[OF start] have rs: "map started_by rs = rev (map snd (range_over (bu_range env) cs))"
      "\<forall>c \<in> set rs. equipped (start_env_of env opts resources) s c" by auto
    have "mset (map started_by rs) = mset (map snd cs)" by (simp add: rs(1))
    with initializers_distinct[OF cs] have started: "distinct (map started_by rs)"
      "set (map started_by rs) = {f. \<exists>nm \<in> set (so_controllers opts). map_of all_controllers nm = Some f}"
      by (metis mset_eq_imp_distinct_iff, metis mset_eq_setD)
    have "\<forall>gc. RunGC gc \<in> set rs \<longrightarrow> gcc_history_limit gc = so_history_limit opts \<and>
        (\<forall>g \<in> set available_kinds. map_of (ss_informers s) g \<noteq> None)"
      using rs(2) by (auto simp: equipped_def start_env_of_def)
    with crd started failed unknown Inr show ?thesis by (auto simp: st')
  qed
qed

definition served_kinds :: "(string \<times> api_resource list) list" where
  "served_kinds =
     (let kind = (\<lambda>n k. \<lparr>ar_name = n, ar_kind = k, ar_namespaced = True\<rparr>)
      in [(''release.caicloud.io/v1alpha1'', [kind ''releases'' ''Release'', kind ''releasehistories'' ''ReleaseHistory'']),
          (''batch/v1beta1'', [kind ''cronjobs'' ''CronJob'']), (''batch/v1'', [kind ''jobs'' ''Job'']),
          (''apps/v1'', [kind ''daemonsets'' ''DaemonSet'', kind ''deployments'' ''Deployment'', kind ''statefulsets'' ''StatefulSet'']),
          (''v1'', [kind ''services'' ''Service'', kind ''persistentvolumeclaims'' ''PersistentVolumeClaim'',
             kind ''configmaps'' ''ConfigMap'', kind ''secrets'' ''Secret''])])"

definition demo_env :: "(string list, unit) bring_up_env" where
  "demo_env =
     \<lparr>bu_build_config = (\<lambda>_. Inr ()), bu_new_client = (\<lambda>_. Inr ()), bu_get_crd = crd_get, bu_create_crd = crd_create,
      bu_discover = ret served_kinds, bu_factory = \<lparr>if_for_resource = (\<lambda>_. None), if_wait_sync = (\<lambda>_. True)\<rparr>,
      bu_content = (\<lambda>_. []), bu_now = 0, bu_range = id\<rparr>"

definition demo_options :: server_options where
  "demo_options = (add_flags known_controllers new_release_server)
     \<lparr>so_controllers := [''garbage-collector'', ''release-controller'', ''garbage-collector'']\<rparr>"

theorem bring_up_order_witness:
  "\<exists>st. run_release_server demo_env demo_options (new_server_state []) = (Inr (), st) \<and>
     vs_factory_started st \<and> set (map started_by (vs_running st)) = {StartGCController, StartReleaseController} \<and>
     length (vs_running st) = 2"
proof -
  have "fst (run_release_server demo_env demo_options (new_server_state [])) = Inr ()" by code_simp
  then obtain st where run: "run_release_server demo_env demo_options (new_server_state []) = (Inr (), st)"
    by (cases "run_release_server demo_env demo_options (new_server_state [])") auto
  have names: "so_controllers demo_options = [''garbage-collector'', ''release-controller'', ''garbage-collector'']"
    by (simp add: demo_options_def)
  have "{f. \<exists>nm \<in> set (so_controllers demo_options). map_of all_controllers nm = Some f} = {StartGCController, StartReleaseController}"
    by (auto simp: names all_controllers_def)
  with bring_up_order[OF run] have st: "vs_factory_started st" "distinct (map started_by (vs_running st))"
    "set (map started_by (vs_running st)) = {StartGCController, StartReleaseController}" by simp_all
  from distinct_card[OF st(2)] st(3) have "length (vs_running st) = 2" by simp
  with run st show ?thesis by simp
qed

end
