(* ===== verification/Release_System.thy ===== *)
theory Release_System
  imports Release_Controller
begin

text \<open>
  The release controller, the release manager and the loops of all handlers together. The controller
  works on its queue; a handler that the manager starts runs from then on beside it, receives what the
  manager puts into its channel, and applies. A handler that the manager drops has its context
  canceled: it may still receive what is left in its channel until it notices, and what it has begun
  it ends. Every handler that was ever started is in the list of runs, in the order of their starts.
\<close>

section \<open>State and steps\<close>

text \<open>
  \<open>hr_left\<close> is empty while the handler stands in the table of the manager, and holds what was left in
  the channel once it was stopped.
\<close>

record handler_run =
  hr_key :: string
  hr_loop :: loop_state
  hr_left :: "release list option"

record release_system =
  sy_controller :: release_controller
  sy_runs :: "handler_run list"

definition new_release_system :: release_system where
  "new_release_system = \<lparr>sy_controller = new_release_controller, sy_runs = []\<rparr>"

definition release_key :: "release \<Rightarrow> string" where
  "release_key r = key_for_name (rel_namespace r) (rel_name r)"

text \<open>What became of the handlers when the table of the manager changed from the first to the second.\<close>

definition stop_dropped :: "release_manager \<Rightarrow> release_manager \<Rightarrow> handler_run \<Rightarrow> handler_run" where
  "stop_dropped m m' h =
     (if hr_left h = None \<and> map_of (mg_handlers m') (hr_key h) = None
      then h\<lparr>hr_left := Some (case map_of (mg_handlers m) (hr_key h) of None \<Rightarrow> [] | Some rh \<Rightarrow> rh_channel rh)\<rparr>
      else h)"

definition started_keys :: "release_manager \<Rightarrow> release_manager \<Rightarrow> string list" where
  "started_keys m m' = filter (\<lambda>k. map_of (mg_handlers m) k = None) (map fst (mg_handlers m'))"

definition new_run :: "string \<Rightarrow> handler_run" where
  "new_run k = \<lparr>hr_key = k, hr_loop = new_loop, hr_left = None\<rparr>"

definition follow_manager :: "release_manager \<Rightarrow> release_manager \<Rightarrow> handler_run list \<Rightarrow> handler_run list" where
  "follow_manager m m' runs = map (stop_dropped m m') runs @ map new_run (started_keys m m')"

text \<open>A lister answers with the release that was asked for.\<close>

definition lister_ok :: "(string \<Rightarrow> string \<Rightarrow> error + release) \<Rightarrow> bool" where
  "lister_ok lister \<longleftrightarrow> (\<forall>ns nm r. lister ns nm = Inr r \<longrightarrow> rel_namespace r = ns \<and> rel_name r = nm)"

datatype system_event = Reported informer_object | WorkerStarted | KeyDue string | Worked | RunStep nat loop_event

inductive system_step :: "system_event \<Rightarrow> release_system \<Rightarrow> release_system \<Rightarrow> bool" where
  reported:
    "system_step (Reported io) sy (sy\<lparr>sy_controller := enqueue_release io (sy_controller sy)\<rparr>)"
| worker_started:
    "system_step WorkerStarted sy (sy\<lparr>sy_controller := worker_start (sy_controller sy)\<rparr>)"
| key_due:
    "key \<in> set (wq_waiting (rc_queue (sy_controller sy))) \<Longrightarrow>
       system_step (KeyDue key) sy
         (sy\<lparr>sy_controller := (sy_controller sy)\<lparr>rc_queue := wq_fire key (rc_queue (sy_controller sy))\<rparr>\<rparr>)"
| worked:
    "lister_ok lister \<Longrightarrow> process_next_work_item lister (sy_controller sy) = Some (b, rc) \<Longrightarrow>
       system_step Worked sy
         (sy\<lparr>sy_controller := rc,
             sy_runs := follow_manager (rc_manager (sy_controller sy)) (rc_manager rc) (sy_runs sy)\<rparr>)"
| received:
    "i < length (sy_runs sy) \<Longrightarrow> hr_left (sy_runs sy ! i) = None \<Longrightarrow>
       manager_take (hr_key (sy_runs sy ! i)) (rc_manager (sy_controller sy)) = Some (r, m) \<Longrightarrow>
       loop_step (Received r) (hr_loop (sy_runs sy ! i)) s \<Longrightarrow>
       system_step (RunStep i (Received r)) sy
         (sy\<lparr>sy_controller := (sy_controller sy)\<lparr>rc_manager := m\<rparr>,
             sy_runs := (sy_runs sy)[i := (sy_runs sy ! i)\<lparr>hr_loop := s\<rparr>]\<rparr>)"
| received_left:
    "i < length (sy_runs sy) \<Longrightarrow> hr_left (sy_runs sy ! i) = Some (r # rs) \<Longrightarrow>
       loop_step (Received r) (hr_loop (sy_runs sy ! i)) s \<Longrightarrow>
       system_step (RunStep i (Received r)) sy
         (sy\<lparr>sy_runs := (sy_runs sy)[i := (sy_runs sy ! i)\<lparr>hr_loop := s, hr_left := Some rs\<rparr>]\<rparr>)"
| noticed:
    "i < length (sy_runs sy) \<Longrightarrow> hr_left (sy_runs sy ! i) \<noteq> None \<Longrightarrow>
       loop_step Stopped (hr_loop (sy_runs sy ! i)) s \<Longrightarrow>
       system_step (RunStep i Stopped) sy (sy\<lparr>sy_runs := (sy_runs sy)[i := (sy_runs sy ! i)\<lparr>hr_loop := s\<rparr>]\<rparr>)"
| ran:
    "i < length (sy_runs sy) \<Longrightarrow> e \<noteq> Stopped \<Longrightarrow> (\<forall>r. e \<noteq> Received r) \<Longrightarrow> loop_step e (hr_loop (sy_runs sy ! i)) s \<Longrightarrow>
       system_step (RunStep i e) sy (sy\<lparr>sy_runs := (sy_runs sy)[i := (sy_runs sy ! i)\<lparr>hr_loop := s\<rparr>]\<rparr>)"

inductive system_reach :: "release_system \<Rightarrow> bool" where
  reach_new: "system_reach new_release_system"
| reach_step: "system_reach sy \<Longrightarrow> system_step e sy sy' \<Longrightarrow> system_reach sy'"

section \<open>Keys\<close>

definition slash_free :: "string \<Rightarrow> bool" where
  "slash_free s \<longleftrightarrow> CHR ''/'' \<notin> set s"

lemma split_meta_slash_free: "split_meta_namespace_key key = Inr (ns, nm) \<Longrightarrow> slash_free ns \<and> slash_free nm"
proof -
  assume split: "split_meta_namespace_key key = Inr (ns, nm)"
  have "CHR ''/'' \<notin> set p" if "p \<in> set (split_str key ''/'')" for p
    using split_str_char_free[OF that] .
  with split show ?thesis
    by (auto simp: split_meta_namespace_key_def slash_free_def split: list.splits)
qed

lemma slash_split: "slash_free a \<Longrightarrow> a @ CHR ''/'' # b = a' @ CHR ''/'' # b' \<Longrightarrow> slash_free b \<Longrightarrow> a = a' \<and> b = b'"
proof (induction a arbitrary: a')
  case Nil
  then show ?case by (cases a') (auto simp: slash_free_def)
next
  case (Cons c a)
  then show ?case by (cases a') (auto simp: slash_free_def)
qed

lemma release_key_eq:
  assumes "slash_free ns" "slash_free nm" and "release_key r = key_for_name ns nm"
  shows "rel_namespace r = ns \<and> rel_name r = nm"
  using slash_split[of ns nm "rel_namespace r" "rel_name r"] assms by (simp add: release_key_def key_for_name_def)

section \<open>The invariant\<close>

definition run_ok :: "handler_run \<Rightarrow> bool" where
  "run_ok h \<longleftrightarrow>
     (\<exists>ns nm. slash_free ns \<and> slash_free nm \<and> hr_key h = key_for_name ns nm \<and> loop_ok nm (hr_loop h)) \<and>
     (\<forall>t. lp_target (hr_loop h) = Some t \<longrightarrow> release_key t = hr_key h) \<and>
     (\<forall>t. lp_applying (hr_loop h) = Some t \<longrightarrow> release_key t = hr_key h) \<and>
     (\<forall>rs. hr_left h = Some rs \<longrightarrow> (\<forall>r \<in> set rs. release_key r = hr_key h)) \<and>
     (lp_stopped (hr_loop h) \<longrightarrow> hr_left h \<noteq> None) \<and>
     wq_shutting_down (lp_queue (hr_loop h)) = lp_stopped (hr_loop h)"

text \<open>A run is live when its key stands in the table and no later run has that key.\<close>

definition runs_ok :: "string set \<Rightarrow> handler_run list \<Rightarrow> bool" where
  "runs_ok keys runs \<longleftrightarrow>
     (\<forall>i < length runs. hr_left (runs ! i) = None \<longleftrightarrow>
        hr_key (runs ! i) \<in> keys \<and> (\<forall>j < length runs. hr_key (runs ! j) = hr_key (runs ! i) \<longrightarrow> j \<le> i)) \<and>
     keys \<subseteq> hr_key ` set runs"

definition table_keys :: "release_manager \<Rightarrow> string set" where
  "table_keys m = dom (map_of (mg_handlers m))"

definition system_ok :: "release_system \<Rightarrow> bool" where
  "system_ok sy \<longleftrightarrow>
     controller_ok (sy_controller sy) \<and> (\<forall>h \<in> set (sy_runs sy). run_ok h) \<and>
     runs_ok (table_keys (rc_manager (sy_controller sy))) (sy_runs sy)"

lemma run_ok_new: "slash_free ns \<Longrightarrow> slash_free nm \<Longrightarrow> run_ok (new_run (key_for_name ns nm))"
  using loop_ok_new[of nm] by (auto simp: run_ok_def new_run_def) (auto simp: new_loop_def new_work_queue_def)

lemma run_ok_step:
  assumes ok: "run_ok h" and step: "loop_step e (hr_loop h) s"
    and e: "\<And>r. e = Received r \<Longrightarrow> release_key r = hr_key h" and stop: "e = Stopped \<Longrightarrow> hr_left h \<noteq> None"
  shows "run_ok (h\<lparr>hr_loop := s\<rparr>)"
proof -
  obtain ns nm where key: "slash_free ns" "slash_free nm" "hr_key h = key_for_name ns nm" "loop_ok nm (hr_loop h)"
    using ok by (auto simp: run_ok_def)
  have "event_ok nm e"
    using e release_key_eq[OF key(1,2)] key(3) by (cases e) (auto simp: event_ok_def)
  then have "loop_ok nm s" by (rule loop_step_ok[OF key(4) _ step])
  moreover have "(\<forall>t. lp_target s = Some t \<longrightarrow> release_key t = hr_key h) \<and>
      (\<forall>t. lp_applying s = Some t \<longrightarrow> release_key t = hr_key h) \<and> (lp_stopped s \<longrightarrow> hr_left h \<noteq> None)"
    using step ok e stop by cases (auto simp: run_ok_def loop_receive_def)
  moreover have "wq_shutting_down (lp_queue s) = lp_stopped s"
    by (rule loop_step_closed[OF step]) (use ok in \<open>simp add: run_ok_def\<close>)
  ultimately show ?thesis using ok key(1-3) by (auto simp: run_ok_def)
qed

text \<open>Changing the loop or the rest of the channel of one run keeps what holds of all of them.\<close>

lemma set_listD: "x \<in> set (xs[i := y]) \<Longrightarrow> x = y \<or> x \<in> set xs"
  using set_update_subset_insert[of xs i y] by auto

lemma runs_ok_update:
  assumes ok: "runs_ok keys runs" and i: "i < length runs"
    and h: "hr_key h = hr_key (runs ! i)" "hr_left h = None \<longleftrightarrow> hr_left (runs ! i) = None"
  shows "runs_ok keys (runs[i := h])"
proof -
  have same: "hr_key (runs[i := h] ! j) = hr_key (runs ! j)"
    and left: "hr_left (runs[i := h] ! j) = None \<longleftrightarrow> hr_left (runs ! j) = None" if "j < length runs" for j
    using that h i by (auto simp: nth_list_update)
  have "map hr_key (runs[i := h]) = map hr_key runs"
    using h(1) i by (simp add: map_update list_update_same_conv)
  then have image: "hr_key ` set (runs[i := h]) = hr_key ` set runs" by (metis set_map)
  show ?thesis using ok by (simp add: runs_ok_def image same left)
qed

lemma system_ok_run:
  assumes ok: "system_ok sy" and i: "i < length (sy_runs sy)"
    and h: "run_ok h" "hr_key h = hr_key (sy_runs sy ! i)" "hr_left h = None \<longleftrightarrow> hr_left (sy_runs sy ! i) = None"
    and rc: "controller_ok rc" "table_keys (rc_manager rc) = table_keys (rc_manager (sy_controller sy))"
  shows "system_ok (sy\<lparr>sy_controller := rc, sy_runs := (sy_runs sy)[i := h]\<rparr>)"
  using ok h(1) rc runs_ok_update[OF _ i h(2,3)] by (auto simp: system_ok_def dest: set_listD)

lemma system_ok_loop:
  assumes ok: "system_ok sy" and i: "i < length (sy_runs sy)"
    and h: "run_ok h" "hr_key h = hr_key (sy_runs sy ! i)" "hr_left h = None \<longleftrightarrow> hr_left (sy_runs sy ! i) = None"
  shows "system_ok (sy\<lparr>sy_runs := (sy_runs sy)[i := h]\<rparr>)"
  using system_ok_run[OF ok i h, of "sy_controller sy"] ok by (simp add: system_ok_def)

text \<open>The table and the runs when a handler is started, and when one is dropped.\<close>

lemma runs_ok_append:
  assumes ok: "runs_ok keys runs" and k: "k \<notin> keys"
  shows "runs_ok (insert k keys) (runs @ [new_run k])"
  using ok k unfolding runs_ok_def
  by (auto simp: nth_append new_run_def less_Suc_eq le_Suc_eq split: if_splits)

text \<open>The table after a step of the controller.\<close>

lemma trigger_keys:
  "manager_trigger r m = Some (res, m') \<Longrightarrow>
     table_keys m' = table_keys m \<or> table_keys m' = insert (release_key r) (table_keys m)"
  by (auto simp: manager_trigger_def release_key_def table_keys_def Let_def update_conv' split: if_splits option.splits sum.splits bool.splits)

lemma delete_keys:
  "manager_delete ns nm m = (res, m') \<Longrightarrow> 
     table_keys m' = table_keys m \<or> table_keys m' = table_keys m - {key_for_name ns nm}"
  by (auto simp: manager_delete_def table_keys_def Let_def delete_conv' split: if_splits option.splits sum.splits prod.splits)

lemma take_keys: "manager_take key m = Some (r, m') \<Longrightarrow> table_keys m' = table_keys m"
  by (auto simp: manager_take_def table_keys_def update_conv' split: option.splits list.splits if_splits)

lemma live_in_table: "runs_ok keys runs \<Longrightarrow> h \<in> set runs \<Longrightarrow> hr_left h = None \<Longrightarrow> hr_key h \<in> keys"
  by (auto simp: runs_ok_def in_set_conv_nth)

lemma none_dropped:
  assumes sub: "table_keys m \<subseteq> table_keys m'" and ok: "runs_ok (table_keys m) runs"
  shows "map (stop_dropped m m') runs = runs"
proof (rule map_idI)
  fix h assume "h \<in> set runs"
  then have "hr_left h = None \<Longrightarrow> hr_key h \<in> table_keys m'" using live_in_table[OF ok] sub by blast
  then show "stop_dropped m m' h = h" by (auto simp: stop_dropped_def table_keys_def)
qed

lemma follow_same: "table_keys m' = table_keys m \<Longrightarrow> runs_ok (table_keys m) runs \<Longrightarrow> follow_manager m m' runs = runs"
proof -
  assume same: "table_keys m' = table_keys m" and ok: "runs_ok (table_keys m) runs"
  have "started_keys m m' = []"
    using same by (auto simp: started_keys_def table_keys_def filter_empty_conv dom_def map_of_eq_None_iff)
  with none_dropped[OF _ ok] same show ?thesis by (simp add: follow_manager_def)
qed

lemma filter_one: "distinct xs \<Longrightarrow> x \<in> set xs \<Longrightarrow> filter (\<lambda>y. y = x) xs = [x]"
  by (induction xs) (auto simp: filter_empty_conv)

lemma started_one:
  assumes "table_keys m' = insert k (table_keys m)" and "k \<notin> table_keys m" and "distinct (map fst (mg_handlers m'))"
  shows "started_keys m m' = [k]"
proof -
  have "started_keys m m' = filter (\<lambda>x. x = k) (map fst (mg_handlers m'))"
    unfolding started_keys_def using assms(1,2)
    by (intro filter_cong) (auto simp: table_keys_def dom_def map_of_eq_None_iff set_eq_iff)
  moreover have "k \<in> set (map fst (mg_handlers m'))"
    using assms(1) by (auto simp: table_keys_def dom_map_of_conv_image_fst)
  ultimately show ?thesis using assms(3) by (simp add: filter_one)
qed

lemma follow_started:
  assumes table: "table_keys m' = insert k (table_keys m)" "k \<notin> table_keys m" "distinct (map fst (mg_handlers m'))"
    and ok: "runs_ok (table_keys m) runs"
  shows "follow_manager m m' runs = runs @ [new_run k]"
proof -
  have "map (stop_dropped m m') runs = runs" using table(1) ok by (intro none_dropped) auto
  then show ?thesis by (simp add: follow_manager_def started_one[OF table])
qed

lemma follow_dropped:
  assumes table: "table_keys m' = table_keys m - {k}" and ok: "runs_ok (table_keys m) runs"
  shows "follow_manager m m' runs = map (stop_dropped m m') runs"
    and "runs_ok (table_keys m') (map (stop_dropped m m') runs)"
proof -
  have "started_keys m m' = []"
    using table by (auto simp: started_keys_def table_keys_def filter_empty_conv dom_def map_of_eq_None_iff set_eq_iff)
  then show "follow_manager m m' runs = map (stop_dropped m m') runs" by (simp add: follow_manager_def)
  have key: "hr_key (stop_dropped m m' h) = hr_key h" for h by (simp add: stop_dropped_def)
  have left: "hr_left (stop_dropped m m' h) = None \<longleftrightarrow> hr_left h = None \<and> hr_key h \<in> table_keys m'" for h
    by (auto simp: stop_dropped_def table_keys_def)
  show "runs_ok (table_keys m') (map (stop_dropped m m') runs)"
    using ok table unfolding runs_ok_def by (auto simp: key left image_image)
qed

lemma process_table:
  assumes lister: "lister_ok lister" and run: "process_next_work_item lister rc = Some (b, rc')"
  obtains "table_keys (rc_manager rc') = table_keys (rc_manager rc)"
  | ns nm where "slash_free ns" "slash_free nm"
      "table_keys (rc_manager rc') = insert (key_for_name ns nm) (table_keys (rc_manager rc))"
  | ns nm where "table_keys (rc_manager rc') = table_keys (rc_manager rc) - {key_for_name ns nm}"
proof -
  have answer: "rc_manager rc1 = m" if "answered key res m q = (b1, rc1)" for key res m q b1 rc1
    using that by (auto simp: answered_def split: sum.splits)
  have "table_keys (rc_manager rc') = table_keys (rc_manager rc) \<or>
      (\<exists>ns nm. slash_free ns \<and> slash_free nm \<and>
         table_keys (rc_manager rc') = insert (key_for_name ns nm) (table_keys (rc_manager rc))) \<or>
      (\<exists>ns nm. table_keys (rc_manager rc') = table_keys (rc_manager rc) - {key_for_name ns nm})"
  proof (cases "wq_get (rc_queue rc)")
    case None
    with run show ?thesis by (auto simp: process_next_work_item_def split: if_splits)
  next
    case (Some p)
    then obtain key q where run': "process_key lister key (rc_manager rc) q = Some (b, rc')"
      using run by (cases p) (auto simp: process_next_work_item_def)
    show ?thesis
    proof (cases "split_meta_namespace_key key")
      case (Inl e)
      with run' show ?thesis by (auto simp: process_key_def)
    next
      case (Inr nsnm)
      obtain ns nm where p: "nsnm = (ns, nm)" by (cases nsnm)
      show ?thesis
      proof (cases "lister ns nm")
        case (Inl e)
        with Inr p run' show ?thesis
          using answer delete_keys[of ns nm "rc_manager rc"] 
          by (auto simp: process_key_def split: if_splits prod.splits) blast
      next
        case listed: (Inr r)
        have free: "slash_free ns" "slash_free nm" using split_meta_slash_free[OF Inr[unfolded p]] by simp_all
        have "release_key r = key_for_name ns nm"
          using lister listed by (simp add: lister_ok_def release_key_def)
        with Inr p run' listed free show ?thesis
          using answer trigger_keys[of r "rc_manager rc"]
          by (auto simp: process_key_def split: option.splits)
      qed
    qed
  qed
  then show thesis using that by blast
qed

lemma run_ok_stopped:
  assumes ok: "run_ok h" and m: "manager_ok m"
  shows "run_ok (stop_dropped m m' h)"
proof -
  have "\<forall>r \<in> set (rh_channel rh). release_key r = hr_key h" if "map_of (mg_handlers m) (hr_key h) = Some rh" for rh
    using m that by (auto simp: manager_ok_def release_key_def)
  with ok show ?thesis
    by (cases "map_of (mg_handlers m) (hr_key h)") (auto simp: run_ok_def stop_dropped_def)
qed

lemma system_ok_worked:
  assumes ok: "system_ok sy" and lister: "lister_ok lister"
    and run: "process_next_work_item lister (sy_controller sy) = Some (b, rc)"
  shows "system_ok (sy\<lparr>sy_controller := rc,
     sy_runs := follow_manager (rc_manager (sy_controller sy)) (rc_manager rc) (sy_runs sy)\<rparr>)"
proof -
  let ?m = "rc_manager (sy_controller sy)"
  have rc: "controller_ok rc" using process_ok[OF _ run] ok by (simp add: system_ok_def)
  have runs: "runs_ok (table_keys ?m) (sy_runs sy)" and each: "\<forall>h \<in> set (sy_runs sy). run_ok h"
    and m: "manager_ok ?m" using ok by (simp_all add: system_ok_def controller_ok_def)
  from lister run show ?thesis
  proof (cases rule: process_table)
    case 1
    with runs each rc show ?thesis by (simp add: system_ok_def follow_same)
  next
    case (2 ns nm)
    have dist: "distinct (map fst (mg_handlers (rc_manager rc)))" using rc by (simp add: controller_ok_def manager_ok_def)
    show ?thesis
    proof (cases "key_for_name ns nm \<in> table_keys ?m")
      case True
      with 2 have "table_keys (rc_manager rc) = table_keys ?m" by auto
      with runs each rc show ?thesis by (simp add: system_ok_def follow_same)
    next
      case False
      with 2 runs each rc follow_started[OF 2(3) False dist runs] runs_ok_append[OF runs False] show ?thesis
        by (auto simp: system_ok_def run_ok_new)
    qed
  next
    case (3 ns nm)
    with runs each rc m follow_dropped[OF 3 runs] show ?thesis by (auto simp: system_ok_def run_ok_stopped)
  qed
qed

text \<open>The invariant holds in every state that can be reached.\<close>

lemma system_ok_step:
  assumes ok: "system_ok sy" and step: "system_step e sy sy'"
  shows "system_ok sy'"
  using step
proof cases
  case (reported io)
  then show ?thesis using ok controller_ok_enqueue[of "sy_controller sy" io]
    by (auto simp: system_ok_def enqueue_release_def split: sum.splits)
next
  case worker_started
  then show ?thesis using ok controller_ok_start[of "sy_controller sy"]
    by (simp add: system_ok_def) (simp add: worker_start_def manager_run_def table_keys_def)
next
  case (key_due key)
  have "controller_ok ((sy_controller sy)\<lparr>rc_queue := wq_fire key (rc_queue (sy_controller sy))\<rparr>)"
    by (rule controller_ok_due) (use ok in \<open>simp add: system_ok_def\<close>)
  with ok key_due show ?thesis by (simp add: system_ok_def)
next
  case (worked lister b rc)
  then show ?thesis using system_ok_worked[OF ok worked(3,4)] by simp
next
  case (received i r m s)
  let ?h = "sy_runs sy ! i"
  have h: "run_ok ?h" and m: "manager_ok (rc_manager (sy_controller sy))"
    using ok received by (auto simp: system_ok_def controller_ok_def)
  have key: "release_key r = hr_key ?h" and m': "manager_ok m"
    using manager_ok_take[OF m received(5)] by (simp_all add: release_key_def)
  show ?thesis unfolding received(2)
  proof (rule system_ok_run[OF ok received(3)])
    show "run_ok (?h\<lparr>hr_loop := s\<rparr>)" by (rule run_ok_step[OF h received(6)]) (use key in auto)
    show "controller_ok ((sy_controller sy)\<lparr>rc_manager := m\<rparr>)"
      using ok m' by (simp add: system_ok_def controller_ok_def)
  qed (use take_keys[OF received(5)] in simp_all)
next
  case (received_left i r rs s)
  let ?h = "sy_runs sy ! i"
  have h: "run_ok ?h" using ok received_left by (auto simp: system_ok_def)
  have "run_ok (?h\<lparr>hr_loop := s\<rparr>)"
    by (rule run_ok_step[OF h received_left(5)]) (use h received_left(4) in \<open>auto simp: run_ok_def\<close>)
  then have "run_ok (?h\<lparr>hr_loop := s, hr_left := Some rs\<rparr>)" using received_left(4) by (auto simp: run_ok_def)
  from system_ok_loop[OF ok received_left(3) this] received_left show ?thesis by simp
next
  case (noticed i s)
  let ?h = "sy_runs sy ! i"
  have "run_ok (?h\<lparr>hr_loop := s\<rparr>)"
    by (rule run_ok_step[OF _ noticed(5)]) (use ok noticed in \<open>auto simp: system_ok_def\<close>)
  from system_ok_loop[OF ok noticed(3) this] noticed show ?thesis by simp
next
  case (ran i e s)
  let ?h = "sy_runs sy ! i"
  have "run_ok (?h\<lparr>hr_loop := s\<rparr>)"
    by (rule run_ok_step[OF _ ran(6)]) (use ok ran in \<open>auto simp: system_ok_def\<close>)
  from system_ok_loop[OF ok ran(3) this] ran show ?thesis by simp
qed

lemma system_reach_ok: "system_reach sy \<Longrightarrow> system_ok sy"
proof (induction rule: system_reach.induct)
  case reach_new
  show ?case
    by (simp add: system_ok_def new_release_system_def controller_ok_new runs_ok_def)
      (simp add: table_keys_def new_release_controller_def new_release_manager_def)
next
  case (reach_step sy e sy')
  then show ?case by (blast intro: system_ok_step)
qed

end
