(* ===== verification/Handler_Properties.thy ===== *)
theory Handler_Properties
  imports Release_System Release_Properties
begin

text \<open>
  What holds of the release controller, its manager and the loops of all handlers together.
\<close>

section \<open>Runs of one release\<close>

text \<open>The two answers of a lister: the only release is \<open>r\<close>, and there is none.\<close>

definition only_release :: "release \<Rightarrow> string \<Rightarrow> string \<Rightarrow> error + release" where
  "only_release r ns nm =
     (if rel_namespace r = ns \<and> rel_name r = nm then Inr r else Inl (new_not_found ''releases'' ''releases'' nm))"

definition no_release :: "string \<Rightarrow> string \<Rightarrow> error + release" where
  "no_release ns nm = Inl (new_not_found ''releases'' ''releases'' nm)"

lemma listers_ok: "lister_ok (only_release r)" "lister_ok no_release"
  by (simp_all add: lister_ok_def only_release_def no_release_def)

definition idle_system :: "release_manager \<Rightarrow> handler_run list \<Rightarrow> release_system" where
  "idle_system m runs = \<lparr>sy_controller = \<lparr>rc_queue = new_work_queue, rc_manager = m\<rparr>, sy_runs = runs\<rparr>"

definition named :: "release \<Rightarrow> bool" where
  "named r \<longleftrightarrow> slash_free (rel_namespace r) \<and> slash_free (rel_name r) \<and> rel_namespace r \<noteq> []"

definition processing_one :: "'k \<Rightarrow> 'k work_queue" where
  "processing_one k = new_work_queue\<lparr>wq_processing := [k]\<rparr>"

lemma one_key:
  "wq_get (wq_add k new_work_queue) = Some (k, processing_one k)" "wq_done k (processing_one k) = new_work_queue"
  by (simp_all add: wq_get_def wq_add_def wq_done_def new_work_queue_def processing_one_def set_insert_def Let_def)

lemma report_named:
  assumes "named r"
  shows "deletion_handling_key (Plain (obj_of_release r)) = Inr (release_key r)"
    and "split_meta_namespace_key (release_key r) = Inr (rel_namespace r, rel_name r)"
proof -
  show key: "deletion_handling_key (Plain (obj_of_release r)) = Inr (release_key r)"
    using assms by (auto simp: meta_namespace_key_def obj_of_release_def release_key_def key_for_name_def named_def)
  show "split_meta_namespace_key (release_key r) = Inr (rel_namespace r, rel_name r)"
    using split_key_roundtrip[of "obj_of_release r" "rel_meta r" "release_key r"] key assms
    by (simp add: obj_of_release_def named_def slash_free_def)
qed

text \<open>A report of the release is worked on: with the release listed, and with it gone.\<close>

lemma reach_reported:
  assumes named: "named r" and reach: "system_reach (idle_system m runs)" and lister: "lister_ok lister"
    and run: "process_key lister (release_key r) m (processing_one (release_key r)) = Some (b, \<lparr>rc_queue = new_work_queue, rc_manager = m'\<rparr>)"
  shows "system_reach (idle_system m' (follow_manager m m' runs))"
proof -
  let ?sy = "idle_system m runs\<lparr>sy_controller := \<lparr>rc_queue = wq_add (release_key r) new_work_queue, rc_manager = m\<rparr>\<rparr>"
  have "system_reach ?sy"
    using reach_step[OF reach system_step.reported[of "Plain (obj_of_release r)"]] report_named(1)[OF named]
    by (simp add: enqueue_release_def idle_system_def)
  from reach_step[OF this system_step.worked[OF lister]] run show ?thesis
    by (simp add: idle_system_def process_next_work_item_def one_key)
qed

lemma reach_listed:
  assumes named: "named r" and reach: "system_reach (idle_system m runs)"
    and tr: "manager_trigger r m = Some (Inr (), m')"
  shows "system_reach (idle_system m' (follow_manager m m' runs))"
  by (rule reach_reported[OF named reach listers_ok(1)[of r]])
    (simp add: process_key_def report_named(2)[OF named] only_release_def tr answered_def one_key)

lemma reach_gone:
  assumes named: "named r" and reach: "system_reach (idle_system m runs)"
    and del: "manager_delete (rel_namespace r) (rel_name r) m = (Inr (), m')"
  shows "system_reach (idle_system m' (follow_manager m m' runs))"
  by (rule reach_reported[OF named reach listers_ok(2)])
    (simp add: process_key_def report_named(2)[OF named] no_release_def new_not_found_def del answered_def one_key)

text \<open>The manager with the release in the channel of its handler, and with the channel empty.\<close>

definition one_handler :: "release \<Rightarrow> release list \<Rightarrow> release_manager" where
  "one_handler r rs =
     \<lparr>mg_handlers = [(release_key r, \<lparr>rh_channel = rs, rh_started = True, rh_canceled = False\<rparr>)],
      mg_running = True, mg_live = [release_key r]\<rparr>"

definition no_handler :: release_manager where
  "no_handler = manager_run new_release_manager"

lemma one_handler_ops:
  "manager_trigger r no_handler = Some (Inr (), one_handler r [r])"
  "manager_take (release_key r) (one_handler r [r]) = Some (r, one_handler r [])"
  "manager_delete (rel_namespace r) (rel_name r) (one_handler r rs) = (Inr (), no_handler)"
  "mg_handlers no_handler = []" "mg_handlers (one_handler r rs) =
      [(release_key r, \<lparr>rh_channel = rs, rh_started = True, rh_canceled = False\<rparr>)]"
  by (simp_all add: manager_trigger_def manager_take_def manager_delete_def one_handler_def no_handler_def release_key_def
      manager_run_def new_release_manager_def enqueue_def stop_handler_def new_release_handler_def channel_capacity_def Let_def)

definition applying_run :: "release \<Rightarrow> handler_run" where
  "applying_run r =
     new_run (release_key r)\<lparr>hr_loop := \<lparr>lp_target = Some r, lp_queue = processing_one (rel_name r),
        lp_applying = Some r, lp_stopped = False\<rparr>\<rparr>"

lemma reach_applying:
  assumes reach: "system_reach (idle_system (one_handler r [r]) runs)" and i: "i < length runs"
    and run: "runs ! i = new_run (release_key r)"
  shows "system_reach (idle_system (one_handler r []) (runs[i := applying_run r]))"
proof -
  let ?l = "\<lparr>lp_target = Some r, lp_queue = wq_add (rel_name r) new_work_queue, lp_applying = None, lp_stopped = False\<rparr>"
  have "loop_receive r new_loop = ?l"
    by (simp add: loop_receive_def new_loop_def must_apply_def wq_forget_def) (simp add: new_work_queue_def)
  then have rcv: "loop_step (Received r) new_loop ?l" using loop_step.receive[of new_loop r] by (simp add: new_loop_def)
  let ?sy = "idle_system (one_handler r []) (runs[i := new_run (release_key r)\<lparr>hr_loop := ?l\<rparr>])"
  have sy: "system_reach ?sy"
    using reach_step[OF reach system_step.received[of i _ r "one_handler r []" ?l]] i run one_handler_ops(2) rcv
    by (simp add: idle_system_def new_run_def)
  have "loop_step (Started r) ?l (hr_loop (applying_run r))"
    using loop_step.start[of ?l "rel_name r" "processing_one (rel_name r)" r] by (simp add: one_key applying_run_def)
  with reach_step[OF sy system_step.ran[of i _ "Started r" "hr_loop (applying_run r)"]] i show ?thesis
    by (simp add: idle_system_def applying_run_def new_run_def)
qed

text \<open>Created, being applied, deleted, created again: the second handler applies beside the first.\<close>

definition overlapping :: "release \<Rightarrow> release_system" where
  "overlapping r = idle_system (one_handler r []) [applying_run r\<lparr>hr_left := Some []\<rparr>, applying_run r]"

lemma overlapping_reached: "named r \<Longrightarrow> system_reach (overlapping r)"
proof -
  assume named: "named r"
  have "system_reach (idle_system no_handler [])"
    using reach_step[OF reach_new system_step.worker_started]
    by (simp add: idle_system_def no_handler_def new_release_system_def worker_start_def new_release_controller_def)
  from reach_listed[OF named this one_handler_ops(1)]
  have "system_reach (idle_system (one_handler r [r]) [new_run (release_key r)])"
    by (simp add: follow_manager_def started_keys_def one_handler_ops)
  from reach_applying[OF this] have "system_reach (idle_system (one_handler r []) [applying_run r])" by simp
  from reach_gone[OF named this one_handler_ops(3)]
  have "system_reach (idle_system no_handler [applying_run r\<lparr>hr_left := Some []\<rparr>])"
    by (simp add: follow_manager_def started_keys_def stop_dropped_def one_handler_ops applying_run_def new_run_def)
  from reach_listed[OF named this one_handler_ops(1)]
  have "system_reach (idle_system (one_handler r [r]) [applying_run r\<lparr>hr_left := Some []\<rparr>, new_run (release_key r)])"
    by (simp add: follow_manager_def started_keys_def stop_dropped_def one_handler_ops applying_run_def)
  from reach_applying[OF this, of 1] show ?thesis by (simp add: overlapping_def)
qed


lemma named_web: "named web"
  by (simp add: named_def slash_free_def web_def)


text \<open>
  C39: stopping does not wait. When a release is deleted while it is being applied and created again, a
  state is reached in which the stopped handler and the new one both apply it at the same time, to the
  same objects of the server and the same storage.
\<close>

theorem applies_can_overlap:
  assumes "slash_free (rel_namespace r)" and "slash_free (rel_name r)" and "rel_namespace r \<noteq> []"
  shows "\<exists>sy. system_reach sy \<and> length (sy_runs sy) = 2 \<and>
     hr_left (sy_runs sy ! 0) \<noteq> None \<and> hr_left (sy_runs sy ! 1) = None \<and>
     (\<forall>i < 2. hr_key (sy_runs sy ! i) = release_key r \<and> lp_applying (hr_loop (sy_runs sy ! i)) = Some r)"
proof (intro exI conjI)
  show "system_reach (overlapping r)" by (rule overlapping_reached) (use assms in \<open>simp add: named_def\<close>)
qed (auto simp: overlapping_def idle_system_def applying_run_def new_run_def less_Suc_eq numeral_2_eq_2)

theorem applies_can_overlap_witness:
  "\<exists>sy. system_reach sy \<and> length (sy_runs sy) = 2 \<and>
     (\<forall>i < 2. lp_applying (hr_loop (sy_runs sy ! i)) = Some web)"
  using applies_can_overlap[of web] named_web unfolding named_def by blast

section \<open>After the stop\<close>

lemma stopped_step:
  assumes ok: "loop_ok nm s" and stopped: "lp_stopped s" "wq_shutting_down (lp_queue s)" and step: "loop_step e s s'"
  shows "loop_ok nm s' \<and> lp_stopped s' \<and> wq_shutting_down (lp_queue s') \<and> lp_target s' = lp_target s \<and>
     length (wq_dirty (lp_queue s')) + (if is_started e then 1 else 0) \<le> length (wq_dirty (lp_queue s)) \<and>
     (\<forall>t. e = Started t \<longrightarrow> lp_target s = Some t)"
proof -
  have "event_ok nm e" using step stopped by (auto simp: event_ok_def elim: loop_step.cases)
  then have "loop_ok nm s'" by (rule loop_step_ok[OF ok _ step])
  moreover have "length (wq_dirty (lp_queue s')) + (if is_started e then 1 else 0) \<le> length (wq_dirty (lp_queue s))"
    using step
  proof cases
    case (start k q t)
    have "k \<in> set (wq_dirty (lp_queue s))" "distinct (wq_dirty (lp_queue s))"
      using wq_get_law[OF _ start(4)] ok by (auto simp: loop_ok_def wq_ok_def)
    moreover have "wq_dirty q = remove1 k (wq_dirty (lp_queue s))"
      using start(4) by (auto simp: wq_get_def split: list.splits)
    ultimately show ?thesis
      by (simp add: start(2) is_started_def length_remove1) (metis One_nat_def Suc_pred length_pos_if_in_set order_refl)
  qed (use stopped in \<open>auto simp: is_started_def after_success_def after_failure_def\<close>)
  moreover have "lp_stopped s' \<and> wq_shutting_down (lp_queue s') \<and> lp_target s' = lp_target s"
    using step loop_step_closed[OF step] stopped by cases simp_all
  ultimately show ?thesis using step by (auto elim: loop_step.cases)
qed

lemma stopped_steps:
  "loop_steps es s s' \<Longrightarrow> loop_ok nm s \<Longrightarrow> lp_stopped s \<Longrightarrow> wq_shutting_down (lp_queue s) \<Longrightarrow>
     length (filter is_started es) \<le> length (wq_dirty (lp_queue s)) \<and>
     (\<forall>t. Started t \<in> set es \<longrightarrow> lp_target s = Some t)"
proof (induction rule: loop_steps.induct)
  case (step e s s' es s'')
  from stopped_step[OF step.prems(1-3) step.hyps(1)] step.IH show ?case by (auto split: if_splits)
qed simp



section \<open>From the queue of the controller to the apply\<close>

definition continues_to :: "release_system \<Rightarrow> release_system \<Rightarrow> bool" where
  "continues_to = (\<lambda>a b. \<exists>e. system_step e a b)\<^sup>*\<^sup>*"

lemma continues_refl [simp]: "continues_to sy sy"
  by (simp add: continues_to_def)

lemma continues_step: "system_step e sy sy1 \<Longrightarrow> continues_to sy1 sy2 \<Longrightarrow> continues_to sy sy2"
  unfolding continues_to_def by (metis (mono_tags, lifting) converse_rtranclp_into_rtranclp)

lemma continues_reach: "continues_to sy sy' \<Longrightarrow> system_reach sy \<Longrightarrow> system_reach sy'"
  unfolding continues_to_def by (induction rule: rtranclp_induct) (auto intro: reach_step)

text \<open>The handler \<open>i\<close> is live for the key, and its channel holds these releases.\<close>

definition channel_is :: "release_system \<Rightarrow> nat \<Rightarrow> string \<Rightarrow> release list \<Rightarrow> bool" where
  "channel_is sy i key rs \<longleftrightarrow>
     i < length (sy_runs sy) \<and> hr_left (sy_runs sy ! i) = None \<and> hr_key (sy_runs sy ! i) = key \<and>
     (\<exists>h. map_of (mg_handlers (rc_manager (sy_controller sy))) key = Some h \<and> rh_channel h = rs)"

lemma receive_next:
  assumes reach: "system_reach sy" and ch: "channel_is sy i key (x # rs)"
  shows "\<exists>sy'. system_step (RunStep i (Received x)) sy sy' \<and> channel_is sy' i key rs \<and>
     hr_loop (sy_runs sy' ! i) = loop_receive x (hr_loop (sy_runs sy ! i))"
proof -
  let ?l = "hr_loop (sy_runs sy ! i)" and ?m = "rc_manager (sy_controller sy)"
  obtain h where i: "i < length (sy_runs sy)" "hr_left (sy_runs sy ! i) = None" "hr_key (sy_runs sy ! i) = key"
    and h: "map_of (mg_handlers ?m) key = Some h" "rh_channel h = x # rs"
    using ch by (auto simp: channel_is_def)
  have "run_ok (sy_runs sy ! i)" using system_reach_ok[OF reach] i(1) by (simp add: system_ok_def)
  then have "\<not> lp_stopped ?l" using i(2) by (simp add: run_ok_def)
  from loop_step.receive[OF this] have rcv: "loop_step (Received x) ?l (loop_receive x ?l)" .
  let ?m' = "?m\<lparr>mg_handlers := AList.update key (h\<lparr>rh_channel := rs\<rparr>) (mg_handlers ?m)\<rparr>"
  have tk: "manager_take (hr_key (sy_runs sy ! i)) ?m = Some (x, ?m')" using h i(3) by (simp add: manager_take_def)
  let ?sy = "sy\<lparr>sy_controller := (sy_controller sy)\<lparr>rc_manager := ?m'\<rparr>,
     sy_runs := (sy_runs sy)[i := (sy_runs sy ! i)\<lparr>hr_loop := loop_receive x ?l\<rparr>]\<rparr>"
  have "system_step (RunStep i (Received x)) sy ?sy" by (rule system_step.received[OF i(1,2) tk rcv])
  moreover have "channel_is ?sy i key rs" using i by (simp add: channel_is_def update_conv')
  ultimately show ?thesis using i(1) by (intro exI[of _ ?sy]) simp
qed

lemma receive_last:
  "system_reach sy \<Longrightarrow> channel_is sy i key (xs @ [r]) \<Longrightarrow>
     \<exists>sy' l. continues_to sy sy' \<and> channel_is sy' i key [] \<and> hr_loop (sy_runs sy' ! i) = loop_receive r l"
proof (induction xs arbitrary: sy)
  case Nil
  with receive_next[of sy i key r "[]"] show ?case by simp (blast intro: continues_step continues_refl)
next
  case (Cons x xs)
  then obtain sy1 where sy1: "system_step (RunStep i (Received x)) sy sy1" "channel_is sy1 i key (xs @ [r])"
    using receive_next[of sy i key x "xs @ [r]"] by auto
  with Cons.IH[of sy1] Cons.prems(1) show ?case by (blast intro: reach_step continues_step)
qed

text \<open>Once the pending key of a live run is the last thing to do, the run comes to apply its target.\<close>

lemma run_applies:
  assumes reach: "system_reach sy" and i: "i < length (sy_runs sy)"
    and p: "rel_name r \<in> set (wq_dirty (lp_queue (hr_loop (sy_runs sy ! i))))" "lp_target (hr_loop (sy_runs sy ! i)) = Some r"
  shows "\<exists>sy'. continues_to sy sy' \<and> lp_applying (hr_loop (sy_runs sy' ! i)) = Some r \<and>
     length (sy_runs sy') = length (sy_runs sy) \<and> hr_key (sy_runs sy' ! i) = hr_key (sy_runs sy ! i)"
proof -
  have idle: "\<exists>sy'. continues_to sy sy' \<and> lp_applying (hr_loop (sy_runs sy' ! i)) = Some r \<and>
     length (sy_runs sy') = length (sy_runs sy) \<and> hr_key (sy_runs sy' ! i) = hr_key (sy_runs sy ! i)"
    if l: "lp_applying (hr_loop (sy_runs sy ! i)) = None" "system_reach sy" "i < length (sy_runs sy)"
      "rel_name r \<in> set (wq_dirty (lp_queue (hr_loop (sy_runs sy ! i))))" "lp_target (hr_loop (sy_runs sy ! i)) = Some r" for sy
  proof -
    have "run_ok (sy_runs sy ! i)" using system_reach_ok[OF l(2)] l(3) by (simp add: system_ok_def)
    then have "loop_ok (rel_name r) (hr_loop (sy_runs sy ! i))" using l(5) by (auto simp: run_ok_def loop_ok_def)
    from pending_starts[OF this l(4,5,1)] obtain s where s: "loop_step (Started r) (hr_loop (sy_runs sy ! i)) s" by blast
    then have "lp_applying s = Some r" by (auto simp: started_simps)
    with continues_step[OF system_step.ran[OF l(3) _ _ s] continues_refl] l(3) show ?thesis
      by (intro exI[of _ "sy\<lparr>sy_runs := (sy_runs sy)[i := (sy_runs sy ! i)\<lparr>hr_loop := s\<rparr>]\<rparr>"]) simp
  qed
  show ?thesis
  proof (cases "lp_applying (hr_loop (sy_runs sy ! i))")
    case None
    with idle reach i p show ?thesis by blast
  next
    case (Some t)
    let ?s = "(hr_loop (sy_runs sy ! i))\<lparr>lp_queue := after_success (rel_name r) (lp_queue (hr_loop (sy_runs sy ! i))),
        lp_applying := None\<rparr>"
    have "loop_step Succeeded (hr_loop (sy_runs sy ! i)) ?s" by (rule loop_step.succeed[OF Some p(2)])
    from system_step.ran[OF i _ _ this] have st: "system_step (RunStep i Succeeded) sy
        (sy\<lparr>sy_runs := (sy_runs sy)[i := (sy_runs sy ! i)\<lparr>hr_loop := ?s\<rparr>]\<rparr>)" by simp
    from idle[OF _ reach_step[OF reach st]] p i continues_step[OF st] show ?thesis
      by (simp add: after_success_def) blast
  qed
qed

lemma live_exists: "runs_ok keys runs \<Longrightarrow> k \<in> keys \<Longrightarrow> \<exists>i < length runs. hr_key (runs ! i) = k \<and> hr_left (runs ! i) = None"
proof -
  assume ok: "runs_ok keys runs" and k: "k \<in> keys"
  let ?I = "{i. i < length runs \<and> hr_key (runs ! i) = k}"
  have "k \<in> hr_key ` set runs" using ok k by (auto simp: runs_ok_def)
  then obtain h where "h \<in> set runs" "hr_key h = k" by auto
  then have "?I \<noteq> {}" by (auto simp: in_set_conv_nth)
  then have "Max ?I \<in> ?I" by (intro Max_in) simp_all
  moreover have "\<forall>j \<in> ?I. j \<le> Max ?I" by simp
  ultimately obtain i where "i < length runs" "hr_key (runs ! i) = k" "\<forall>j < length runs. hr_key (runs ! j) = k \<longrightarrow> j \<le> i"
    by blast
  with ok k show ?thesis unfolding runs_ok_def by blast
qed

text \<open>The worker puts a listed release into the channel of its handler when there is room.\<close>

lemma work_on_listed:
  assumes "system_reach sy" and "wq_get (rc_queue (sy_controller sy)) = Some (key, q)"
    and "split_meta_namespace_key key = Inr (ns, nm)" and "lister_ok lister" and "lister ns nm = Inr r"
    and "mg_running (rc_manager (sy_controller sy))"
    and room: "\<And>h. map_of (mg_handlers (rc_manager (sy_controller sy))) (release_key r) = Some h \<Longrightarrow> length (rh_channel h) < 10"
  shows "\<exists>sy' i rs. system_step Worked sy sy' \<and> channel_is sy' i (release_key r) (rs @ [r])"
proof -
  let ?m = "rc_manager (sy_controller sy)" and ?k = "release_key r"
  have ok: "system_ok sy" by (rule system_reach_ok[OF assms(1)])
  have "\<exists>h rs m'. manager_trigger r ?m = Some (Inr (), m') \<and> map_of (mg_handlers m') ?k = Some h \<and> rh_channel h = rs @ [r]"
  proof (cases "map_of (mg_handlers ?m) ?k")
    case None
    with assms(6) show ?thesis
      by (simp add: manager_trigger_def release_key_def enqueue_def new_release_handler_def channel_capacity_def update_conv' Let_def)
  next
    case (Some h)
    have "rh_started h" "\<not> rh_canceled h" using ok Some unfolding system_ok_def controller_ok_def manager_ok_def by blast+
    with Some assms(6) room show ?thesis
      by (simp add: manager_trigger_def release_key_def enqueue_def channel_capacity_def update_conv' Let_def)
  qed
  then obtain h rs m' where m': "manager_trigger r ?m = Some (Inr (), m')" "map_of (mg_handlers m') ?k = Some h" "rh_channel h = rs @ [r]"
    by blast
  obtain rc where rc: "process_next_work_item lister (sy_controller sy) = Some (True, rc)" "rc_manager rc = m'"
    using assms(2,3,5) m'(1) by (simp add: process_next_work_item_def process_key_def answered_def)
  let ?sy = "sy\<lparr>sy_controller := rc, sy_runs := follow_manager ?m m' (sy_runs sy)\<rparr>"
  have st: "system_step Worked sy ?sy" using system_step.worked[OF assms(4) rc(1)] rc(2) by simp
  from system_ok_step[OF ok this] have "runs_ok (table_keys m') (follow_manager ?m m' (sy_runs sy))"
    by (simp add: system_ok_def rc(2))
  from live_exists[OF this, of ?k] m'(2) obtain i where "i < length (follow_manager ?m m' (sy_runs sy))"
      "hr_key (follow_manager ?m m' (sy_runs sy) ! i) = ?k" "hr_left (follow_manager ?m m' (sy_runs sy) ! i) = None"
    by (auto simp: table_keys_def)
  with m'(2,3) rc(2) have "channel_is ?sy i ?k (rs @ [r])" by (simp add: channel_is_def)
  with st show ?thesis by blast
qed

text \<open>A handler whose channel is full makes room, whatever it does.\<close>

lemma room_can_be_made:
  assumes reach: "system_reach sy"
  shows "\<exists>sy'. continues_to sy sy' \<and> rc_queue (sy_controller sy') = rc_queue (sy_controller sy) \<and>
     mg_running (rc_manager (sy_controller sy')) = mg_running (rc_manager (sy_controller sy)) \<and>
     (\<forall>h. map_of (mg_handlers (rc_manager (sy_controller sy'))) key = Some h \<longrightarrow> length (rh_channel h) < 10)"
proof (cases "\<exists>h. map_of (mg_handlers (rc_manager (sy_controller sy))) key = Some h \<and> length (rh_channel h) \<ge> 10")
  case False
  then show ?thesis by (intro exI[of _ sy]) (auto simp: not_le)
next
  case True
  then obtain h x rs where h: "map_of (mg_handlers (rc_manager (sy_controller sy))) key = Some h" "rh_channel h = x # rs"
    by (metis list.size(3) neq_Nil_conv not_numeral_le_zero)
  have ok: "system_ok sy" by (rule system_reach_ok[OF reach])
  then have "length (x # rs) \<le> 10"
    using h unfolding system_ok_def controller_ok_def manager_ok_def channel_capacity_def by metis
  have "runs_ok (table_keys (rc_manager (sy_controller sy))) (sy_runs sy)" using ok by (simp add: system_ok_def)
  from live_exists[OF this, of key] h have "\<exists>i. channel_is sy i key (x # rs)"
    by (auto simp: table_keys_def channel_is_def)
  then obtain i where "channel_is sy i key (x # rs)" ..
  from receive_next[OF reach this] obtain sy' where
    st: "system_step (RunStep i (Received x)) sy sy'" and ch: "channel_is sy' i key rs" by blast
  have "rc_queue (sy_controller sy') = rc_queue (sy_controller sy) \<and>
      mg_running (rc_manager (sy_controller sy')) = mg_running (rc_manager (sy_controller sy))"
    using st by cases (auto simp: manager_take_def split: option.splits list.splits)
  with ch \<open>length (x # rs) \<le> 10\<close> continues_step[OF st continues_refl] show ?thesis
    by (intro exI[of _ sy']) (auto simp: channel_is_def)
qed

text \<open>
  C16: a release that is listed when the controller works on its key comes to be applied: from every
  reachable state, even with the channel of its handler full and older releases waiting in it, the
  program can go on to where the handler of its key applies this very release, or has looked at it and
  declined because the target it already has asks for the same.
\<close>

theorem listed_release_reaches_apply:
  assumes "system_reach sy" and "wq_get (rc_queue (sy_controller sy)) = Some (key, q)"
    and "split_meta_namespace_key key = Inr (ns, nm)" and "lister_ok lister" and "lister ns nm = Inr r"
    and "mg_running (rc_manager (sy_controller sy))"
  shows "\<exists>sy' i. continues_to sy sy' \<and> i < length (sy_runs sy') \<and> hr_key (sy_runs sy' ! i) = release_key r \<and>
     (lp_applying (hr_loop (sy_runs sy' ! i)) = Some r \<or>
      (\<exists>t. lp_target (hr_loop (sy_runs sy' ! i)) = Some t \<and> \<not> must_apply (Some t) r))"
proof -
  obtain sy1 where sy1: "continues_to sy sy1" "rc_queue (sy_controller sy1) = rc_queue (sy_controller sy)"
      "mg_running (rc_manager (sy_controller sy1)) = mg_running (rc_manager (sy_controller sy))"
      "\<And>h. map_of (mg_handlers (rc_manager (sy_controller sy1))) (release_key r) = Some h \<Longrightarrow> length (rh_channel h) < 10"
    using room_can_be_made[OF assms(1)] by blast
  have r1: "system_reach sy1" by (rule continues_reach[OF sy1(1) assms(1)])
  obtain sy2 i rs where sy2: "system_step Worked sy1 sy2" "channel_is sy2 i (release_key r) (rs @ [r])"
    using work_on_listed[OF r1 _ assms(3-5)] assms(2,6) sy1(2-4) by metis
  obtain sy3 l where sy3: "continues_to sy2 sy3" "channel_is sy3 i (release_key r) []"
      "hr_loop (sy_runs sy3 ! i) = loop_receive r l"
    using receive_last[OF reach_step[OF r1 sy2(1)] sy2(2)] by blast
  have to3: "continues_to sy sy3"
    using sy1(1) continues_step[OF sy2(1) sy3(1)] unfolding continues_to_def by (rule rtranclp_trans)
  have r3: "system_reach sy3" by (rule continues_reach[OF to3 assms(1)])
  have i: "i < length (sy_runs sy3)" "hr_key (sy_runs sy3 ! i) = release_key r" "hr_left (sy_runs sy3 ! i) = None"
    using sy3(2) by (simp_all add: channel_is_def)
  show ?thesis
  proof (cases "must_apply (lp_target l) r")
    case False
    then obtain t where "lp_target (hr_loop (sy_runs sy3 ! i)) = Some t" "\<not> must_apply (Some t) r"
      by (cases "lp_target l") (auto simp: sy3(3) loop_receive_def)
    with to3 i show ?thesis by blast
  next
    case True
    have "run_ok (sy_runs sy3 ! i)" using system_reach_ok[OF r3] i(1) by (simp add: system_ok_def)
    then have "\<not> wq_shutting_down (lp_queue (hr_loop (sy_runs sy3 ! i)))" using i(3) by (simp add: run_ok_def)
    with True have p: "rel_name r \<in> set (wq_dirty (lp_queue (hr_loop (sy_runs sy3 ! i))))"
        "lp_target (hr_loop (sy_runs sy3 ! i)) = Some r"
      by (auto simp: sy3(3) loop_receive_def wq_add_def set_insert_def Let_def split: if_splits)
    from run_applies[OF r3 i(1) p] obtain sy4 where "continues_to sy3 sy4" "lp_applying (hr_loop (sy_runs sy4 ! i)) = Some r"
        "length (sy_runs sy4) = length (sy_runs sy3)" "hr_key (sy_runs sy4 ! i) = hr_key (sy_runs sy3 ! i)" by blast
    moreover from this(1) to3 have "continues_to sy sy4" unfolding continues_to_def by (rule rtranclp_trans[rotated])
    ultimately show ?thesis using i by metis
  qed
qed

theorem listed_release_reaches_apply_witness:
  "\<exists>sy' i. continues_to (new_release_system\<lparr>sy_controller := web_controller\<rparr>) sy' \<and>
     hr_key (sy_runs sy' ! i) = ''ns/web'' \<and>
     (lp_applying (hr_loop (sy_runs sy' ! i)) = Some web \<or>
      (\<exists>t. lp_target (hr_loop (sy_runs sy' ! i)) = Some t \<and> \<not> must_apply (Some t) web))"
proof -
  have reach: "system_reach (new_release_system\<lparr>sy_controller := web_controller\<rparr>)"
    using reach_step[OF reach_step[OF reach_new system_step.reported[of "Plain (obj_of_release web)"]] system_step.worker_started]
    by (simp add: web_controller_def new_release_system_def)
  have web: "only_release web ''ns'' ''web'' = Inr web" "release_key web = ''ns/web''"
    by (simp_all add: only_release_def web_def release_key_def key_for_name_def)
  from listed_release_reaches_apply[OF reach _ split_web_key listers_ok(1) web(1)]
  show ?thesis by (simp add: web_queue web_manager web(2)) blast
qed

end
