(* ===== verification/Storage_Server.thy ===== *)
theory Storage_Server
  imports Release_Properties "HOL-Library.Countable"
begin

text \<open>
  The storage of a release against a server that applies merge patches: what an apply and a rollback
  leave in the object the server holds, whatever else was written to it in between.
\<close>

section \<open>Merge patches\<close>

text \<open>
  A merge patch of two documents names the fields in which they differ; applied to a third document
  it gives these fields their new values and leaves the others.
\<close>

definition merge_field :: "'a \<Rightarrow> 'a \<Rightarrow> 'a \<Rightarrow> 'a" where
  "merge_field old new cur = (if old = new then cur else new)"

lemma merge_field_simps [simp]: "merge_field x x cur = cur" "merge_field old new old = new"
  by (simp_all add: merge_field_def)

definition merge_spec :: "release_spec \<Rightarrow> release_spec \<Rightarrow> release_spec \<Rightarrow> release_spec" where
  "merge_spec old new cur =
     \<lparr>rs_description = merge_field (rs_description old) (rs_description new) (rs_description cur),
      rs_template = merge_field (rs_template old) (rs_template new) (rs_template cur),
      rs_config = merge_field (rs_config old) (rs_config new) (rs_config cur),
      rs_suspend = merge_field (rs_suspend old) (rs_suspend new) (rs_suspend cur),
      rs_rollback_to = merge_field (rs_rollback_to old) (rs_rollback_to new) (rs_rollback_to cur)\<rparr>"

text \<open>The status without the two tables that the status controller fills in.\<close>

definition merge_status :: "release_status \<Rightarrow> release_status \<Rightarrow> release_status \<Rightarrow> release_status" where
  "merge_status old new cur =
     \<lparr>st_version = merge_field (st_version old) (st_version new) (st_version cur),
      st_manifest = merge_field (st_manifest old) (st_manifest new) (st_manifest cur),
      st_last_update = merge_field (st_last_update old) (st_last_update new) (st_last_update cur),
      st_details = st_details cur, st_pods = st_pods cur,
      st_conditions = merge_field (st_conditions old) (st_conditions new) (st_conditions cur)\<rparr>"

text \<open>
  What is relied on in the server, whose release \<open>srv\<close> reads off a state: documents can be compared,
  equal ones give the empty patch, and a patch that is answered, of two releases that differ in what
  the storage writes, was merged into the object of the server, which is what is answered. The
  metadata of the answer is the server's own; a patch does not rename.
\<close>

definition writes_only :: "release \<Rightarrow> release \<Rightarrow> bool" where
  "writes_only old new \<longleftrightarrow>
     rel_meta old = rel_meta new \<and> st_details (rel_status old) = st_details (rel_status new) \<and>
     st_pods (rel_status old) = st_pods (rel_status new)"

definition merging_server :: "'s storage_env \<Rightarrow> ('s \<Rightarrow> release) \<Rightarrow> bool" where
  "merging_server env srv \<longleftrightarrow>
     (\<forall>old new a b p. se_marshal env old = Inr a \<longrightarrow> se_marshal env new = Inr b \<longrightarrow> se_merge_patch env a b = Inr p \<longrightarrow>
        (p = ''{}'' \<longleftrightarrow> old = new) \<and>
        (\<forall>s rel s'. writes_only old new \<longrightarrow> old \<noteq> new \<longrightarrow> se_release_patch env (se_name env) p s = (Inr rel, s') \<longrightarrow>
           rel_spec rel = merge_spec (rel_spec old) (rel_spec new) (rel_spec (srv s)) \<and>
           rel_status rel = merge_status (rel_status old) (rel_status new) (rel_status (srv s)) \<and>
           rel_name rel = rel_name (srv s) \<and> srv s' = rel))"

text \<open>An operation that leaves the release of the server alone.\<close>

definition leaves :: "('s \<Rightarrow> 'x) \<Rightarrow> ('s, 'a) io \<Rightarrow> bool" where
  "leaves srv m \<longleftrightarrow> (\<forall>s. srv (snd (m s)) = srv s)"

lemma leavesD: "leaves srv m \<Longrightarrow> m s = (r, s') \<Longrightarrow> srv s' = srv s"
  unfolding leaves_def by (metis snd_conv)

lemma leaves_ret [simp]: "leaves srv (ret x)" "leaves srv (fail e)" "leaves srv (lift_result r)"
  by (simp_all add: leaves_def ret_def fail_def lift_result_def)

lemma leaves_bind:
  assumes "leaves srv m" and "\<And>x s s'. m s = (Inr x, s') \<Longrightarrow> leaves srv (f x)"
  shows "leaves srv (bind_io m f)"
proof -
  have "srv (snd (bind_io m f s)) = srv s" for s
  proof (cases "m s")
    case (Pair r s')
    then have "srv s' = srv s" by (rule leavesD[OF assms(1)])
    with Pair assms(2)[of s _ s'] show ?thesis by (cases r) (auto simp: bind_io_def leaves_def)
  qed
  then show ?thesis by (simp add: leaves_def)
qed

text \<open>
  The layers of the storage, if it has any, leave the release of the server alone: they are records
  of the program.
\<close>

definition layer_apart :: "'s layer_ops \<Rightarrow> ('s \<Rightarrow> 'x) \<Rightarrow> bool" where
  "layer_apart ly srv \<longleftrightarrow>
     (\<forall>ob. leaves srv (lo_created ly ob) \<and> leaves srv (lo_updated ly ob) \<and> leaves srv (lo_deleted ly ob)) \<and>
     (\<forall>ns nm. leaves srv (lo_ns_get ly ns nm)) \<and> (\<forall>ns sel. leaves srv (lo_ns_list ly ns sel))"

definition layers_apart :: "'s cache_layers option \<Rightarrow> ('s \<Rightarrow> 'x) \<Rightarrow> bool" where
  "layers_apart layers srv \<longleftrightarrow>
     (\<forall>ls. layers = Some ls \<longrightarrow>
        (\<forall>g. leaves srv (cls_layer_for ls g)) \<and>
        (\<forall>g s ly s'. cls_layer_for ls g s = (Inr ly, s') \<longrightarrow> layer_apart ly srv))"

lemma no_layers_apart [simp]: "layers_apart None srv"
  by (simp add: layers_apart_def)

lemma layers_apart_bind:
  assumes "layers_apart layers srv" and "layers = Some ls" and "\<And>ly. layer_apart ly srv \<Longrightarrow> leaves srv (f ly)"
  shows "leaves srv (bind_io (cls_layer_for ls g) f)"
proof (rule leaves_bind)
  show "leaves srv (cls_layer_for ls g)" using assms(1,2) by (simp add: layers_apart_def)
  show "leaves srv (f ly)" if "cls_layer_for ls g s = (Inr ly, s')" for ly s s'
    using assms(1,2) that by (intro assms(3)) (unfold layers_apart_def, blast)
qed

lemma layers_apartD:
  assumes "layers_apart layers srv" and "layers = Some ls"
  shows "leaves srv (read_layer ls g ns nm)"
    and "leaves srv (bind_io (cls_layer_for ls g) (\<lambda>ly. lo_ns_list ly ns sel))"
    and "leaves srv (record_created ls g ob)" and "leaves srv (record_updated ls g ob)" and "leaves srv (record_deleted ls g ob)"
  unfolding read_layer_def record_created_def record_updated_def record_deleted_def
  by (rule layers_apart_bind[OF assms], simp add: layer_apart_def)+

lemma with_layer_leaves: "layers_apart (se_layers env) srv \<Longrightarrow> leaves srv (with_layer env g ob act)"
  using layers_apartD(3-5)[where layers = "se_layers env" and srv = srv]
  by (auto simp: with_layer_def split: option.splits layer_action.splits)

lemma patch_merges:
  assumes server: "merging_server env srv" and layers: "layers_apart (se_layers env) srv"
    and f: "f kept s = (Inr new, s1)" and w: "writes_only kept new"
    and run: "storage_patch env f (s, kept) = (Inr rel, s', kept')"
  shows "kept' = rel" and "new = kept \<Longrightarrow> rel = kept \<and> srv s' = srv s1"
    and "new \<noteq> kept \<Longrightarrow> srv s' = rel \<and> rel_spec rel = merge_spec (rel_spec kept) (rel_spec new) (rel_spec (srv s1)) \<and>
       rel_status rel = merge_status (rel_status kept) (rel_status new) (rel_status (srv s1)) \<and> rel_name rel = rel_name (srv s1)"
proof -
  obtain a b p where docs: "se_marshal env kept = Inr a" "se_marshal env new = Inr b" "se_merge_patch env a b = Inr p"
    using run f by (auto simp: storage_patch_def bind_io_def current_release_def lift_result_def quiet_def split: sum.splits prod.splits)
  then have p: "p = ''{}'' \<longleftrightarrow> kept = new" using server unfolding merging_server_def by blast
  have parts: "kept' = rel \<and> (new = kept \<longrightarrow> rel = kept \<and> s' = s1) \<and>
      (new \<noteq> kept \<longrightarrow> (\<exists>s2. se_release_patch env (se_name env) p s1 = (Inr rel, s2) \<and>
         with_layer env gvk_release (obj_of_release rel) ActionUpdated s2 = (Inr (), s')))"
    using run f docs p
    by (auto simp: storage_patch_def bind_io_def current_release_def lift_result_def quiet_def ret_def
        keep_release_def split: sum.splits prod.splits if_splits)
  have answer: "\<forall>s rel s'. writes_only kept new \<longrightarrow> kept \<noteq> new \<longrightarrow> se_release_patch env (se_name env) p s = (Inr rel, s') \<longrightarrow>
           rel_spec rel = merge_spec (rel_spec kept) (rel_spec new) (rel_spec (srv s)) \<and>
           rel_status rel = merge_status (rel_status kept) (rel_status new) (rel_status (srv s)) \<and>
           rel_name rel = rel_name (srv s) \<and> srv s' = rel"
    using server docs unfolding merging_server_def by blast
  show "kept' = rel" using parts by blast
  show "rel = kept \<and> srv s' = srv s1" if "new = kept" using parts that by blast
  show "srv s' = rel \<and> rel_spec rel = merge_spec (rel_spec kept) (rel_spec new) (rel_spec (srv s1)) \<and>
       rel_status rel = merge_status (rel_status kept) (rel_status new) (rel_status (srv s1)) \<and> rel_name rel = rel_name (srv s1)" if ne: "new \<noteq> kept"
  proof -
    obtain s2 where s2: "se_release_patch env (se_name env) p s1 = (Inr rel, s2)"
      and noted: "with_layer env gvk_release (obj_of_release rel) ActionUpdated s2 = (Inr (), s')"
      using parts ne by metis
    have "srv s' = srv s2" by (rule leavesD[OF with_layer_leaves[OF layers] noted])
    with answer[rule_format, OF w ne[symmetric] s2] show ?thesis by simp
  qed
qed

text \<open>The fields of the status that only the storage writes; server and storage agree on them.\<close>

definition agree :: "release \<Rightarrow> release \<Rightarrow> bool" where
  "agree kept cur \<longleftrightarrow>
     st_version (rel_status kept) = st_version (rel_status cur) \<and> st_manifest (rel_status kept) = st_manifest (rel_status cur) \<and>
     st_last_update (rel_status kept) = st_last_update (rel_status cur) \<and>
     st_conditions (rel_status kept) = st_conditions (rel_status cur)"

text \<open>A patch of the status only: the server's release takes the new status and keeps its spec.\<close>

lemma status_patch:
  assumes "merging_server env srv" and "layers_apart (se_layers env) srv"
    and f: "f kept s = (Inr new, s1)" and "writes_only kept new" and spec: "rel_spec new = rel_spec kept"
    and same: "agree kept (srv s1)"
    and run: "storage_patch env f (s, kept) = (Inr rel, s', kept')"
  shows "kept' = rel" and "agree new (srv s')" and "agree kept' (srv s')" and "rel_spec (srv s') = rel_spec (srv s1)"
    and "st_details (rel_status (srv s')) = st_details (rel_status (srv s1))" and "rel_name (srv s') = rel_name (srv s1)"
proof -
  note merged = patch_merges[OF assms(1,2) f assms(4) run]
  show "kept' = rel" by (rule merged(1))
  have all: "agree new (srv s') \<and> agree kept' (srv s') \<and> rel_spec (srv s') = rel_spec (srv s1) \<and>
      st_details (rel_status (srv s')) = st_details (rel_status (srv s1)) \<and> rel_name (srv s') = rel_name (srv s1)"
  proof (cases "new = kept")
    case True
    with merged(1,2) same show ?thesis by simp
  next
    case False
    have "merge_spec (rel_spec kept) (rel_spec kept) cur = cur" for cur :: release_spec by (simp add: merge_spec_def)
    with merged(1) merged(3)[OF False] same spec show ?thesis
      by (simp add: agree_def merge_status_def merge_field_def)
  qed
  then show "agree new (srv s')" "agree kept' (srv s')" "rel_spec (srv s') = rel_spec (srv s1)"
    "st_details (rel_status (srv s')) = st_details (rel_status (srv s1))" "rel_name (srv s') = rel_name (srv s1)" by simp_all
qed

section \<open>Updates and conditions\<close>

text \<open>Reading and creating histories and reading the clock leave the release of the server alone.\<close>

definition histories_apart :: "'s storage_env \<Rightarrow> ('s \<Rightarrow> release) \<Rightarrow> bool" where
  "histories_apart env srv \<longleftrightarrow>
     (\<forall>nm. leaves srv (se_history_get env nm)) \<and> (\<forall>sel. leaves srv (se_history_list env sel)) \<and>
     (\<forall>h. leaves srv (se_history_create env h)) \<and> leaves srv (se_now env)"

lemma patch_runs_modifier:
  "storage_patch env f (s, kept) = (Inr rel, st') \<Longrightarrow> \<exists>new s1. f kept s = (Inr new, s1)"
  by (auto simp: storage_patch_def bind_io_def current_release_def lift_result_def quiet_def split: sum.splits prod.splits)

text \<open>What is left alone of the state of a storage: the release of the server and the one kept in memory.\<close>

definition seen :: "('s \<Rightarrow> 'x) \<Rightarrow> 's stored \<Rightarrow> 'x \<times> release" where
  "seen srv st = (srv (fst st), snd st)"

lemma leaves_current: "leaves (seen srv) current_release"
  by (simp add: leaves_def current_release_def)

lemma leaves_quiet: "leaves srv m \<Longrightarrow> leaves (seen srv) (quiet m)"
  by (auto simp: leaves_def seen_def quiet_def split: prod.splits) (metis snd_conv)

lemma seenD: "leaves (seen srv) m \<Longrightarrow> m (s, kept) = (r, s', kept') \<Longrightarrow> srv s' = srv s \<and> kept' = kept"
  by (drule leavesD) (auto simp: seen_def)

lemma history_apart:
  assumes "histories_apart env srv" and "layers_apart (se_layers env) srv" and "storage_history env v (s, kept) = (r, s', kept')"
  shows "srv s' = srv s" and "kept' = kept"
proof -
  have "leaves (seen srv) (storage_history env v)"
    unfolding storage_history_def
    by (intro leaves_bind leaves_current)
      (use assms(1,2) in \<open>auto simp: histories_apart_def split: option.splits
         intro!: leaves_bind leaves_quiet layers_apartD(1)\<close>)
  from seenD[OF this assms(3)] show "srv s' = srv s" "kept' = kept" by simp_all
qed

lemma histories_apart_list:
  assumes "histories_apart env srv" and "layers_apart (se_layers env) srv" and "storage_histories env (s, kept) = (r, s', kept')"
  shows "srv s' = srv s" and "kept' = kept"
proof -
  have "leaves (seen srv) (storage_histories env)"
    unfolding storage_histories_def
    by (intro leaves_bind leaves_current)
      (use assms(1,2) in \<open>auto simp: histories_apart_def split: option.splits
         intro!: leaves_bind[OF leaves_quiet[OF layers_apartD(2)]] leaves_quiet\<close>)
  from seenD[OF this assms(3)] show "srv s' = srv s" "kept' = kept" by simp_all
qed

lemma flush_recorded:
  assumes server: "merging_server env srv" "histories_apart env srv" "layers_apart (se_layers env) srv"
    and same: "agree kept (srv s)" and run: "storage_flush_reason env reason msg (s, kept) = (Inr rel, s', kept')"
  shows "kept' = rel" and "agree kept' (srv s')" and "rel_spec (srv s') = rel_spec (srv s)"
    and "st_details (rel_status (srv s')) = st_details (rel_status (srv s))"
    and "st_version (rel_status (srv s')) = st_version (rel_status kept)"
    and "st_manifest (rel_status (srv s')) = st_manifest (rel_status kept)"
    and "\<exists>now. st_conditions (rel_status (srv s')) = [make_condition reason msg now]"
    and "rel_name (srv s') = rel_name (srv s)"
proof -
  obtain now s1 where now: "se_now env s = (Inr now, s1)"
    and patch: "storage_patch env (\<lambda>r. ret (r\<lparr>rel_status := (rel_status r)\<lparr>st_conditions := [make_condition reason msg now]\<rparr>\<rparr>))
        (s1, kept) = (Inr rel, s', kept')"
    using run by (auto simp: storage_flush_reason_def storage_flush_def new_condition_def bind_io_def quiet_def ret_def
        split: sum.splits prod.splits)
  have s1: "srv s1 = srv s" using server(2) now leavesD[where srv = srv] unfolding histories_apart_def by blast
  let ?new = "kept\<lparr>rel_status := (rel_status kept)\<lparr>st_conditions := [make_condition reason msg now]\<rparr>\<rparr>"
  have p: "kept' = rel" "agree ?new (srv s')" "agree kept' (srv s')" "rel_spec (srv s') = rel_spec (srv s1)"
    "st_details (rel_status (srv s')) = st_details (rel_status (srv s1))" "rel_name (srv s') = rel_name (srv s1)"
    using status_patch[OF server(1,3) _ _ _ _ patch, of ?new s1] same s1 by (simp_all add: ret_def writes_only_def)
  from p(2) have "st_conditions (rel_status (srv s')) = [make_condition reason msg now]" by (simp add: agree_def)
  then show "\<exists>now. st_conditions (rel_status (srv s')) = [make_condition reason msg now]" ..
  from p s1 show "kept' = rel" "agree kept' (srv s')" "rel_spec (srv s') = rel_spec (srv s)"
    "st_details (rel_status (srv s')) = st_details (rel_status (srv s))"
    "st_version (rel_status (srv s')) = st_version (rel_status kept)"
    "st_manifest (rel_status (srv s')) = st_manifest (rel_status kept)" "rel_name (srv s') = rel_name (srv s)"
    by (simp_all add: agree_def)
qed

lemma update_recorded:
  assumes server: "merging_server env srv" "histories_apart env srv" "layers_apart (se_layers env) srv"
    and same: "agree kept (srv s)" and run: "storage_update env r (s, kept) = (Inr rel, s', kept')"
  shows "kept' = rel" and "agree kept' (srv s')" and "rel_spec (srv s') = rel_spec (srv s)"
    and "st_details (rel_status (srv s')) = st_details (rel_status (srv s))"
    and "st_version (rel_status (srv s')) = st_version (rel_status r)"
    and "st_manifest (rel_status (srv s')) = st_manifest (rel_status r)"
proof -
  let ?f = "\<lambda>rel. bind_io (se_now env) (\<lambda>now. bind_io (new_condition env ReasonUpdating []) (\<lambda>c.
      ret (rel\<lparr>rel_status := (rel_status rel)\<lparr>st_last_update := now, st_manifest := st_manifest (rel_status r),
             st_version := st_version (rel_status r), st_conditions := [c]\<rparr>\<rparr>)))"
  obtain s1 where s1: "srv s1 = srv s" and patch: "storage_patch env ?f (s1, kept) = (Inr rel, s', kept')"
  proof -
    obtain found s0 kept0 where hist: "storage_history env (st_version (rel_status r)) (s, kept) = (found, s0, kept0)"
      by (cases "storage_history env (st_version (rel_status r)) (s, kept)") auto
    note apart = history_apart[OF server(2,3) hist]
    show ?thesis
    proof (cases found)
      case (Inr h)
      with that[of s0] run hist apart show ?thesis by (simp add: storage_update_def try_io_def bind_io_def ret_def)
    next
      case (Inl e)
      with run hist apart obtain h x sa ob y s1 where "se_history_create env h s0 = (Inr x, sa)"
        "with_layer env gvk_release_history ob ActionCreated sa = (Inr y, s1)"
        "storage_patch env ?f (s1, kept) = (Inr rel, s', kept')"
        by (auto simp: storage_update_def try_io_def bind_io_def ret_def fail_def quiet_def Let_def
            split: sum.splits prod.splits if_splits)
      with that[of s1] apart server(2) leavesD[where srv = srv] leavesD[OF with_layer_leaves[OF server(3)]]
      show ?thesis unfolding histories_apart_def by metis
    qed
  qed
  obtain new s2 where new: "?f kept s1 = (Inr new, s2)" using patch_runs_modifier[OF patch] by blast
  then obtain n1 n2 sa where now: "se_now env s1 = (Inr n1, sa)" "se_now env sa = (Inr n2, s2)"
    and new': "new = kept\<lparr>rel_status := (rel_status kept)\<lparr>st_last_update := n1, st_manifest := st_manifest (rel_status r),
             st_version := st_version (rel_status r), st_conditions := [make_condition ReasonUpdating [] n2]\<rparr>\<rparr>"
    by (auto simp: bind_io_def new_condition_def ret_def split: sum.splits prod.splits)
  have s2: "srv s2 = srv s" using server(2) now leavesD[where srv = srv] s1 unfolding histories_apart_def by metis
  have p: "kept' = rel" "agree new (srv s')" "agree kept' (srv s')" "rel_spec (srv s') = rel_spec (srv s2)"
    "st_details (rel_status (srv s')) = st_details (rel_status (srv s2))"
    using status_patch[OF server(1,3) new _ _ _ patch] same s2 by (simp_all add: new' writes_only_def)
  from p s2 show "kept' = rel" "agree kept' (srv s')" "rel_spec (srv s') = rel_spec (srv s)"
    "st_details (rel_status (srv s')) = st_details (rel_status (srv s))"
    "st_version (rel_status (srv s')) = st_version (rel_status r)"
    "st_manifest (rel_status (srv s')) = st_manifest (rel_status r)"
    by (simp_all add: agree_def new')
qed

section \<open>An apply, as the server sees it\<close>

text \<open>The client of the objects and the renderer leave the release of the server and the storage alone.\<close>

definition objects_apart :: "'s stored apply_env \<Rightarrow> ('s \<Rightarrow> release) \<Rightarrow> bool" where
  "objects_apart ae srv \<longleftrightarrow>
     (\<forall>ns ms opts. leaves (seen srv) (ae_client_apply ae ns ms opts)) \<and>
     (\<forall>opts. leaves (seen srv) (ae_render ae opts))"

lemma objects_apartD:
  assumes "objects_apart ae srv"
  shows "ae_client_apply ae ns ms opts (s, kept) = (r, s', kept') \<Longrightarrow> srv s' = srv s \<and> kept' = kept"
    and "ae_render ae ro (s, kept) = (r', s', kept') \<Longrightarrow> srv s' = srv s \<and> kept' = kept"
  using assms seenD[where srv = srv] unfolding objects_apart_def by blast+

lemma or_record_Inr:
  assumes "or_record ops m f st = (Inr y, st')"
  shows "\<exists>x st1. m st = (Inr x, st1) \<and> f x st1 = (Inr y, st')"
  using assms
  by (auto simp: or_record_def try_io_def record_error_def bind_io_def fail_def split: sum.splits prod.splits if_splits)

lemma bind_unit_Inr: "bind_io m (\<lambda>_. ret ()) st = (Inr (), st') \<Longrightarrow> \<exists>x. m st = (Inr x, st')"
  by (auto simp: bind_io_def ret_def split: sum.splits prod.splits)

lemma applied_release_left:
  assumes "merging_server env srv" and "histories_apart env srv" and "objects_apart ae srv" and "layers_apart (se_layers env) srv"
    and "agree kept (srv s)" and "rs_rollback_to (rel_spec r) = None"
    and "apply_release (storage_ops env) ae r (s, kept) = (Inr (), s', kept')"
  shows "\<exists>hs s1 root s2. storage_histories env (s, kept) = (Inr hs, s1, kept) \<and>
     ae_render ae (render_options_of (r\<lparr>rel_status := (rel_status r)\<lparr>st_version := next_version r hs\<rparr>\<rparr>)) (s1, kept) = (Inr root, s2) \<and>
     st_version (rel_status (srv s')) = next_version r hs \<and>
     st_manifest (rel_status (srv s')) = merge_resources (tree_resources (ae_children ae) root) \<and>
     (\<exists>now. st_conditions (rel_status (srv s')) = [make_condition ReasonAvailable [] now]) \<and>
     rel_spec (srv s') = rel_spec (srv s) \<and> st_details (rel_status (srv s')) = st_details (rel_status (srv s)) \<and>
     agree kept' (srv s')"
proof -
  note server = assms(1,2,4)
  from assms(6,7) have "or_record (storage_ops env) (so_histories (storage_ops env)) (\<lambda>hs.
      let r1 = r\<lparr>rel_status := (rel_status r)\<lparr>st_version := next_version r hs\<rparr>\<rparr>
      in or_record (storage_ops env) (ae_render ae (render_options_of r1)) (\<lambda>root.
           let manifests = tree_resources (ae_children ae) root;
               r2 = r1\<lparr>rel_status := (rel_status r1)\<lparr>st_manifest := merge_resources manifests\<rparr>\<rparr>
           in apply_manifests (storage_ops env) ae r2 manifests True)) (s, kept) = (Inr (), s', kept')"
    by (simp add: apply_release_def)
  from or_record_Inr[OF this] obtain hs s1 k1 where hs: "storage_histories env (s, kept) = (Inr hs, s1, k1)"
    and rest1: "(let r1 = r\<lparr>rel_status := (rel_status r)\<lparr>st_version := next_version r hs\<rparr>\<rparr>
      in or_record (storage_ops env) (ae_render ae (render_options_of r1)) (\<lambda>root.
           let manifests = tree_resources (ae_children ae) root;
               r2 = r1\<lparr>rel_status := (rel_status r1)\<lparr>st_manifest := merge_resources manifests\<rparr>\<rparr>
           in apply_manifests (storage_ops env) ae r2 manifests True)) (s1, k1) = (Inr (), s', kept')"
    by (auto simp: storage_ops_def)
  note s1 = histories_apart_list[OF assms(2,4) hs]
  let ?r1 = "r\<lparr>rel_status := (rel_status r)\<lparr>st_version := next_version r hs\<rparr>\<rparr>"
  from or_record_Inr[OF rest1[unfolded Let_def]] obtain root s2 k2 where
    root: "ae_render ae (render_options_of ?r1) (s1, k1) = (Inr root, s2, k2)"
    and rest2: "apply_manifests (storage_ops env) ae
        (?r1\<lparr>rel_status := (rel_status ?r1)\<lparr>st_manifest := merge_resources (tree_resources (ae_children ae) root)\<rparr>\<rparr>)
        (tree_resources (ae_children ae) root) True (s2, k2) = (Inr (), s', kept')" by auto
  note s2 = objects_apartD(2)[OF assms(3) root]
  let ?r2 = "?r1\<lparr>rel_status := (rel_status ?r1)\<lparr>st_manifest := merge_resources (tree_resources (ae_children ae) root)\<rparr>\<rparr>"
  from or_record_Inr[OF rest2[unfolded apply_manifests_def]] obtain s3 k3 where
    s3: "srv s3 = srv s2" "k3 = k2" and rest3: "or_record (storage_ops env)
        (if True then bind_io (so_update (storage_ops env) ?r2) (\<lambda>_. ret ()) else ret ())
        (\<lambda>_. bind_io (so_flush (storage_ops env) ReasonAvailable []) (\<lambda>_. ret ())) (s3, k3) = (Inr (), s', kept')"
    using objects_apartD(1)[OF assms(3)] by fastforce
  from or_record_Inr[OF rest3[unfolded if_True]] obtain st4 where
    upd: "bind_io (so_update (storage_ops env) ?r2) (\<lambda>_. ret ()) (s3, k3) = (Inr (), st4)"
    and flush4: "bind_io (so_flush (storage_ops env) ReasonAvailable []) (\<lambda>_. ret ()) st4 = (Inr (), s', kept')"
    by auto
  obtain s4 k4 where st4: "st4 = (s4, k4)" by (cases st4)
  from bind_unit_Inr[OF upd] obtain rel where upd: "storage_update env ?r2 (s3, k3) = (Inr rel, s4, k4)"
    by (auto simp: storage_ops_def st4)
  note flush = flush4[unfolded st4]
  from bind_unit_Inr[OF flush] obtain rel' where fl: "storage_flush_reason env ReasonAvailable [] (s4, k4) = (Inr rel', s', kept')"
    by (auto simp: storage_ops_def)
  have "agree k3 (srv s3)" using assms(5) s1 s2 s3 by simp
  note u = update_recorded[OF server this upd]
  note f = flush_recorded[OF server u(2) fl]
  have srv3: "srv s3 = srv s" using s1 s2 s3 by simp
  have k4: "st_version (rel_status k4) = next_version r hs"
    "st_manifest (rel_status k4) = merge_resources (tree_resources (ae_children ae) root)"
    using u(2,5,6) by (simp_all add: agree_def)
  show ?thesis
    by (intro exI[of _ hs] exI[of _ s1] exI[of _ root] exI[of _ "(s2, k2)"] conjI)
      (use hs s1 root f u(3,4) k4 srv3 in simp_all)
qed


text \<open>
  C38: a rollback can leave its request in place. The storage sends the difference to the release it
  keeps, which is the server's answer to its own last patch: when the request came after that, the
  kept release has none, the patch does not mention it, and the server keeps it, so that the release
  is rolled back once more. In the same way a configuration that was changed together with the
  request stays when the history has the one the storage still keeps.
\<close>

theorem rollback_request_stays:
  assumes "merging_server env srv" and "histories_apart env srv" and "layers_apart (se_layers env) srv"
    and "\<forall>opts. leaves srv (se_render env opts)"
    and "rs_rollback_to (rel_spec kept) = None" and "rs_rollback_to (rel_spec (srv s)) = Some v"
    and "storage_history env v (s, kept) = (Inr h, st1)"
    and "storage_rollback env v (s, kept) = (Inr rel, s', kept')"
  shows "rs_rollback_to (rel_spec (srv s')) = Some v \<and> (\<forall>t. must_apply t (srv s')) \<and>
     (rs_config (rel_spec kept) = hs_config (h_spec h) \<longrightarrow> rs_config (rel_spec (srv s')) = rs_config (rel_spec (srv s)))"
proof -
  obtain s1 k1 where st1: "st1 = (s1, k1)" by (cases st1)
  note s1 = history_apart[OF assms(2,3) assms(7)[unfolded st1]]
  let ?f = "\<lambda>root rel. bind_io (se_now env) (\<lambda>now. bind_io (new_condition env ReasonRollbacking []) (\<lambda>c.
      ret (rel\<lparr>rel_spec := (rel_spec rel)\<lparr>rs_description := hs_description (h_spec h), rs_template := hs_template (h_spec h),
             rs_config := hs_config (h_spec h), rs_rollback_to := None\<rparr>,
           rel_status := (rel_status rel)\<lparr>st_version := h_version h, st_last_update := now,
             st_manifest := merge_resources (tree_resources (se_children env) root), st_conditions := [c]\<rparr>\<rparr>)))"
  obtain ro root s2 where root: "se_render env ro s1 = (Inr root, s2)"
    and patch: "storage_patch env (?f root) (s2, kept) = (Inr rel, s', kept')"
    using assms(7,8) s1(2)
    by (auto simp: storage_rollback_def st1 try_io_def bind_io_def current_release_def quiet_def Let_def
        split: sum.splits prod.splits)
  have s2: "srv s2 = srv s" using assms(4) root s1(1) leavesD[where srv = srv] by metis
  obtain new s3 where new: "?f root kept s2 = (Inr new, s3)" using patch_runs_modifier[OF patch] by blast
  then obtain n1 n2 sa where now: "se_now env s2 = (Inr n1, sa)" "se_now env sa = (Inr n2, s3)"
    and new': "new = kept\<lparr>rel_spec := (rel_spec kept)\<lparr>rs_description := hs_description (h_spec h),
             rs_template := hs_template (h_spec h), rs_config := hs_config (h_spec h), rs_rollback_to := None\<rparr>,
           rel_status := (rel_status kept)\<lparr>st_version := h_version h, st_last_update := n1,
             st_manifest := merge_resources (tree_resources (se_children env) root),
             st_conditions := [make_condition ReasonRollbacking [] n2]\<rparr>\<rparr>"
    by (auto simp: bind_io_def new_condition_def ret_def split: sum.splits prod.splits)
  have s3: "srv s3 = srv s" using assms(2) now leavesD[where srv = srv] s2 unfolding histories_apart_def by metis
  have w: "writes_only kept new" by (simp add: new' writes_only_def)
  note merged = patch_merges[OF assms(1,3) new w patch]
  have spec: "rs_rollback_to (rel_spec (srv s')) = Some v \<and>
      (rs_config (rel_spec kept) = hs_config (h_spec h) \<longrightarrow> rs_config (rel_spec (srv s')) = rs_config (rel_spec (srv s)))"
  proof (cases "new = kept")
    case True
    with merged(2) s3 assms(6) show ?thesis by simp
  next
    case False
    with merged(3) s3 assms(5,6) show ?thesis by (simp add: merge_spec_def new')
  qed
  then show ?thesis by (auto simp: must_apply_def split: option.splits)
qed

section \<open>A server that merges\<close>

text \<open>Releases can be numbered, which gives them documents, and their pairs patches.\<close>

instance condition_type :: countable by countable_datatype
instance resource_phase :: countable by countable_datatype

instance owner_ref_ext :: (countable) countable
  by (rule countable_classI[of "\<lambda>x. to_nat (or_api_version x, or_kind x, or_name x, or_uid x, owner_ref.more x)"]) simp

instance objmeta_ext :: (countable) countable
  by (rule countable_classI[of "\<lambda>x. to_nat (om_name x, om_namespace x, om_uid x, om_resource_version x, om_creation x,
    om_labels x, om_annotations x, om_owners x, objmeta.more x)"]) simp

instance release_spec_ext :: (countable) countable
  by (rule countable_classI[of "\<lambda>x. to_nat (rs_description x, rs_template x, rs_config x, rs_suspend x,
    rs_rollback_to x, release_spec.more x)"]) simp

instance condition_ext :: (countable) countable
  by (rule countable_classI[of "\<lambda>x. to_nat (co_type x, co_status x, co_time x, co_reason x, co_message x, condition.more x)"]) simp

instance detail_status_ext :: (countable) countable
  by (rule countable_classI[of "\<lambda>x. to_nat (ds_path x, ds_resources x, ds_reason x, ds_message x, detail_status.more x)"]) simp

instance pod_statistics_ext :: (countable) countable
  by (rule countable_classI[of "\<lambda>x. to_nat (ps_old x, ps_updated x, pod_statistics.more x)"]) simp

instance release_status_ext :: (countable) countable
  by (rule countable_classI[of "\<lambda>x. to_nat (st_version x, st_manifest x, st_last_update x, st_details x, st_pods x,
    st_conditions x, release_status.more x)"]) simp

instance release_ext :: (countable) countable
  by (rule countable_classI[of "\<lambda>x. to_nat (rel_meta x, rel_spec x, rel_status x, release.more x)"]) simp

definition document :: "release \<Rightarrow> string" where
  "document r = replicate (to_nat r) CHR ''d''"

definition document_patch :: "string \<Rightarrow> string \<Rightarrow> string" where
  "document_patch a b = (if a = b then ''{}'' else replicate (to_nat (length a, length b)) CHR ''p'')"

definition patched_release :: "string \<Rightarrow> release \<Rightarrow> release" where
  "patched_release p cur =
     (case from_nat (length p) of (a, b) \<Rightarrow>
        \<lparr>rel_meta = rel_meta cur,
         rel_spec = merge_spec (rel_spec (from_nat a :: release)) (rel_spec (from_nat b :: release)) (rel_spec cur),
         rel_status = merge_status (rel_status (from_nat a :: release)) (rel_status (from_nat b :: release)) (rel_status cur)\<rparr>)"

definition merge_env :: "history list \<Rightarrow> release storage_env" where
  "merge_env hs =
     \<lparr>se_name = ''web'', se_release_patch = (\<lambda>_ p cur. (Inr (patched_release p cur), patched_release p cur)),
      se_release_delete = (\<lambda>_. ret ()), se_history_create = ret,
      se_history_get = (\<lambda>nm. case find (\<lambda>h. om_name (h_meta h) = nm) hs of
          None \<Rightarrow> fail (new_not_found release_group ''releasehistories'' nm) | Some h \<Rightarrow> ret h),
      se_history_list = (\<lambda>_. ret hs), se_history_delete_collection = (\<lambda>_. ret ()), se_layers = None,
      se_marshal = (\<lambda>r. Inr (document r)), se_merge_patch = (\<lambda>a b. Inr (document_patch a b)), se_now = ret 9,
      se_render = (\<lambda>_. ret None), se_children = id, se_sort = insert_sort, se_valid_label = (\<lambda>_. True)\<rparr>"

lemma document_inject: "document a = document b \<longleftrightarrow> a = b"
  by (auto simp: document_def dest: arg_cong[of _ _ length])

lemma document_patch_empty: "document_patch (document a) (document b) = ''{}'' \<longleftrightarrow> a = b"
proof -
  have "replicate n CHR ''p'' \<noteq> ''{}''" for n by (cases n) auto
  then show ?thesis by (simp add: document_patch_def document_inject)
qed

lemma patched_document:
  "old \<noteq> new \<Longrightarrow> patched_release (document_patch (document old) (document new)) cur =
     \<lparr>rel_meta = rel_meta cur, rel_spec = merge_spec (rel_spec old) (rel_spec new) (rel_spec cur),
      rel_status = merge_status (rel_status old) (rel_status new) (rel_status cur)\<rparr>"
  by (simp add: patched_release_def document_patch_def document_inject) (simp add: document_def)

lemma merge_env_server:
  "merging_server (merge_env hs) id" "histories_apart (merge_env hs) id" "se_layers (merge_env hs) = None"
  "leaves id (se_render (merge_env hs) opts)"
  by (auto simp: merging_server_def histories_apart_def leaves_def merge_env_def ret_def fail_def document_patch_empty
      patched_document split: option.splits)

lemma merge_env_apart: "layers_apart (se_layers (merge_env hs)) srv"
  by (simp add: merge_env_server(3))

lemma merge_env_patch:
  assumes "f kept s = (Inr new, s1)"
  shows "\<exists>rel st'. storage_patch (merge_env hs) f (s, kept) = (Inr rel, st')"
  using assms by (simp add: web_run storage_patch_def merge_env_def)

lemma merge_env_flush: "\<exists>rel st'. storage_flush_reason (merge_env hs) reason msg (s, kept) = (Inr rel, st')"
proof -
  let ?f = "\<lambda>r. ret (r\<lparr>rel_status := (rel_status r)\<lparr>st_conditions := [make_condition reason msg 9]\<rparr>\<rparr>)"
  have "\<exists>rel st'. storage_patch (merge_env hs) ?f (s, kept) = (Inr rel, st')"
    by (rule merge_env_patch) (simp add: ret_def)
  moreover have "storage_flush_reason (merge_env hs) reason msg (s, kept) = storage_patch (merge_env hs) ?f (s, kept)"
    by (simp add: storage_flush_reason_def storage_flush_def new_condition_def bind_io_def quiet_def ret_def merge_env_def)
  ultimately show ?thesis by simp
qed

lemma merge_env_update:
  assumes "om_name (rel_meta kept) = ''web''"
  shows "\<exists>rel st'. storage_update (merge_env []) r (s, kept) = (Inr rel, st')"
proof -
  let ?f = "\<lambda>rel. bind_io (se_now (merge_env [])) (\<lambda>now. bind_io (new_condition (merge_env []) ReasonUpdating []) (\<lambda>c.
      ret (rel\<lparr>rel_status := (rel_status rel)\<lparr>st_last_update := now, st_manifest := st_manifest (rel_status r),
             st_version := st_version (rel_status r), st_conditions := [c]\<rparr>\<rparr>)))"
  obtain new s1 where "?f kept s = (Inr new, s1)" by (simp add: merge_env_def bind_io_def new_condition_def ret_def)
  then have "\<exists>rel st'. storage_patch (merge_env []) ?f (s, kept) = (Inr rel, st')"
    by (rule merge_env_patch[of ?f kept s new s1])
  moreover have "storage_history (merge_env []) v (s, kept) =
      (Inl (new_not_found release_group ''releasehistories'' (history_name ''web'' v)), (s, kept))" for v
    by (simp add: storage_history_def bind_io_def current_release_def quiet_def merge_env_def fail_def)
  moreover have "se_history_create (merge_env []) h s = (Inr h, s)" "se_layers (merge_env []) = None" for h s
    by (simp_all add: merge_env_def ret_def)
  ultimately show ?thesis
    by (simp add: storage_update_def try_io_def bind_io_def[of "bind_io _ _"] bind_io_def[of "quiet _"] Let_def quiet_def
        with_layer_def ret_def new_not_found_def)
qed

lemma calm_apart: "objects_apart calm_apply srv"
  by (simp add: objects_apart_def leaves_def ret_def)

lemma merge_env_histories: "storage_histories (merge_env []) (s, kept) = (Inr [], (s, kept))"
  by (simp add: storage_histories_def bind_io_def current_release_def quiet_def ret_def merge_env_def)

lemma calm_apply_runs:
  assumes "om_name (rel_meta kept) = ''web''" and "rs_rollback_to (rel_spec r) = None"
  shows "\<exists>s' kept'. apply_release (storage_ops (merge_env [])) calm_apply r (s, kept) = (Inr (), s', kept')"
proof -
  let ?env = "merge_env []"
  let ?r2 = "r\<lparr>rel_status := (rel_status r)\<lparr>st_version := next_version r [], st_manifest := merge_resources (tree_resources id None)\<rparr>\<rparr>"
  obtain rel s1 k1 where u: "storage_update ?env ?r2 (s, kept) = (Inr rel, s1, k1)"
    using merge_env_update[OF assms(1), of ?r2 s] by auto
  obtain rel' s2 k2 where f: "storage_flush_reason ?env ReasonAvailable [] (s1, k1) = (Inr rel', s2, k2)"
    using merge_env_flush[of "[]" ReasonAvailable "[]" s1 k1] by auto
  have "bind_io (storage_update ?env ?r2) (\<lambda>_. ret ()) (s, kept) = (Inr (), s1, k1)"
    "bind_io (storage_flush_reason ?env ReasonAvailable []) (\<lambda>_. ret ()) (s1, k1) = (Inr (), s2, k2)"
    by (simp_all add: bind_io_def u f ret_def)
  with assms(2) merge_env_histories[of s kept] have "apply_release (storage_ops ?env) calm_apply r (s, kept) = (Inr (), s2, k2)"
    by (simp add: apply_release_def or_record_def try_io_def storage_ops_def Let_def apply_manifests_def ret_def[of None] ret_def[of "()"])
  then show ?thesis by blast
qed


theorem rollback_request_stays_witness:
  "\<exists>rel s' kept'. storage_rollback (merge_env [web_history ''old'']) 1 (web_release ''new'' (Some 1) 2 [], web_release ''new'' None 2 []) =
       (Inr rel, s', kept') \<and> rs_rollback_to (rel_spec s') = Some 1"
proof -
  let ?cur = "web_release ''new'' (Some 1) 2 []" and ?kept = "web_release ''new'' None 2 []" and ?env = "merge_env [web_history ''old'']"
  have nm: "om_name (h_meta (web_history ''old'')) = history_name ''web'' 1"
    by (simp add: web_history_def construct_history_def)
  have own: "owns_history ?kept (web_history ''old'')"
    by (simp add: owns_history_def web_history_def construct_history_def gvk_release_def)
  have hist: "storage_history ?env 1 (?cur, ?kept) = (Inr (web_history ''old''), (?cur, ?kept))"
    using own nm by (simp add: storage_history_def bind_io_def current_release_def quiet_def ret_def merge_env_def)
  let ?f = "\<lambda>rel. bind_io (se_now ?env) (\<lambda>now. bind_io (new_condition ?env ReasonRollbacking []) (\<lambda>c.
      ret (rel\<lparr>rel_spec := (rel_spec rel)\<lparr>rs_description := hs_description (h_spec (web_history ''old'')),
             rs_template := hs_template (h_spec (web_history ''old'')),
             rs_config := hs_config (h_spec (web_history ''old'')), rs_rollback_to := None\<rparr>,
           rel_status := (rel_status rel)\<lparr>st_version := h_version (web_history ''old''), st_last_update := now,
             st_manifest := merge_resources (tree_resources (se_children ?env) None), st_conditions := [c]\<rparr>\<rparr>)))"
  obtain new s1 where new: "?f ?kept ?cur = (Inr new, s1)" by (simp add: merge_env_def bind_io_def new_condition_def ret_def)
  obtain rel s' kept' where "storage_patch ?env ?f (?cur, ?kept) = (Inr rel, s', kept')"
    using merge_env_patch[of ?f ?kept ?cur new s1, OF new, of "[web_history ''old'']"] by (elim exE) (case_tac st', simp)
  moreover have "se_render ?env opts st = (Inr None, st)" for opts st by (simp add: merge_env_def ret_def)
  then have "storage_rollback ?env 1 (?cur, ?kept) = storage_patch ?env ?f (?cur, ?kept)"
    unfolding storage_rollback_def try_io_def hist
    by (simp add: bind_io_def[of current_release] bind_io_def[of "quiet _"] current_release_def quiet_def Let_def)
  ultimately have run: "storage_rollback ?env 1 (?cur, ?kept) = (Inr rel, s', kept')" by simp
  from rollback_request_stays[OF merge_env_server(1,2) merge_env_apart _ _ _ hist run] merge_env_server(4)[of "[web_history ''old'']"] run
  show ?thesis by simp
qed

end
