(* ===== verification/Handler_World.thy ===== *)
theory Handler_World
  imports Storage_Server
begin

text \<open>
  A handler together with what it works on: the loop of \<open>pkg/release/handler.go\<close>, the apply of
  \<open>apply.go\<close> that its worker runs, the storage the apply records its result in, and the release on
  the server, whose versions come back to the loop as reports. An apply is one step here: what others
  write while it runs comes before or after it.
\<close>

section \<open>State and steps\<close>

record 's handler_world =
  hw_loop :: loop_state
  hw_state :: 's
  hw_kept :: release

datatype handler_event = Loop loop_event | Outside

text \<open>
  \<open>reports r s\<close>: the informer can hand over the release \<open>r\<close> in the state \<open>s\<close>; \<open>outside s s'\<close>: somebody
  else takes the state from \<open>s\<close> to \<open>s'\<close>. The end of an apply is what \<open>applyRelease\<close> returns on the
  release that was taken as the target; a panic ends the process.
\<close>

inductive handler_step ::
  "(release \<Rightarrow> 's \<Rightarrow> bool) \<Rightarrow> ('s \<Rightarrow> 's \<Rightarrow> bool) \<Rightarrow> 's storage_env \<Rightarrow> 's stored apply_env \<Rightarrow> handler_event
     \<Rightarrow> 's handler_world \<Rightarrow> 's handler_world \<Rightarrow> bool"
  for reports :: "release \<Rightarrow> 's \<Rightarrow> bool" and outside :: "'s \<Rightarrow> 's \<Rightarrow> bool" and env :: "'s storage_env"
    and ae :: "'s stored apply_env" where
  reported:
    "reports r (hw_state w) \<Longrightarrow> loop_step (Received r) (hw_loop w) l \<Longrightarrow>
       handler_step reports outside env ae (Loop (Received r)) w (w\<lparr>hw_loop := l\<rparr>)"
| moved:
    "e = Fired \<or> e = Stopped \<or> is_started e \<Longrightarrow> loop_step e (hw_loop w) l \<Longrightarrow>
       handler_step reports outside env ae (Loop e) w (w\<lparr>hw_loop := l\<rparr>)"
| applied:
    "lp_applying (hw_loop w) = Some t \<Longrightarrow>
       apply_release (storage_ops env) ae t (hw_state w, hw_kept w) = (Inr (), s, kept) \<Longrightarrow>
       loop_step Succeeded (hw_loop w) l \<Longrightarrow>
       handler_step reports outside env ae (Loop Succeeded) w \<lparr>hw_loop = l, hw_state = s, hw_kept = kept\<rparr>"
| gave_up:
    "lp_applying (hw_loop w) = Some t \<Longrightarrow>
       apply_release (storage_ops env) ae t (hw_state w, hw_kept w) = (Inl x, s, kept) \<Longrightarrow> \<not> is_panic x \<Longrightarrow>
       loop_step Failed (hw_loop w) l \<Longrightarrow>
       handler_step reports outside env ae (Loop Failed) w \<lparr>hw_loop = l, hw_state = s, hw_kept = kept\<rparr>"
| disturbed:
    "outside (hw_state w) s \<Longrightarrow> handler_step reports outside env ae Outside w (w\<lparr>hw_state := s\<rparr>)"

inductive handler_steps ::
  "(release \<Rightarrow> 's \<Rightarrow> bool) \<Rightarrow> ('s \<Rightarrow> 's \<Rightarrow> bool) \<Rightarrow> 's storage_env \<Rightarrow> 's stored apply_env \<Rightarrow> handler_event list
     \<Rightarrow> 's handler_world \<Rightarrow> 's handler_world \<Rightarrow> bool"
  for reports :: "release \<Rightarrow> 's \<Rightarrow> bool" and outside :: "'s \<Rightarrow> 's \<Rightarrow> bool" and env :: "'s storage_env"
    and ae :: "'s stored apply_env" where
  nothing: "handler_steps reports outside env ae [] w w"
| more:
    "handler_step reports outside env ae e w w' \<Longrightarrow> handler_steps reports outside env ae es w' w'' \<Longrightarrow>
       handler_steps reports outside env ae (e # es) w w''"

inductive_cases succeededE: "handler_step reports outside env ae (Loop Succeeded) w w'"

lemma handler_steps_append:
  "handler_steps reports outside env ae es w w' \<Longrightarrow> handler_steps reports outside env ae es' w' w'' \<Longrightarrow>
     handler_steps reports outside env ae (es @ es') w w''"
  by (induction rule: handler_steps.induct) (auto intro: handler_steps.more)

definition starts :: "handler_event \<Rightarrow> bool" where
  "starts e = (case e of Loop l \<Rightarrow> is_started l | Outside \<Rightarrow> False)"

lemma starts_simps [simp]:
  "starts (Loop (Started t))" "\<not> starts (Loop (Received r))" "\<not> starts (Loop Failed)" "\<not> starts (Loop Succeeded)"
  by (simp_all add: starts_def is_started_def)

section \<open>A successful apply settles the handler\<close>

text \<open>Two releases ask for the same, up to what the handler does not look at.\<close>

definition asks_same :: "release \<Rightarrow> release \<Rightarrow> bool" where
  "asks_same t r \<longleftrightarrow>
     rs_rollback_to (rel_spec r) = None \<and> rs_config (rel_spec t) = rs_config (rel_spec r) \<and>
     rs_suspend (rel_spec t) = rs_suspend (rel_spec r) \<and> rs_template (rel_spec t) = rs_template (rel_spec r)"

lemma must_apply_iff: "must_apply (Some t) r \<longleftrightarrow> \<not> (asks_same t r \<and> normal_condition r)"
  by (auto simp: must_apply_def asks_same_def)

text \<open>
  A version of the release in which the user changed nothing the handler looks at and whose conditions
  are those of the release on the server: its metadata, details and pod counts may be others.
\<close>

definition later_version :: "('s \<Rightarrow> release) \<Rightarrow> release \<Rightarrow> 's \<Rightarrow> bool" where
  "later_version srv r s \<longleftrightarrow>
     rel_spec r = rel_spec (srv s) \<and> st_conditions (rel_status r) = st_conditions (rel_status (srv s))"

definition leaves_request :: "('s \<Rightarrow> release) \<Rightarrow> 's \<Rightarrow> 's \<Rightarrow> bool" where
  "leaves_request srv s s' \<longleftrightarrow> later_version srv (srv s') s"

definition nothing_pending :: "'k work_queue \<Rightarrow> bool" where
  "nothing_pending q \<longleftrightarrow> wq_queue q = [] \<and> wq_dirty q = [] \<and> wq_waiting q = []"

definition settled :: "('s \<Rightarrow> release) \<Rightarrow> release \<Rightarrow> 's handler_world \<Rightarrow> bool" where
  "settled srv t w \<longleftrightarrow>
     lp_target (hw_loop w) = Some t \<and> lp_applying (hw_loop w) = None \<and> nothing_pending (lp_queue (hw_loop w)) \<and>
     asks_same t (srv (hw_state w)) \<and> normal_condition (srv (hw_state w))"

lemma later_version_declined:
  assumes "later_version srv r s" and "asks_same t (srv s)" and "normal_condition (srv s)"
  shows "\<not> must_apply (Some t) r"
  using assms by (simp add: must_apply_iff later_version_def asks_same_def normal_condition_def)

lemma settled_step:
  assumes settled: "settled srv t w" and step: "handler_step (later_version srv) (leaves_request srv) env ae e w w'"
  shows "settled srv t w' \<and> \<not> starts e"
  using step
proof cases
  case (reported r l)
  have "\<not> must_apply (lp_target (hw_loop w)) r"
    using later_version_declined[OF reported(3)] settled by (simp add: settled_def)
  with reported(4) have "l = hw_loop w" by (auto simp: received_simps loop_receive_def)
  with settled reported show ?thesis by (simp add: starts_def is_started_def)
next
  case (moved ev l)
  have idle: "wq_get (lp_queue (hw_loop w)) = None" "wq_waiting (lp_queue (hw_loop w)) = []"
    using settled by (simp_all add: settled_def nothing_pending_def wq_get_def)
  from moved(4) show ?thesis
    by cases (use settled moved idle in \<open>auto simp: settled_def nothing_pending_def wq_shut_down_def starts_def is_started_def\<close>)
next
  case (applied t' s kept l)
  with settled show ?thesis by (simp add: settled_def)
next
  case (gave_up t' x s kept l)
  with settled show ?thesis by (simp add: settled_def)
next
  case (disturbed s)
  with settled show ?thesis
    by (simp add: settled_def leaves_request_def later_version_def asks_same_def normal_condition_def starts_def)
qed

lemma settled_steps:
  "handler_steps (later_version srv) (leaves_request srv) env ae es w w' \<Longrightarrow> settled srv t w \<Longrightarrow>
     settled srv t w' \<and> (\<forall>e \<in> set es. \<not> starts e)"
  by (induction rule: handler_steps.induct) (auto dest: settled_step)

section \<open>A failing apply never lets it rest\<close>

text \<open>
  Listing histories and recording a condition succeed, and the chart of the release does not render
  with its configuration.
\<close>

definition storage_answers :: "'s storage_env \<Rightarrow> bool" where
  "storage_answers env \<longleftrightarrow>
     (\<forall>st. \<exists>hs st'. storage_histories env st = (Inr hs, st')) \<and>
     (\<forall>reason msg st. \<exists>rel st'. storage_flush_reason env reason msg st = (Inr rel, st'))"

definition never_renders :: "'s stored apply_env \<Rightarrow> release_spec \<Rightarrow> bool" where
  "never_renders ae spec \<longleftrightarrow>
     (\<forall>opts st. ro_template opts = rs_template spec \<longrightarrow> ro_config opts = rs_config spec \<longrightarrow>
        (\<exists>e st'. ae_render ae opts st = (Inl e, st') \<and> \<not> is_panic e))"

lemma failing_apply:
  assumes server: "merging_server env srv" "histories_apart env srv" "objects_apart ae srv" "layers_apart (se_layers env) srv"
    and answers: "storage_answers env" and broken: "never_renders ae (rel_spec t)"
    and t: "rs_rollback_to (rel_spec t) = None" and same: "agree kept (srv s)"
  shows "\<exists>e s' kept'. apply_release (storage_ops env) ae t (s, kept) = (Inl e, s', kept') \<and> \<not> is_panic e \<and>
     agree kept' (srv s') \<and> rel_spec (srv s') = rel_spec (srv s) \<and> rel_name (srv s') = rel_name (srv s) \<and>
     (\<exists>now. st_conditions (rel_status (srv s')) = [make_condition ReasonFailure (error_text e) now])"
proof -
  obtain hs s1 k1 where hs: "storage_histories env (s, kept) = (Inr hs, s1, k1)"
    using answers unfolding storage_answers_def by (metis surj_pair)
  note s1 = histories_apart_list[OF server(2,4) hs]
  let ?t1 = "t\<lparr>rel_status := (rel_status t)\<lparr>st_version := next_version t hs\<rparr>\<rparr>"
  have "ro_template (render_options_of ?t1) = rs_template (rel_spec t)" "ro_config (render_options_of ?t1) = rs_config (rel_spec t)"
    by (simp_all add: render_options_of_def)
  from broken[unfolded never_renders_def, rule_format, OF this, of "(s1, k1)"]
  obtain e s2 k2 where e: "ae_render ae (render_options_of ?t1) (s1, k1) = (Inl e, s2, k2)" "\<not> is_panic e"
    by auto
  note s2 = objects_apartD(2)[OF server(3) e(1)]
  obtain rel s3 k3 where flush: "storage_flush_reason env ReasonFailure (error_text e) (s2, k2) = (Inr rel, s3, k3)"
    using answers unfolding storage_answers_def by (metis surj_pair)
  have "agree k2 (srv s2)" using same s1 s2 by simp
  note rec = flush_recorded[OF server(1,2,4) this flush]
  have "apply_release (storage_ops env) ae t (s, kept) = (Inl e, s3, k3)"
    using t hs e flush
    by (simp add: apply_release_def or_record_def try_io_def storage_ops_def Let_def record_error_def bind_io_def fail_def)
  with e(2) rec s1 s2 show ?thesis by auto
qed

text \<open>The handler between two applies: it waits for a report, and the server's release must be applied.\<close>

definition worth_applying :: "('s \<Rightarrow> release) \<Rightarrow> release_spec \<Rightarrow> string \<Rightarrow> 's handler_world \<Rightarrow> bool" where
  "worth_applying srv spec nm w \<longleftrightarrow>
     lp_applying (hw_loop w) = None \<and> \<not> lp_stopped (hw_loop w) \<and>
     wq_queue (lp_queue (hw_loop w)) = [] \<and> wq_dirty (lp_queue (hw_loop w)) = [] \<and>
     wq_processing (lp_queue (hw_loop w)) = [] \<and> \<not> wq_shutting_down (lp_queue (hw_loop w)) \<and>
     must_apply (lp_target (hw_loop w)) (srv (hw_state w)) \<and>
     rel_spec (srv (hw_state w)) = spec \<and> rel_name (srv (hw_state w)) = nm \<and> agree (hw_kept w) (srv (hw_state w))"

text \<open>Only the release as it is on the server is reported, and nobody else writes.\<close>

definition exact :: "('s \<Rightarrow> release) \<Rightarrow> release \<Rightarrow> 's \<Rightarrow> bool" where
  "exact srv r s \<longleftrightarrow> r = srv s"

definition undisturbed :: "'s \<Rightarrow> 's \<Rightarrow> bool" where
  "undisturbed s s' \<longleftrightarrow> False"

lemma failing_round:
  assumes server: "merging_server env srv" "histories_apart env srv" "objects_apart ae srv" "layers_apart (se_layers env) srv"
    and answers: "storage_answers env" and broken: "never_renders ae spec" and spec: "rs_rollback_to spec = None"
    and w: "worth_applying srv spec nm w"
  shows "\<exists>w'. handler_steps (exact srv) undisturbed env ae
       [Loop (Received (srv (hw_state w))), Loop (Started (srv (hw_state w))), Loop Failed] w w' \<and>
     worth_applying srv spec nm w' \<and> wq_waiting (lp_queue (hw_loop w')) = wq_waiting (lp_queue (hw_loop w)) @ [nm] \<and>
     (\<exists>e now. st_conditions (rel_status (srv (hw_state w'))) = [make_condition ReasonFailure (error_text e) now])"
proof -
  obtain l s kept where w_eq: "w = \<lparr>hw_loop = l, hw_state = s, hw_kept = kept\<rparr>" by (cases w)
  let ?t = "srv s"
  let ?q = "(wq_forget nm (lp_queue l))\<lparr>wq_dirty := [nm], wq_queue := [nm]\<rparr>"
  let ?l1 = "l\<lparr>lp_target := Some ?t, lp_queue := ?q\<rparr>"
  let ?l2 = "?l1\<lparr>lp_queue := ?q\<lparr>wq_queue := [], wq_processing := [nm], wq_dirty := []\<rparr>, lp_applying := Some ?t\<rparr>"
  let ?l3 = "?l2\<lparr>lp_queue := after_failure nm (lp_queue ?l2), lp_applying := None\<rparr>"
  have nm: "rel_name ?t = nm" using w by (simp add: w_eq worth_applying_def)
  have l1: "loop_step (Received ?t) l ?l1"
  proof -
    have "loop_receive ?t l = ?l1"
      using w nm by (simp add: w_eq worth_applying_def loop_receive_def wq_add_def wq_forget_def set_insert_def Let_def)
    with loop_step.receive[of l ?t] w show ?thesis by (simp add: w_eq worth_applying_def)
  qed
  have l2: "loop_step (Started ?t) ?l1 ?l2"
    using loop_step.start[of ?l1 nm "?q\<lparr>wq_queue := [], wq_processing := [nm], wq_dirty := []\<rparr>" ?t] w
    by (simp add: w_eq worth_applying_def wq_get_def set_insert_def wq_forget_def)
  have l3: "loop_step Failed ?l2 ?l3"
    using loop_step.failed[of ?l2 ?t ?t] nm by simp
  obtain e s' kept' where run: "apply_release (storage_ops env) ae ?t (s, kept) = (Inl e, s', kept')" "\<not> is_panic e"
    and after: "agree kept' (srv s')" "rel_spec (srv s') = rel_spec (srv s)" "rel_name (srv s') = rel_name (srv s)"
    "\<exists>now. st_conditions (rel_status (srv s')) = [make_condition ReasonFailure (error_text e) now]"
    using failing_apply[OF server answers, of ?t kept s] broken spec w by (auto simp: w_eq worth_applying_def)
  let ?w' = "\<lparr>hw_loop = ?l3, hw_state = s', hw_kept = kept'\<rparr>"
  have steps: "handler_steps (exact srv) undisturbed env ae [Loop (Received ?t), Loop (Started ?t), Loop Failed] w ?w'"
  proof (intro handler_steps.more)
    show "handler_step (exact srv) undisturbed env ae (Loop (Received ?t)) w (w\<lparr>hw_loop := ?l1\<rparr>)"
      by (rule handler_step.reported) (use l1 in \<open>simp_all add: w_eq exact_def\<close>)
    show "handler_step (exact srv) undisturbed env ae (Loop (Started ?t)) (w\<lparr>hw_loop := ?l1\<rparr>) (w\<lparr>hw_loop := ?l2\<rparr>)"
      using handler_step.moved[of "Started ?t" "w\<lparr>hw_loop := ?l1\<rparr>" ?l2 "exact srv" undisturbed env ae] l2
      by (simp add: w_eq is_started_def)
    show "handler_step (exact srv) undisturbed env ae (Loop Failed) (w\<lparr>hw_loop := ?l2\<rparr>) ?w'"
      by (rule handler_step.gave_up[OF _ _ run(2)]) (use run(1) l3 in \<open>simp_all add: w_eq\<close>)
  qed (rule handler_steps.nothing)
  have fresh: "wq_num_requeues nm (lp_queue ?l2) = 0" by (simp add: wq_num_requeues_def wq_forget_def delete_conv')
  have not_normal: "must_apply (Some ?t) (srv s')"
    using after(4) by (auto simp: must_apply_def normal_condition_def make_condition_def)
  have "worth_applying srv spec nm ?w' \<and> wq_waiting (lp_queue ?l3) = wq_waiting (lp_queue l) @ [nm]"
    using w fresh not_normal after nm
    by (simp add: w_eq worth_applying_def after_failure_def wq_add_rate_limited_def wq_done_def wq_forget_def Let_def)
  with steps after(4) show ?thesis by (intro exI[of _ ?w']) (auto simp: w_eq)
qed

lemma failing_rounds:
  assumes "merging_server env srv" "histories_apart env srv" "objects_apart ae srv" "layers_apart (se_layers env) srv"
    and "storage_answers env" and "never_renders ae spec" and "rs_rollback_to spec = None"
  shows "worth_applying srv spec nm w \<Longrightarrow>
     \<exists>es w'. handler_steps (exact srv) undisturbed env ae es w w' \<and> worth_applying srv spec nm w' \<and>
       length (filter starts es) = n \<and> Loop Fired \<notin> set es \<and> Outside \<notin> set es \<and>
       wq_waiting (lp_queue (hw_loop w')) = wq_waiting (lp_queue (hw_loop w)) @ replicate n nm"
proof (induction n arbitrary: w)
  case 0
  show ?case by (intro exI[of _ "[]"] exI[of _ w]) (use 0 handler_steps.nothing[of "exact srv" undisturbed env ae w] in simp)
next
  case (Suc n)
  obtain w1 where w1: "handler_steps (exact srv) undisturbed env ae
       [Loop (Received (srv (hw_state w))), Loop (Started (srv (hw_state w))), Loop Failed] w w1"
    "worth_applying srv spec nm w1" "wq_waiting (lp_queue (hw_loop w1)) = wq_waiting (lp_queue (hw_loop w)) @ [nm]"
    using failing_round[OF assms Suc.prems] by blast
  obtain es w' where w': "handler_steps (exact srv) undisturbed env ae es w1 w'" "worth_applying srv spec nm w'"
    "length (filter starts es) = n" "Loop Fired \<notin> set es" "Outside \<notin> set es"
    "wq_waiting (lp_queue (hw_loop w')) = wq_waiting (lp_queue (hw_loop w1)) @ replicate n nm"
    using Suc.IH[OF w1(2)] by blast
  from handler_steps_append[OF w1(1) w'(1)] w' w1(3) show ?case
    by (intro exI[of _ "[Loop (Received (srv (hw_state w))), Loop (Started (srv (hw_state w))), Loop Failed] @ es"] exI[of _ w']) simp
qed

section \<open>What holds of the two together\<close>



section \<open>Runs of the two\<close>

definition web_busy :: "release \<Rightarrow> loop_state" where
  "web_busy t =
     \<lparr>lp_target = Some t, lp_queue = new_work_queue\<lparr>wq_processing := [rel_name t]\<rparr>, lp_applying = Some t, lp_stopped = False\<rparr>"


definition broken_apply :: "'s apply_env" where
  "broken_apply = calm_apply\<lparr>ae_render := (\<lambda>_. fail (External ''unexpected EOF''))\<rparr>"


end
