(* ===== verification/Release_Wiring.thy ===== *)
theory Release_Wiring
  imports Storage_Server Client_Traces Release_Controller API_Resources Render_Properties Kube_Properties
begin

text \<open>
  How \<open>NewReleaseController\<close> and the constructors it calls put the parts together: the client over
  the pool, the codec and the integration store, the backend over the typed clients and the same
  store, the handler over the client, the manager over backend and handler, and the events of the
  informer. The world such a program runs in is the server, the store and the pool side by side.
\<close>

section \<open>The world of the release controller\<close>

record 'w controller_world =
  cw_server :: 'w
  cw_store :: store_state
  cw_pool :: client_pool

definition at_server :: "('w, 'a) io \<Rightarrow> ('w controller_world, 'a) io" where
  "at_server m w = (case m (cw_server w) of (r, s) \<Rightarrow> (r, w\<lparr>cw_server := s\<rparr>))"

definition at_store :: "(store_state, 'a) io \<Rightarrow> ('w controller_world, 'a) io" where
  "at_store m w = (case m (cw_store w) of (r, s) \<Rightarrow> (r, w\<lparr>cw_store := s\<rparr>))"

definition at_pool :: "(client_pool, 'a) io \<Rightarrow> ('w controller_world, 'a) io" where
  "at_pool m w = (case m (cw_pool w) of (r, p) \<Rightarrow> (r, w\<lparr>cw_pool := p\<rparr>))"

definition layer_at_store :: "store_state layer_ops \<Rightarrow> 'w controller_world layer_ops" where
  "layer_at_store ly =
     \<lparr>lo_created = (\<lambda>ob. at_store (lo_created ly ob)), lo_updated = (\<lambda>ob. at_store (lo_updated ly ob)),
      lo_deleted = (\<lambda>ob. at_store (lo_deleted ly ob)), lo_ns_get = (\<lambda>ns nm. at_store (lo_ns_get ly ns nm)),
      lo_ns_list = (\<lambda>ns sel. at_store (lo_ns_list ly ns sel))\<rparr>"

definition layers_at_store :: "store_state cache_layers \<Rightarrow> 'w controller_world cache_layers" where
  "layers_at_store ls = \<lparr>cls_layer_for = (\<lambda>g. bind_io (at_store (cls_layer_for ls g)) (\<lambda>ly. ret (layer_at_store ly)))\<rparr>"

text \<open>The typed clients of releases and histories, as they are before a backend is built over them.\<close>

definition storage_at_server :: "'w storage_env \<Rightarrow> 'w controller_world storage_env" where
  "storage_at_server env =
     \<lparr>se_name = se_name env, se_release_patch = (\<lambda>nm p. at_server (se_release_patch env nm p)),
      se_release_delete = (\<lambda>nm. at_server (se_release_delete env nm)),
      se_history_create = (\<lambda>h. at_server (se_history_create env h)),
      se_history_get = (\<lambda>nm. at_server (se_history_get env nm)),
      se_history_list = (\<lambda>sel. at_server (se_history_list env sel)),
      se_history_delete_collection = (\<lambda>sel. at_server (se_history_delete_collection env sel)), se_layers = None,
      se_marshal = se_marshal env, se_merge_patch = se_merge_patch env, se_now = at_server (se_now env),
      se_render = (\<lambda>opts. at_server (se_render env opts)), se_children = se_children env, se_sort = se_sort env,
      se_valid_label = se_valid_label env\<rparr>"

section \<open>Constructors\<close>

text \<open>\<open>NewClientPool\<close> (\<open>kube/rest.go\<close>): nothing is built yet.\<close>

definition new_client_pool :: "resource_map \<Rightarrow> client_pool" where
  "new_client_pool resources = \<lparr>cp_resources = resources, cp_clients = []\<rparr>"

text \<open>
  \<open>NewClientWithCacheLayer\<close> and \<open>NewClient\<close> (\<open>kube/client.go\<close>): \<open>lib\<close> has the library functions the
  client calls, whatever its other fields are.
\<close>

definition new_client_with_cache_layer ::
  "(gvk \<Rightarrow> string \<Rightarrow> ('s, resource_client) io) \<Rightarrow> codec \<Rightarrow> 's cache_layers option \<Rightarrow> 's kube_env \<Rightarrow> error + 's kube_env" where
  "new_client_with_cache_layer pool c layers lib =
     Inr (lib\<lparr>ke_client_for := pool, ke_codec := c, ke_layers := layers\<rparr>)"

definition new_client ::
  "(gvk \<Rightarrow> string \<Rightarrow> ('s, resource_client) io) \<Rightarrow> codec \<Rightarrow> 's kube_env \<Rightarrow> error + 's kube_env" where
  "new_client pool c lib = new_client_with_cache_layer pool c None lib"

text \<open>\<open>NewReleaseBackendWithCacheLayer\<close> and \<open>NewReleaseBackend\<close> (\<open>storage/release.go\<close>).\<close>

definition new_release_backend_with_cache_layer :: "'s storage_env \<Rightarrow> 's cache_layers \<Rightarrow> 's storage_env" where
  "new_release_backend_with_cache_layer client layers = client\<lparr>se_layers := Some layers\<rparr>"

definition new_release_backend :: "'s storage_env \<Rightarrow> 's storage_env" where
  "new_release_backend client = client\<lparr>se_layers := None\<rparr>"

text \<open>
  \<open>NewReleaseHandler\<close> (\<open>release/handler.go\<close>): the client with the kinds to ignore; \<open>apply.go\<close>
  renders with a renderer of its own for every apply.
\<close>

definition new_release_handler_env ::
  "('c, 'v) render_env \<Rightarrow> child_order \<Rightarrow> 's kube_env \<Rightarrow> gvk list \<Rightarrow> 's stored apply_env" where
  "new_release_handler_env renv children client ignored =
     \<lparr>ae_client_apply = (\<lambda>ns ms opts. quiet (client_apply client ns ms opts)),
      ae_render = (\<lambda>opts. lift_result (render renv opts)), ae_children = children, ae_ignored = ignored\<rparr>"

record 's release_program =
  rp_controller :: release_controller
  rp_backend :: "'s storage_env"
  rp_handler :: "'s stored apply_env"

text \<open>
  \<open>NewReleaseController\<close>: client and backend are built over one store; the manager is given backend
  and handler. The renderer stands beside them because \<open>applyRelease\<close> makes its own.
\<close>

definition new_release_program ::
  "('c, 'v) render_env \<Rightarrow> child_order \<Rightarrow> 's kube_env \<Rightarrow> (gvk \<Rightarrow> string \<Rightarrow> ('s, resource_client) io) \<Rightarrow> codec
     \<Rightarrow> 's cache_layers \<Rightarrow> 's storage_env \<Rightarrow> gvk list \<Rightarrow> error + 's release_program" where
  "new_release_program renv children lib pool c store release_client ignored =
     bind_result (new_client_with_cache_layer pool c (Some store) lib) (\<lambda>client.
       Inr \<lparr>rp_controller = new_release_controller,
            rp_backend = new_release_backend_with_cache_layer release_client store,
            rp_handler = new_release_handler_env renv children client ignored\<rparr>)"

text \<open>The event handlers \<open>NewReleaseController\<close> hangs on the informer of releases.\<close>

datatype informer_event = Added obj | Modified obj obj | Removed informer_object

fun on_release_event :: "informer_event \<Rightarrow> release_controller \<Rightarrow> release_controller" where
  "on_release_event (Added ob) rc = enqueue_release (Plain ob) rc"
| "on_release_event (Modified old ob) rc = enqueue_release (Plain ob) rc"
| "on_release_event (Removed io) rc = enqueue_release io rc"

text \<open>
  \<open>Run\<close>: nothing is started when the cache does not sync; otherwise a worker, which starts the
  manager and works until it is told to stop. The flag tells whether the worker runs.
\<close>

definition run_controller :: "bool \<Rightarrow> release_controller \<Rightarrow> bool \<times> release_controller" where
  "run_controller synced rc = (if \<not> synced then (False, rc) else (True, worker_start rc))"

section \<open>What a client leaves alone\<close>

named_theorems leaves_intros \<open>parts of a state that an operation leaves alone\<close>

lemmas [leaves_intros] = leaves_ret leaves_bind

lemma leaves_try [leaves_intros]:
  assumes "leaves srv m" and "\<And>r. leaves srv (f r)"
  shows "leaves srv (try_io m f)"
proof -
  have "srv (snd (try_io m f s)) = srv s" for s
  proof (cases "m s")
    case (Pair r s')
    then have "srv s' = srv s" by (rule leavesD[OF assms(1)])
    with Pair assms(2) show ?thesis by (cases r) (auto simp: try_io_def leaves_def)
  qed
  then show ?thesis by (simp add: leaves_def)
qed

lemma leaves_for [leaves_intros]: "(\<And>x. leaves srv (f x)) \<Longrightarrow> leaves srv (for_io f xs)"
  by (induction xs) (auto intro!: leaves_intros)

text \<open>The pool, the requests and the layers of a client leave a part of the state alone.\<close>

definition client_apart :: "'s kube_env \<Rightarrow> ('s \<Rightarrow> 'x) \<Rightarrow> bool" where
  "client_apart k srv \<longleftrightarrow>
     (\<forall>g ns. leaves srv (ke_client_for k g ns)) \<and> (\<forall>rq. leaves srv (ke_rest k rq)) \<and> layers_apart (ke_layers k) srv"

lemma client_apartD:
  assumes "client_apart k srv"
  shows "leaves srv (ke_client_for k g ns)" and "leaves srv (ke_rest k rq)" and "layers_apart (ke_layers k) srv"
  using assms unfolding client_apart_def by blast+

lemma leaves_rc:
  assumes "client_apart k srv"
  shows "leaves srv (rc_list (ke_rest k) c sel)" "leaves srv (rc_get (ke_rest k) c nm)"
    "leaves srv (rc_delete (ke_rest k) c nm opts)" "leaves srv (rc_create (ke_rest k) c ob)"
    "leaves srv (rc_update (ke_rest k) c ob)" "leaves srv (rc_patch (ke_rest k) c nm pt d)"
  using client_apartD(2)[OF assms] by (auto simp: rc_defs split: option.splits intro!: leaves_intros)

lemma leaves_object_ops:
  assumes "client_apart k srv"
  shows "leaves srv (get_object k g ns nm)" "leaves srv (note_created k g ob)" "leaves srv (note_updated k g ob)"
    "leaves srv (note_deleted k g ob)"
  using layers_apartD[OF client_apartD(3)[OF assms]]
  by (auto simp: get_object_def note_created_def note_updated_def note_deleted_def
      split: option.splits intro!: leaves_intros leaves_rc[OF assms] client_apartD(1)[OF assms])

lemma leaves_delete_pods:
  assumes "client_apart k srv"
  shows "leaves srv (delete_pods (ke_rest k) c ips pods dl err)"
  by (induction pods arbitrary: dl err) (auto split: sum.splits intro!: leaves_intros leaves_rc[OF assms])

lemma leaves_apply_parts:
  assumes "client_apart k srv"
  shows "leaves srv (apply_job k c g ob existence)" "leaves srv (apply_ip_decreasing k c ns ob existence)"
proof -
  note parts = leaves_intros leaves_rc[OF assms] leaves_object_ops[OF assms] client_apartD(1)[OF assms] leaves_delete_pods[OF assms]
  show "leaves srv (apply_job k c g ob existence)"
    unfolding apply_job_def by (auto split: sum.splits prod.splits intro!: parts)
  have "leaves srv (delete_release_pods_not_in_list k c' rn ips)" for c' rn ips
    unfolding delete_release_pods_not_in_list_def by (auto split: sum.splits body.splits intro!: parts)
  then show "leaves srv (apply_ip_decreasing k c ns ob existence)"
    unfolding apply_ip_decreasing_def by (auto simp: Let_def split: sum.splits option.splits intro!: parts)
qed

lemma leaves_client_apply:
  assumes "client_apart k srv"
  shows "leaves srv (client_apply k ns rs opts)"
proof -
  note parts = leaves_intros leaves_rc[OF assms] leaves_object_ops[OF assms] client_apartD(1)[OF assms] leaves_apply_parts[OF assms]
  have existing: "leaves srv (apply_existing k ns c g ob existence)" for c g ob existence
    unfolding apply_existing_def by (auto split: sum.splits option.splits intro!: parts)
  have "leaves srv (apply_object k ns opts ob)" for ob
    unfolding apply_object_def Let_def accessor_for_object_cases
    by (auto split: sum.splits option.splits intro!: parts existing)
  then show ?thesis unfolding client_apply_def by (auto split: sum.splits intro!: parts)
qed

section \<open>The program stays out of the release\<close>

text \<open>
  The release controller as \<open>startReleaseController\<close> builds it: pool, store and server are those of
  its world. \<open>lib\<close> has the library functions and the requests of the REST clients.
\<close>

definition controller_program ::
  "('c, 'v) render_env \<Rightarrow> child_order \<Rightarrow> 'w controller_world kube_env \<Rightarrow> (gvk \<Rightarrow> error option) \<Rightarrow> codec
     \<Rightarrow> informer_factory \<Rightarrow> 'w storage_env \<Rightarrow> gvk list \<Rightarrow> error + 'w controller_world release_program" where
  "controller_program renv children lib rest_client_for c fac clients ignored =
     new_release_program renv children lib (\<lambda>g ns. at_pool (client_for rest_client_for g ns)) c
       (layers_at_store (store_layers fac)) (storage_at_server clients) ignored"

text \<open>The release on the server, as it is seen from the world of the controller.\<close>

definition of_server :: "('w \<Rightarrow> 'x) \<Rightarrow> 'w controller_world \<Rightarrow> 'x" where
  "of_server srv w = srv (cw_server w)"

lemma leaves_at [leaves_intros]:
  "leaves srv m \<Longrightarrow> leaves (of_server srv) (at_server m)" "leaves (of_server srv) (at_store m')" "leaves (of_server srv) (at_pool m'')"
  by (auto simp: leaves_def of_server_def at_server_def at_store_def at_pool_def split: prod.splits dest: leavesD[unfolded leaves_def])

lemma store_layers_apart: "layers_apart (Some (layers_at_store ls)) (of_server srv)"
proof -
  have "layer_apart (layer_at_store ly) (of_server srv)" for ly
    by (simp add: layer_apart_def layer_at_store_def leaves_at)
  then show ?thesis
    by (auto simp: layers_apart_def layers_at_store_def bind_io_def ret_def leaves_def of_server_def at_store_def
        split: prod.splits sum.splits)
qed

lemma at_server_Inr:
  "at_server m w = (Inr x, w') \<Longrightarrow> \<exists>s. m (cw_server w) = (Inr x, s) \<and> cw_server w' = s"
  by (auto simp: at_server_def split: prod.splits)

lemma merging_at_server:
  assumes "merging_server clients srv"
  shows "merging_server ((storage_at_server clients)\<lparr>se_layers := layers\<rparr>) (of_server srv)"
proof -
  have "(p = ''{}'' \<longleftrightarrow> old = new) \<and>
      (\<forall>w rel w'. writes_only old new \<longrightarrow> old \<noteq> new \<longrightarrow>
         at_server (se_release_patch clients (se_name clients) p) w = (Inr rel, w') \<longrightarrow>
         rel_spec rel = merge_spec (rel_spec old) (rel_spec new) (rel_spec (srv (cw_server w))) \<and>
         rel_status rel = merge_status (rel_status old) (rel_status new) (rel_status (srv (cw_server w))) \<and>
         rel_name rel = rel_name (srv (cw_server w)) \<and> srv (cw_server w') = rel)"
    if docs: "se_marshal clients old = Inr a" "se_marshal clients new = Inr b" "se_merge_patch clients a b = Inr p" for old new a b p
  proof (intro conjI allI impI)
    note server = assms[unfolded merging_server_def, rule_format, OF docs]
    from server show "p = ''{}'' \<longleftrightarrow> old = new" by (rule conjunct1)
    fix w rel w'
    assume differ: "writes_only old new" "old \<noteq> new"
      and "at_server (se_release_patch clients (se_name clients) p) w = (Inr rel, w')"
    then obtain s where s: "se_release_patch clients (se_name clients) p (cw_server w) = (Inr rel, s)" "cw_server w' = s"
      using at_server_Inr[of _ w rel w'] by blast
    note answer = conjunct2[OF server, rule_format, OF differ s(1)]
    then show "rel_spec rel = merge_spec (rel_spec old) (rel_spec new) (rel_spec (srv (cw_server w)))"
      "rel_status rel = merge_status (rel_status old) (rel_status new) (rel_status (srv (cw_server w)))"
      "rel_name rel = rel_name (srv (cw_server w))" "srv (cw_server w') = rel" by (simp_all add: s(2))
  qed
  then show ?thesis by (simp add: merging_server_def storage_at_server_def of_server_def)
qed


section \<open>Only what the chart says\<close>

text \<open>The log of a traced client, and a storage that does not write it.\<close>

definition log_of :: "'s traced_state stored \<Rightarrow> event list" where
  "log_of st = snd (fst st)"

definition log_apart :: "'s traced_state stored release_ops \<Rightarrow> bool" where
  "log_apart ops \<longleftrightarrow>
     (\<forall>v. leaves log_of (so_rollback ops v)) \<and> leaves log_of (so_histories ops) \<and>
     (\<forall>r. leaves log_of (so_update ops r)) \<and> (\<forall>reason msg. leaves log_of (so_flush ops reason msg))"

lemma wp_leaves: "leaves f m \<Longrightarrow> (\<And>r st'. f st' = f st \<Longrightarrow> Q r st') \<Longrightarrow> wp m Q st"
  by (auto simp: leaves_def wp_def split: prod.splits) (metis snd_conv)

lemma wp_or_record_log:
  assumes ops: "log_apart ops"
    and m: "wp m (\<lambda>x st. P (log_of st) \<and> (\<forall>y. x = Inr y \<longrightarrow> wp (f y) (\<lambda>_ st. P (log_of st)) st)) st"
  shows "wp (or_record ops m f) (\<lambda>_ st. P (log_of st)) st"
proof -
  have rec: "wp (record_error ops e) (\<lambda>_ st. P (log_of st)) st1" if "P (log_of st1)" for e st1
    unfolding record_error_def
    by (rule wp_leaves[where f = log_of])
      (use ops that in \<open>auto simp: log_apart_def intro!: leaves_intros\<close>)
  show ?thesis
    unfolding or_record_def wp_try
    by (rule wp_mono[OF m]) (auto simp: rec split: sum.splits)
qed

text \<open>An object that one of the resources decodes to, which the chart of the options renders for use.\<close>

definition chart_object :: "('c, 'v) render_env \<Rightarrow> render_options \<Rightarrow> codec \<Rightarrow> obj \<Rightarrow> bool" where
  "chart_object renv opts c ob \<longleftrightarrow>
     (\<exists>chart config values files text.
        re_load renv (case ro_template opts of None \<Rightarrow> [] | Some t \<Rightarrow> t) = Inr chart \<and>
        render_config renv opts = Inr config \<and>
        re_values renv chart config (ro_release opts) (ro_namespace opts) (ro_version opts) = Inr values \<and>
        re_engine renv chart values = Inr files \<and> text \<in> set (rendered renv files) \<and> cd_decode c text = Inr ob)"

text \<open>The engine returns a map of files.\<close>

definition distinct_files :: "('c, 'v) render_env \<Rightarrow> bool" where
  "distinct_files renv \<longleftrightarrow> (\<forall>chart vals files. re_engine renv chart vals = Inr files \<longrightarrow> distinct (map fst files))"

lemma chart_objects:
  assumes "render renv opts = Inr root" and "objects_by_order k (tree_resources children root) so = Inr obs"
    and "distinct_files renv"
  shows "\<forall>ob \<in> set obs. chart_object renv opts (ke_codec k) ob"
proof
  fix ob assume "ob \<in> set obs"
  moreover obtain decoded where "resources_to_objects (ke_codec k) (tree_resources children root) = Inr decoded"
    and "obs = sort_objects (ke_sort k) so decoded"
    using assms(2) by (auto simp: objects_by_order_def bind_result_Inr_iff)
  ultimately obtain doc where doc: "doc \<in> set (tree_resources children root)" "cd_decode (ke_codec k) doc = Inr ob"
    by (auto simp: sort_objects_set resources_to_objects_Inr list_all2_conv_all_nth in_set_conv_nth) blast
  have "\<exists>chart config vals files. re_load renv (case ro_template opts of None \<Rightarrow> [] | Some t \<Rightarrow> t) = Inr chart \<and>
      render_config renv opts = Inr config \<and>
      re_values renv chart config (ro_release opts) (ro_namespace opts) (ro_version opts) = Inr vals \<and>
      re_engine renv chart vals = Inr files \<and> mset (tree_resources children root) = mset (rendered renv files)"
    by (rule render_drops_only_hooks[OF assms(1)]) (use assms(3) in \<open>auto simp: distinct_files_def\<close>)
  then obtain chart config vals files where run: "re_load renv (case ro_template opts of None \<Rightarrow> [] | Some t \<Rightarrow> t) = Inr chart"
    "render_config renv opts = Inr config" "re_values renv chart config (ro_release opts) (ro_namespace opts) (ro_version opts) = Inr vals"
    "re_engine renv chart vals = Inr files" "mset (tree_resources children root) = mset (rendered renv files)" by blast
  then have "doc \<in> set (rendered renv files)" using doc(1) by (metis set_mset_mset)
  with run doc(2) show "chart_object renv opts (ke_codec k) ob" unfolding chart_object_def by blast
qed

text \<open>What one apply may send, given the options it rendered with.\<close>

definition sends_chart ::
  "('c, 'v) render_env \<Rightarrow> 's kube_env \<Rightarrow> apply_options \<Rightarrow> (render_options \<Rightarrow> bool) \<Rightarrow> event list \<Rightarrow> bool" where
  "sends_chart renv k opts allowed log \<longleftrightarrow>
     (\<exists>ro obs. allowed ro \<and> (\<forall>ob \<in> set obs. chart_object renv ro (ke_codec k) ob) \<and> log_ok (apply_guard k opts obs) log)"

lemma log_ok_mem: "log_ok G log \<Longrightarrow> ev \<in> set log \<Longrightarrow> \<exists>older. G ev older"
  by (induction log) auto

lemma sends_chart_post:
  assumes "sends_chart renv k opts allowed log" and "Sent rq a \<in> set log" and "rq_verb rq = POST"
  shows "\<exists>ro ob. allowed ro \<and> chart_object renv ro (ke_codec k) ob \<and> created_body k opts [ob] (rq_body rq)"
proof -
  obtain ro obs where ro: "allowed ro" "\<forall>ob \<in> set obs. chart_object renv ro (ke_codec k) ob" "log_ok (apply_guard k opts obs) log"
    using assms(1) unfolding sends_chart_def by blast
  from log_ok_mem[OF ro(3) assms(2)] assms(3) have "created_body k opts obs (rq_body rq)"
    by (auto simp: apply_guard_def)
  with ro show ?thesis unfolding created_body_def by fastforce
qed

definition at_version :: "release \<Rightarrow> int32 \<Rightarrow> release" where
  "at_version r v = r\<lparr>rel_status := (rel_status r)\<lparr>st_version := v\<rparr>\<rparr>"

lemma apply_options_same: "rel_meta r' = rel_meta r \<Longrightarrow> apply_options_of ignored r' = apply_options_of ignored r"
  by (simp add: apply_options_of_def references_for_release_def)

lemma apply_manifests_sends:
  assumes ops: "log_apart ops" and job: "\<And>j. meta_name (jf_defaults (ke_job k) j) = meta_name j"
    and start: "log_of st = []" and none: "P []"
    and some: "\<And>obs log. objects_by_order k manifests install_order = Inr obs \<Longrightarrow>
        log_ok (apply_guard k (apply_options_of ignored r) obs) log \<Longrightarrow> P log"
  shows "wp (apply_manifests ops (new_release_handler_env renv children (traced k) ignored) r manifests post) (\<lambda>_ st. P (log_of st)) st"
proof -
  have flush: "wp (bind_io (so_flush ops ReasonAvailable []) (\<lambda>_. ret ())) (\<lambda>_ st. P (log_of st)) st1" if "P (log_of st1)" for st1
    by (rule wp_leaves[where f = log_of]) (use ops that in \<open>auto simp: log_apart_def intro!: leaves_intros\<close>)
  have update: "wp (or_record ops (if post then bind_io (so_update ops r) (\<lambda>_. ret ()) else ret ())
      (\<lambda>_. bind_io (so_flush ops ReasonAvailable []) (\<lambda>_. ret ()))) (\<lambda>_ st. P (log_of st)) st1" if "P (log_of st1)" for st1
    by (rule wp_or_record_log[OF ops], rule wp_leaves[where f = log_of])
      (use ops that flush in \<open>auto simp: log_apart_def intro!: leaves_intros\<close>)
  have client: "P (log_of st1)"
    if run: "quiet (client_apply (traced k) ns manifests (apply_options_of ignored r)) st = (x, st1)" for ns x st1
  proof -
    obtain s log' where st1: "client_apply (traced k) ns manifests (apply_options_of ignored r) (fst st) = (x, s, log')"
      "log_of st1 = log'"
      using run by (cases "client_apply (traced k) ns manifests (apply_options_of ignored r) (fst st)")
        (auto simp: quiet_def log_of_def split: prod.splits)
    show ?thesis
    proof (cases "objects_by_order k manifests install_order")
      case (Inl e)
      with st1 start none show ?thesis by (auto simp: client_apply_def fail_def log_of_def)
    next
      case (Inr obs)
      have "log_ok (apply_guard k (apply_options_of ignored r) obs) (snd (s, log'))"
        by (rule wpD[OF client_apply_guarded[OF Inr job] st1(1)]) (use start in \<open>simp add: log_of_def\<close>)
      with some[OF Inr] st1(2) show ?thesis by simp
    qed
  qed
  show ?thesis
    unfolding apply_manifests_def new_release_handler_env_def apply_env.simps
    by (rule wp_or_record_log[OF ops], rule wpI) (use client update in blast)
qed

lemma apply_release_sends:
  assumes ops: "log_apart ops" and job: "\<And>j. meta_name (jf_defaults (ke_job k) j) = meta_name j"
    and files: "distinct_files renv" and r: "rs_rollback_to (rel_spec r) = None" and start: "log_of st = []"
  shows "wp (apply_release ops (new_release_handler_env renv children (traced k) ignored) r)
     (\<lambda>_ st. sends_chart renv k (apply_options_of ignored r) (\<lambda>ro. \<exists>v. ro = render_options_of (at_version r v)) (log_of st)) st"
proof -
  let ?P = "sends_chart renv k (apply_options_of ignored r) (\<lambda>ro. \<exists>v. ro = render_options_of (at_version r v))"
  have none: "?P []" unfolding sends_chart_def by (intro exI[of _ "render_options_of (at_version r 0)"] exI[of _ "[]"]) auto
  have manifests: "wp (apply_manifests ops (new_release_handler_env renv children (traced k) ignored)
      (r1\<lparr>rel_status := st'\<rparr>) (tree_resources children root) True) (\<lambda>_ st. ?P (log_of st)) st1"
    if "render renv (render_options_of (at_version r v)) = Inr root" "log_of st1 = []" "rel_meta r1 = rel_meta r" for v r1 st' root st1
  proof (rule apply_manifests_sends[where P = ?P, OF ops job that(2) none])
    fix obs log assume "objects_by_order k (tree_resources children root) install_order = Inr obs"
      and ok: "log_ok (apply_guard k (apply_options_of ignored (r1\<lparr>rel_status := st'\<rparr>)) obs) log"
    from chart_objects[OF that(1) this(1) files]
    have "\<forall>ob \<in> set obs. chart_object renv (render_options_of (at_version r v)) (ke_codec k) ob" by blast
    moreover have "apply_options_of ignored (r1\<lparr>rel_status := st'\<rparr>) = apply_options_of ignored r"
      by (rule apply_options_same) (simp add: that(3))
    ultimately show "?P log" using ok unfolding sends_chart_def by auto
  qed
  have rendered: "wp (or_record ops (lift_result (render renv (render_options_of (at_version r v)))) (\<lambda>root.
      apply_manifests ops (new_release_handler_env renv children (traced k) ignored)
        ((at_version r v)\<lparr>rel_status := (rel_status (at_version r v))\<lparr>st_manifest := merge_resources (tree_resources children root)\<rparr>\<rparr>)
        (tree_resources children root) True)) (\<lambda>_ st. ?P (log_of st)) st1" if "log_of st1 = []" for v st1
  proof (rule wp_or_record_log[OF ops], unfold wp_lift, intro conjI allI impI)
    show "?P (log_of st1)" using none that by simp
    fix root assume "render renv (render_options_of (at_version r v)) = Inr root"
    from manifests[OF this that, of "at_version r v"] show "wp (apply_manifests ops (new_release_handler_env renv children (traced k) ignored)
        ((at_version r v)\<lparr>rel_status := (rel_status (at_version r v))\<lparr>st_manifest := merge_resources (tree_resources children root)\<rparr>\<rparr>)
        (tree_resources children root) True) (\<lambda>_ st. ?P (log_of st)) st1"
      by (simp add: at_version_def)
  qed
  have body: "apply_release ops (new_release_handler_env renv children (traced k) ignored) r =
      or_record ops (so_histories ops) (\<lambda>hs. or_record ops (lift_result (render renv (render_options_of (at_version r (next_version r hs)))))
        (\<lambda>root. apply_manifests ops (new_release_handler_env renv children (traced k) ignored)
          ((at_version r (next_version r hs))\<lparr>rel_status := (rel_status (at_version r (next_version r hs)))
             \<lparr>st_manifest := merge_resources (tree_resources children root)\<rparr>\<rparr>) (tree_resources children root) True))"
    by (simp add: apply_release_def r Let_def at_version_def new_release_handler_env_def)
  show ?thesis
    unfolding body
    by (rule wp_or_record_log[OF ops], rule wp_leaves[where f = log_of])
      (use ops start none rendered in \<open>auto simp: log_apart_def\<close>)
qed

text \<open>
  C7: an apply, from the chart to the requests. Whatever becomes of it, every request by which an apply
  without a rollback changes objects of the cluster is justified against objects that the chart of the
  release gave, rendered at one version of the release; in particular what it creates is a resource of a
  file of the chart that is used and that is no hook, decoded, with the release as its owner unless its
  kind is ignored, and for jobs with their defaults.
\<close>

theorem creations_come_from_chart:
  assumes "log_apart ops" and "\<And>j. meta_name (jf_defaults (ke_job k) j) = meta_name j" and "distinct_files renv"
    and "rs_rollback_to (rel_spec r) = None"
    and "apply_release ops (new_release_handler_env renv children (traced k) ignored) r ((s, []), kept) = (res, (s', log), kept')"
  shows "(\<exists>v obs. (\<forall>ob \<in> set obs. chart_object renv (render_options_of (at_version r v)) (ke_codec k) ob) \<and>
       log_ok (apply_guard k (apply_options_of ignored r) obs) log) \<and>
     (\<forall>rq a. Sent rq a \<in> set log \<and> rq_verb rq = POST \<longrightarrow>
        (\<exists>v ob. chart_object renv (render_options_of (at_version r v)) (ke_codec k) ob \<and>
           created_body k (apply_options_of ignored r) [ob] (rq_body rq)))"
proof -
  have start: "log_of ((s, []), kept) = []" by (simp add: log_of_def)
  have sends: "sends_chart renv k (apply_options_of ignored r) (\<lambda>ro. \<exists>v. ro = render_options_of (at_version r v)) log"
    using wpD[OF apply_release_sends[OF assms(1-4) start] assms(5)] by (simp add: log_of_def)
  then have "\<exists>v obs. (\<forall>ob \<in> set obs. chart_object renv (render_options_of (at_version r v)) (ke_codec k) ob) \<and>
       log_ok (apply_guard k (apply_options_of ignored r) obs) log"
    unfolding sends_chart_def by blast
  with sends_chart_post[OF sends] show ?thesis by blast
qed

section \<open>Runs\<close>

lemma demo_distinct: "distinct_files demo_render_env"
  by (auto simp: distinct_files_def demo_render_env_def)

lemma calm_log_apart: "log_apart (calm_ops r)"
  by (simp add: log_apart_def calm_ops_def)

definition svc_log :: "event list" where
  "svc_log =
     [Sent (demo_request POST None (BObj (add_owners (references_for_release (web_release ''a'' None 0 [])) (demo_obj ''svc''))))
        (Inr (demo_obj ''Pod'')),
      Sent (demo_request GET (Some ''svc'') NoBody) (Inl (NotFound ''gone''))]"

theorem creations_come_from_chart_witness:
  "\<exists>log. apply_release (calm_ops (web_release ''a'' None 0 [])) (new_release_handler_env demo_render_env id (traced (demo_env None)) [])
       (web_release ''a'' None 0 []) (((), []), web_release ''a'' None 0 []) = (Inr (), ((), log), web_release ''a'' None 0 []) \<and>
     length log = 2 \<and>
     (\<exists>v ob. chart_object demo_render_env (render_options_of (at_version (web_release ''a'' None 0 []) v)) demo_codec ob)"
proof -
  let ?r = "web_release ''a'' None 0 []"
  have rendered: "render demo_render_env (render_options_of (at_version ?r 1)) = Inr (Some (Node ''web'' ''web'' [''svc''] []))"
    by code_simp
  have client: "client_apply (traced (demo_env None)) ''ns'' [''svc''] (apply_options_of [] r) ((), []) = (Inr (), ((), svc_log))"
    if "rel_meta r = web_meta" for r
  proof -
    have "references_for_release r = references_for_release ?r" by (simp add: references_for_release_def that)
    then show ?thesis
      by (simp add: client_apply_def demo_objects sort_objects_def apply_object_def accessor_for_object_cases Let_def
          with_owners_def checker_accepts_def ignored_kind_def apply_options_of_def svc_log_def run_defs)
  qed
  have nv: "next_version ?r [] = 1" by (simp add: next_version_def)
  have run: "apply_release (calm_ops ?r) (new_release_handler_env demo_render_env id (traced (demo_env None)) []) ?r (((), []), ?r) =
      (Inr (), ((), svc_log), ?r)"
    using rendered client
    by (simp add: apply_release_def or_record_def try_io_def calm_ops_def ret_def Let_def apply_manifests_def bind_io_def
        new_release_handler_env_def lift_result_def nv at_version_def quiet_def tree_resources_def)
  let ?rq = "demo_request POST None (BObj (add_owners (references_for_release ?r) (demo_obj ''svc'')))"
  have post: "Sent ?rq (Inr (demo_obj ''Pod'')) \<in> set svc_log" "rq_verb ?rq = POST"
    by (simp_all add: svc_log_def demo_request_def)
  have "rs_rollback_to (rel_spec ?r) = None" by simp
  note whole = creations_come_from_chart[OF calm_log_apart demo_job_name demo_distinct this run]
  have "\<exists>v ob. chart_object demo_render_env (render_options_of (at_version ?r v)) demo_codec ob"
    using conjunct2[OF whole, rule_format, OF conjI[OF post]] by auto
  with run show ?thesis by (intro exI[of _ svc_log]) (simp add: svc_log_def)
qed

text \<open>The small cluster as the server of the controller: it serves objects and keeps the release.\<close>

definition web_lib :: "release controller_world kube_env" where
  "web_lib = (demo_env None)\<lparr>ke_rest := (\<lambda>rq. at_server (demo_rest rq))\<rparr>"


end
