(* ===== verification/Status_Beside.thy ===== *)
theory Status_Beside
  imports Handler_World Release_Wiring Status_Controller Controller_Properties
begin

text \<open>
  The status controller beside the release controller: both patch the same release on the server, each
  from a copy of its own. What a sync of the status controller leaves alone, and what follows for a
  handler that has settled.
\<close>

section \<open>A detection reads\<close>

text \<open>The lister, the judge and the store of the status controller leave the release alone.\<close>

definition status_apart :: "'s status_env \<Rightarrow> ('s \<Rightarrow> 'x) \<Rightarrow> bool" where
  "status_apart env srv \<longleftrightarrow>
     (\<forall>ns nm. leaves srv (su_lister env ns nm)) \<and> (\<forall>ob. leaves srv (su_judge env ob)) \<and>
     layers_apart (Some (su_layers env)) srv"

lemma resource_status_leaves:
  assumes "status_apart env srv"
  shows "leaves srv (resource_status_of env rls g m)"
  unfolding resource_status_of_def
proof (rule layers_apart_bind[where ls = "su_layers env"])
  show "layers_apart (Some (su_layers env)) srv" using assms by (simp add: status_apart_def)
qed (use assms in \<open>auto simp: status_apart_def layer_apart_def split: sum.splits prod.splits option.splits intro!: leaves_intros\<close>)

lemma leaves_fst_quiet: "leaves srv m \<Longrightarrow> leaves (\<lambda>st. srv (fst st)) (quiet m)"
  by (auto simp: leaves_def quiet_def split: prod.splits) (metis snd_conv)

lemma detect_node_leaves:
  assumes "status_apart env srv"
  shows "leaves (\<lambda>st. srv (fst st)) (detect_node env rls path rs)"
proof -
  have "leaves (\<lambda>st. srv (fst st)) (detect_resources env rls rs d)" for d
    by (induction rs arbitrary: d)
      (auto simp: add_pods_def modify_st_def leaves_def[of _ "modify_st _"]
        intro!: leaves_intros leaves_fst_quiet resource_status_leaves[OF assms] split: prod.splits)
  then show ?thesis
    by (auto simp: detect_node_def keep_detail_def modify_st_def leaves_def[of _ "modify_st _"] intro!: leaves_intros split: prod.splits)
qed

lemma handlers_leave:
  "handlers_run h root es s s' \<Longrightarrow> (\<And>path rs. leaves srv (h path rs)) \<Longrightarrow> srv s' = srv s"
proof (induction rule: handlers_run.induct)
  case (run_next n s r s1 es s2)
  from leavesD[OF run_next.prems run_next.hyps(2)] run_next.IH[OF run_next.prems] show ?case by simp
qed simp

lemma detects_leave:
  assumes "status_apart env srv" and "detects env rls s res s'"
  shows "srv s' = srv s"
  using assms(2)
proof cases
  case (ran root tr err dt)
  from handlers_leave[OF ran(5), of "\<lambda>st. srv (fst st)"] detect_node_leaves[OF assms(1)] show ?thesis by simp
qed simp_all

section \<open>A sync patches details and pods\<close>

text \<open>
  A patch, not the empty one, of two documents that agree on the metadata, on the spec and on the fields of the status that
  the storage writes does not change these on the server, whether it is answered or fails.
\<close>

definition sparing_server :: "'s storage_env \<Rightarrow> ('s \<Rightarrow> release) \<Rightarrow> bool" where
  "sparing_server env srv \<longleftrightarrow>
     (\<forall>old new a b p s r s'. se_marshal env old = Inr a \<longrightarrow> se_marshal env new = Inr b \<longrightarrow> se_merge_patch env a b = Inr p \<longrightarrow> p \<noteq> ''{}'' \<longrightarrow>
        rel_meta old = rel_meta new \<longrightarrow> rel_spec old = rel_spec new \<longrightarrow> agree old new \<longrightarrow>
        se_release_patch env (se_name env) p s = (r, s') \<longrightarrow>
        rel_spec (srv s') = rel_spec (srv s) \<and> agree (srv s) (srv s') \<and> rel_name (srv s') = rel_name (srv s))"

definition spared :: "release \<Rightarrow> release \<Rightarrow> bool" where
  "spared r r' \<longleftrightarrow> rel_spec r' = rel_spec r \<and> agree r r' \<and> rel_name r' = rel_name r"

lemma spared_refl [simp]: "spared r r"
  by (simp add: spared_def agree_def)

lemma patch_spares:
  assumes server: "sparing_server env srv" and layers: "layers_apart (se_layers env) srv"
    and f: "\<And>r0 s0. wp (f r0) (\<lambda>x s1. srv s1 = srv s0 \<and> (\<forall>new. x = Inr new \<longrightarrow>
        rel_meta r0 = rel_meta new \<and> rel_spec r0 = rel_spec new \<and> agree r0 new)) s0"
    and run: "storage_patch env f (s, kept) = (res, s', kept')"
  shows "spared (srv s) (srv s')"
proof -
  obtain x s1 where x: "f kept s = (x, s1)" by (cases "f kept s")
  note fx = wpD[OF f x]
  show ?thesis
  proof (cases "\<exists>a new b p. se_marshal env kept = Inr a \<and> x = Inr new \<and> se_marshal env new = Inr b \<and>
      se_merge_patch env a b = Inr p \<and> p \<noteq> ''{}''")
    case False
    with run x have "s' = s \<or> s' = s1"
      by (auto simp: storage_patch_def bind_io_def current_release_def lift_result_def quiet_def ret_def
          split: sum.splits prod.splits if_splits)
    with fx show ?thesis by (auto simp: spared_def agree_def)
  next
    case True
    then obtain a new b p where docs: "se_marshal env kept = Inr a" "se_marshal env new = Inr b"
      "se_merge_patch env a b = Inr p" and new: "x = Inr new" and p: "p \<noteq> ''{}''" by blast
    obtain y s2 where y: "se_release_patch env (se_name env) p s1 = (y, s2)" by (cases "se_release_patch env (se_name env) p s1")
    have "s' = s2 \<or> (\<exists>rel z. with_layer env gvk_release (obj_of_release rel) ActionUpdated s2 = (z, s'))"
      using run x docs new p y
      by (auto simp: storage_patch_def bind_io_def current_release_def lift_result_def quiet_def ret_def keep_release_def
          split: sum.splits prod.splits if_splits)
    then have "srv s' = srv s2" using leavesD[OF with_layer_leaves[OF layers]] by blast
    moreover have "rel_spec (srv s2) = rel_spec (srv s1) \<and> agree (srv s1) (srv s2) \<and> rel_name (srv s2) = rel_name (srv s1)"
      using server[unfolded sparing_server_def, rule_format, OF docs p _ _ _ y] fx new by blast
    ultimately show ?thesis using fx by (simp add: spared_def)
  qed
qed

lemma sync_spares:
  assumes apart: "status_apart env srv" and server: "\<And>r. sparing_server (storage_for (su_storage env) r) srv"
    and layers: "layers_apart (se_layers (su_storage env)) srv" and sync: "syncs env key s res s'"
  shows "spared (srv s) (srv s')"
proof -
  have lister: "su_lister env ns nm s0 = (x, s1) \<Longrightarrow> srv s1 = srv s0" for ns nm s0 x s1
    using apart leavesD[where srv = srv] unfolding status_apart_def by blast
  from sync show ?thesis
  proof cases
    case (not_listed e)
    then show ?thesis using lister by simp
  next
    case (nothing_to_do r)
    then show ?thesis using lister by simp
  next
    case (undetected r s1 e)
    then show ?thesis using lister detects_leave[OF apart undetected(4)] by simp
  next
    case (patched r s1 found stats s2 res' kept)
    have wp: "wp (status_modifier found stats r0) (\<lambda>x t. srv t = srv s0 \<and> (\<forall>new. x = Inr new \<longrightarrow>
        rel_meta r0 = rel_meta new \<and> rel_spec r0 = rel_spec new \<and> agree r0 new)) s0" for r0 s0
      by (auto simp: status_modifier_def Let_def agree_def wp_simps split: option.splits)
    have "layers_apart (se_layers (storage_for (su_storage env) r)) srv" using layers by (simp add: storage_for_def)
    from patch_spares[OF server this wp patched(5)] lister[OF patched(2)] detects_leave[OF apart patched(4)]
    show ?thesis by simp
  qed
qed

section \<open>The two controllers\<close>

text \<open>The steps that a status controller takes beside a handler.\<close>

definition status_sync :: "'s status_env \<Rightarrow> 's \<Rightarrow> 's \<Rightarrow> bool" where
  "status_sync senv s s' \<longleftrightarrow> (\<exists>key res. syncs senv key s res s')"

lemma settled_beside_step:
  assumes "\<And>s s'. status_sync senv s s' \<Longrightarrow> spared (srv s) (srv s')"
    and settled: "settled srv t w" "agree (hw_kept w) (srv (hw_state w))"
    and step: "handler_step (later_version srv) (status_sync senv) env ae e w w'"
  shows "settled srv t w' \<and> agree (hw_kept w') (srv (hw_state w')) \<and> \<not> starts e"
proof -
  have idle: "lp_applying (hw_loop w) = None" using settled(1) by (simp add: settled_def)
  have calm: "handler_step (later_version srv) (leaves_request srv) env ae e w w'"
    using step
  proof cases
    case (disturbed s)
    with assms(1)[OF this(3)] have "leaves_request srv (hw_state w) s"
      by (simp add: leaves_request_def later_version_def spared_def agree_def)
    with disturbed show ?thesis using handler_step.disturbed[of "leaves_request srv" w s] by simp
  next
    case (reported r l)
    with handler_step.reported[of "later_version srv" r w l] show ?thesis by simp
  next
    case (moved ev l)
    with handler_step.moved[of ev w l] show ?thesis by simp
  qed (use idle in simp_all)
  have "agree (hw_kept w') (srv (hw_state w'))"
    using step
  proof cases
    case (disturbed s)
    with assms(1)[OF this(3)] settled(2) show ?thesis by (simp add: spared_def agree_def)
  qed (use idle settled(2) in simp_all)
  with settled_step[OF settled(1) calm] show ?thesis by blast
qed

lemma settled_beside_steps:
  assumes "\<And>s s'. status_sync senv s s' \<Longrightarrow> spared (srv s) (srv s')"
  shows "handler_steps (later_version srv) (status_sync senv) env ae es w w' \<Longrightarrow> settled srv t w \<Longrightarrow>
     agree (hw_kept w) (srv (hw_state w)) \<Longrightarrow>
     settled srv t w' \<and> agree (hw_kept w') (srv (hw_state w')) \<and> (\<forall>e \<in> set es. \<not> starts e)"
proof (induction rule: handler_steps.induct)
  case (more e w w' es w'')
  from settled_beside_step[OF assms more.prems more.hyps(1)] more.IH show ?case by simp
qed simp

text \<open>
  C9: the status controller does not wake the handler. From a settled handler on, whatever versions of
  the release are reported and whatever syncs of the status controller run in between, about whatever
  release, whatever they find and however they end, no apply starts, the handler declines what is on
  the server, and the storage of the release controller, though the other one patches the same object
  from a copy of its own, agrees with the server on all the fields it writes.
\<close>

theorem status_syncs_wake_nobody:
  assumes "status_apart senv srv" and "\<And>r. sparing_server (storage_for (su_storage senv) r) srv"
    and "layers_apart (se_layers (su_storage senv)) srv" and "settled srv t w" and "agree (hw_kept w) (srv (hw_state w))"
    and "handler_steps (later_version srv) (status_sync senv) env ae es w w'"
  shows "(\<forall>e \<in> set es. \<not> starts e) \<and> settled srv t w' \<and> \<not> must_apply (Some t) (srv (hw_state w')) \<and>
     agree (hw_kept w') (srv (hw_state w'))"
proof -
  have spares: "spared (srv s) (srv s')" if "status_sync senv s s'" for s s'
    using that sync_spares[OF assms(1-3)] unfolding status_sync_def by blast
  from settled_beside_steps[OF spares assms(6,4,5)] show ?thesis by (auto simp: settled_def must_apply_iff)
qed

section \<open>Putting it together\<close>

text \<open>
  \<open>NewStatusController\<close>: the fields of the controller. Its backend has no layers. What the carrier of a
  manifest reads of a resource and the text of an aggregate error come with it.
\<close>

definition new_status_env ::
  "codec \<Rightarrow> 's cache_layers \<Rightarrow> 's storage_env \<Rightarrow> (string \<Rightarrow> string \<Rightarrow> ('s, release) io)
     \<Rightarrow> (obj \<Rightarrow> ('s, resource_status \<times> error option) io) \<Rightarrow> (string \<Rightarrow> error + anno_field) \<Rightarrow> string
     \<Rightarrow> (error list \<Rightarrow> string) \<Rightarrow> 's status_env" where
  "new_status_env c store release_client lister umpire annotations path_key aggregate =
     \<lparr>su_lister = lister, su_codec = c, su_layers = store, su_judge = umpire, su_annotations = annotations,
      su_path_key = path_key, su_aggregate = aggregate, su_storage = new_release_backend release_client\<rparr>"

lemma new_status_env_layers: "layers_apart (se_layers (su_storage (new_status_env c st cl l u a k g))) srv"
  by (simp add: new_status_env_def new_release_backend_def)

text \<open>\<open>Run\<close>: the number of workers that are started; none when the caches do not sync.\<close>

definition run_status_controller :: "int32 \<Rightarrow> bool \<Rightarrow> nat" where
  "run_status_controller workers synced = (if \<not> synced then 0 else nat (sint workers))"

section \<open>A run of the two\<close>

lemma merge_env_spares: "sparing_server (storage_for (merge_env hs) r) id"
proof -
  have "merge_field x y cur = cur" if "x = y" for x y cur :: 'x using that by simp
  then have "merge_spec s s c = c" for s c :: release_spec by (simp add: merge_spec_def)
  moreover have "agree c \<lparr>rel_meta = rel_meta c, rel_spec = sp, rel_status = merge_status (rel_status old) (rel_status new) (rel_status c)\<rparr>"
    if "agree old new" for old new c :: release and sp
    using that by (simp add: agree_def merge_status_def)
  moreover have "old \<noteq> new" if "document_patch (document old) (document new) \<noteq> ''{}''" for old new
    using that by (auto simp: document_patch_empty)
  ultimately show ?thesis
    by (auto simp: sparing_server_def storage_for_def merge_env_def patched_document)
qed

definition beside_env :: "release status_env" where
  "beside_env =
     new_status_env demo_codec \<lparr>cls_layer_for = (\<lambda>_. fail (External []))\<rparr> (merge_env []) (\<lambda>_ _ s. (Inr s, s))
       (\<lambda>_. ret (resource_status_from ResourceRunning, None)) (\<lambda>_. Inr AnnoAbsent) ''path'' (\<lambda>_. [])"

lemma beside_simps [simp]:
  "su_lister beside_env ns nm s = (Inr s, s)" "su_layers beside_env = \<lparr>cls_layer_for = (\<lambda>_. fail (External []))\<rparr>"
  "su_judge beside_env ob = ret (resource_status_from ResourceRunning, None)" "su_annotations beside_env = (\<lambda>_. Inr AnnoAbsent)"
  "su_path_key beside_env = ''path''" "su_storage beside_env = merge_env []"
  by (simp_all add: beside_env_def new_status_env_def new_release_backend_def) (simp add: merge_env_def)

text \<open>A release whose manifest has no resource, applied, and a handler that has settled on it.\<close>

definition blank_release :: release where
  "blank_release = (web_release ''a'' None 1 [make_condition ReasonAvailable [] 7])
     \<lparr>rel_status := (rel_status (web_release ''a'' None 1 [make_condition ReasonAvailable [] 7]))\<lparr>st_manifest := '' ''\<rparr>\<rparr>"

definition calm_world :: "release handler_world" where
  "calm_world =
     \<lparr>hw_loop = \<lparr>lp_target = Some blank_release, lp_queue = new_work_queue, lp_applying = None, lp_stopped = False\<rparr>,
      hw_state = blank_release, hw_kept = blank_release\<rparr>"

lemma calm_settled: "settled id blank_release calm_world" "agree (hw_kept calm_world) (id (hw_state calm_world))"
  by (simp_all add: settled_def calm_world_def asks_same_def nothing_pending_def new_work_queue_def agree_def)
    (simp_all add: blank_release_def web_release_def normal_condition_def make_condition_def)

lemma blank_sync: "\<exists>s'. status_sync beside_env blank_release s'"
proof -
  have manifest: "st_manifest (rel_status blank_release) = '' ''" by (simp add: blank_release_def)
  have "carrier_for_manifest (\<lambda>_. Inr AnnoAbsent) ''path'' '' '' = Inr None" by code_simp
  then have found: "detects beside_env blank_release blank_release (Inr ([], Some (dt_pods nothing_detected))) blank_release"
    by (intro detects.empty_carrier) (simp_all add: manifest)
  have same: "storage_for (su_storage beside_env) blank_release = merge_env []"
    by (simp add: storage_for_def merge_env_def blank_release_def)
  obtain new where "status_modifier [] (Some (dt_pods nothing_detected)) blank_release blank_release = (Inr new, blank_release)"
    by (simp add: status_modifier_def Let_def ret_def)
  from merge_env_patch[where f = "status_modifier [] (Some (dt_pods nothing_detected))", OF this, of "[]"]
  obtain res s' kept where "storage_patch (storage_for (su_storage beside_env) blank_release)
      (status_modifier [] (Some (dt_pods nothing_detected))) (blank_release, blank_release) = (res, s', kept)"
    unfolding same by (metis surj_pair)
  from syncs.patched[OF _ _ found this, of "''ns/web''"] manifest show ?thesis
    unfolding status_sync_def by auto
qed

theorem status_syncs_wake_nobody_witness:
  "\<exists>w'. handler_steps (later_version id) (status_sync beside_env) (merge_env []) calm_apply
       [Outside, Loop (Received (hw_state w'))] calm_world w' \<and> settled id blank_release w'"
proof -
  obtain s' where sync: "status_sync beside_env blank_release s'" using blank_sync by blast
  let ?w1 = "calm_world\<lparr>hw_state := s'\<rparr>"
  have one: "handler_step (later_version id) (status_sync beside_env) (merge_env []) calm_apply Outside calm_world ?w1"
    using handler_step.disturbed[of "status_sync beside_env" calm_world s'] sync by (simp add: calm_world_def)
  let ?w2 = "?w1\<lparr>hw_loop := loop_receive s' (hw_loop calm_world)\<rparr>"
  have two: "handler_step (later_version id) (status_sync beside_env) (merge_env []) calm_apply (Loop (Received s')) ?w1 ?w2"
    by (rule handler_step.reported) (simp_all add: later_version_def received_simps calm_world_def)
  have steps: "handler_steps (later_version id) (status_sync beside_env) (merge_env []) calm_apply
      [Outside, Loop (Received s')] calm_world ?w2"
    by (intro handler_steps.more[OF one] handler_steps.more[OF two] handler_steps.nothing)
  have apart: "status_apart beside_env (id :: release \<Rightarrow> release)"
    by (simp add: status_apart_def layers_apart_def) (simp add: leaves_def fail_def)
  have "layers_apart (se_layers (su_storage beside_env)) (id :: release \<Rightarrow> release)"
    "sparing_server (storage_for (su_storage beside_env) r) id" for r
    using merge_env_apart[of "[]"] merge_env_spares[of "[]"] by simp_all
  from status_syncs_wake_nobody[OF apart this(2,1) calm_settled steps] steps show ?thesis
    by (intro exI[of _ ?w2]) simp
qed

end
