(* ===== verification/Chart_Archive.thy ===== *)
theory Chart_Archive
  imports Render_Tree
begin

text \<open>
  \<open>cmd/release-cli/util.go\<close>: a chart on disk becomes the archive that a release carries as its
  template. Helm's chart loader, the YAML of the metadata and the tar and gzip writers are the fields
  of \<open>chart_io\<close>; the paths are joined as \<open>path/filepath\<close> does on Unix.
\<close>

section \<open>Paths\<close>

text \<open>\<open>filepath.Clean\<close>: the elements that are left, the last one first in the accumulator.\<close>

fun clean_elems :: "bool \<Rightarrow> string list \<Rightarrow> string list \<Rightarrow> string list" where
  "clean_elems rooted acc [] = rev acc"
| "clean_elems rooted acc (e # es) =
     (if e = [] \<or> e = ''.'' then clean_elems rooted acc es
      else if e = ''..'' then
        (case acc of
           [] \<Rightarrow> clean_elems rooted (if rooted then [] else [''..'']) es
         | x # acc' \<Rightarrow> clean_elems rooted (if x = ''..'' then ''..'' # acc else acc') es)
      else clean_elems rooted (e # acc) es)"

definition clean_path :: "string \<Rightarrow> string" where
  "clean_path p =
     (let rooted = has_prefix p ''/''; es = clean_elems rooted [] (split_str p ''/'')
      in if rooted then ''/'' @ join_str es ''/''
         else if es = [] then ''.'' else join_str es ''/'')"

definition filepath_join :: "string list \<Rightarrow> string" where
  "filepath_join elems =
     (case dropWhile (\<lambda>e. e = []) elems of [] \<Rightarrow> [] | es \<Rightarrow> clean_path (join_str es ''/''))"

section \<open>Charts and their archive\<close>

record chart_metadata =
  md_name :: string
  md_rest :: string

record chart_file =
  cf_name :: string
  cf_data :: string

datatype chart =
  Chart (ch_metadata: "chart_metadata option") (ch_templates: "chart_file list") (ch_dependencies: "chart list")
    (ch_values: "string option") (ch_files: "chart_file list")

record 's chart_io =
  ci_load :: "string \<Rightarrow> ('s, chart) io"
  ci_read_file :: "string \<Rightarrow> ('s, string) io"
  ci_marshal :: "chart_metadata \<Rightarrow> error + string"
  ci_header :: "string \<Rightarrow> nat \<Rightarrow> nat \<Rightarrow> ('s, unit) io"
  ci_write :: "string \<Rightarrow> ('s, unit) io"
  ci_close :: "('s, unit) io"
  ci_bytes :: "'s \<Rightarrow> string"

text \<open>The mode of every entry is \<open>0755\<close>.\<close>

definition write_to_tar :: "'s chart_io \<Rightarrow> string \<Rightarrow> string \<Rightarrow> ('s, unit) io" where
  "write_to_tar ci nm body = bind_io (ci_header ci nm 493 (length body)) (\<lambda>_. ci_write ci body)"

definition save_files :: "'s chart_io \<Rightarrow> string \<Rightarrow> chart_file list \<Rightarrow> ('s, unit) io" where
  "save_files ci base fs = for_io (\<lambda>f. write_to_tar ci (filepath_join [base, cf_name f]) (cf_data f)) fs"

definition save_values :: "'s chart_io \<Rightarrow> string \<Rightarrow> string option \<Rightarrow> ('s, unit) io" where
  "save_values ci base vs =
     (case vs of
        None \<Rightarrow> ret ()
      | Some raw \<Rightarrow> if 0 < length raw then write_to_tar ci (base @ ''/values.yaml'') raw else ret ())"

lemma for_io_cong [fundef_cong]:
  "xs = ys \<Longrightarrow> (\<And>x. x \<in> set ys \<Longrightarrow> f x = g x) \<Longrightarrow> for_io f xs = for_io g ys"
  by (induction ys arbitrary: xs) auto

fun write_tar_contents :: "'s chart_io \<Rightarrow> string \<Rightarrow> chart \<Rightarrow> ('s, unit) io" where
  "write_tar_contents ci pre (Chart md templates deps vs files) =
     (case md of
        None \<Rightarrow> fail (Panic ''nil pointer dereference'')
      | Some m \<Rightarrow>
          (let base = filepath_join [pre, md_name m]
           in bind_io (lift_result (ci_marshal ci m)) (\<lambda>cdata.
              bind_io (write_to_tar ci (base @ ''/Chart.yaml'') cdata) (\<lambda>_.
              bind_io (save_values ci base vs) (\<lambda>_.
              bind_io (save_files ci base templates) (\<lambda>_.
              bind_io (save_files ci base files) (\<lambda>_.
                for_io (write_tar_contents ci (base @ ''/charts'')) deps)))))))"

text \<open>The writers are closed before the error is looked at, and errors of closing are ignored.\<close>

definition archive :: "'s chart_io \<Rightarrow> chart \<Rightarrow> ('s, string) io" where
  "archive ci c =
     try_io (write_tar_contents ci [] c) (\<lambda>r.
     try_io (ci_close ci) (\<lambda>_.
       case r of Inl e \<Rightarrow> fail e | Inr _ \<Rightarrow> (\<lambda>s. (Inr (ci_bytes ci s), s))))"

text \<open>
  \<open>loadChart\<close>: the configuration is the given file or the values of the chart, which are not archived.
\<close>

definition load_chart :: "'s chart_io \<Rightarrow> string \<Rightarrow> string \<Rightarrow> ('s, string \<times> string) io" where
  "load_chart ci template values_file =
     bind_io (ci_load ci template) (\<lambda>c.
     bind_io (if values_file \<noteq> [] then ci_read_file ci values_file
              else (case ch_values c of
                      None \<Rightarrow> fail (Panic ''nil pointer dereference'') | Some raw \<Rightarrow> ret raw)) (\<lambda>config.
     bind_io (archive ci (Chart (ch_metadata c) (ch_templates c) (ch_dependencies c) None (ch_files c))) (\<lambda>tpl.
       ret (tpl, config))))"

section \<open>What a chart is archived as\<close>

definition file_entries :: "string \<Rightarrow> chart_file list \<Rightarrow> (string \<times> string) list" where
  "file_entries base fs = map (\<lambda>f. (filepath_join [base, cf_name f], cf_data f)) fs"

fun chart_entries :: "(chart_metadata \<Rightarrow> string) \<Rightarrow> string \<Rightarrow> chart \<Rightarrow> (string \<times> string) list" where
  "chart_entries enc pre (Chart md templates deps vs files) =
     (case md of
        None \<Rightarrow> []
      | Some m \<Rightarrow>
          (let base = filepath_join [pre, md_name m]
           in [(base @ ''/Chart.yaml'', enc m)] @
              (case vs of None \<Rightarrow> [] | Some raw \<Rightarrow> if raw = [] then [] else [(base @ ''/values.yaml'', raw)]) @
              file_entries base templates @ file_entries base files @
              concat (map (chart_entries enc (base @ ''/charts'')) deps)))"

datatype tar_event = Header string nat nat | Body string

definition tar_of :: "(string \<times> string) list \<Rightarrow> tar_event list" where
  "tar_of es = concat (map (\<lambda>(n, b). [Header n 493 (length b), Body b]) es)"

text \<open>The writer with a log of what it was given, newest event first.\<close>

definition traced_chart_io :: "'s chart_io \<Rightarrow> ('s \<times> tar_event list) chart_io" where
  "traced_chart_io ci =
     \<lparr>ci_load = (\<lambda>p. quiet (ci_load ci p)), ci_read_file = (\<lambda>p. quiet (ci_read_file ci p)), ci_marshal = ci_marshal ci,
      ci_header = (\<lambda>n m l. logged (\<lambda>_. Header n m l) (ci_header ci n m l)),
      ci_write = (\<lambda>b. logged (\<lambda>_. Body b) (ci_write ci b)), ci_close = quiet (ci_close ci),
      ci_bytes = (\<lambda>st. ci_bytes ci (fst st))\<rparr>"

text \<open>\<open>writes m es\<close>: when \<open>m\<close> succeeds it has added exactly the entries \<open>es\<close> to the log.\<close>

definition writes :: "('s \<times> tar_event list, unit) io \<Rightarrow> (string \<times> string) list \<Rightarrow> bool" where
  "writes m es \<longleftrightarrow> (\<forall>st s' log. m st = (Inr (), (s', log)) \<longrightarrow> log = rev (tar_of es) @ snd st)"

lemma tar_of_simps [simp]: "tar_of [] = []" "tar_of (xs @ ys) = tar_of xs @ tar_of ys"
  by (simp_all add: tar_of_def)

lemma writes_ret: "writes (ret ()) []"
  by (simp add: writes_def ret_def)

lemma writes_seq: "writes m es \<Longrightarrow> writes m' es' \<Longrightarrow> writes (bind_io m (\<lambda>_. m')) (es @ es')"
  by (fastforce simp: writes_def bind_io_def split: prod.splits sum.splits)

lemma writes_for:
  "(\<And>x. x \<in> set xs \<Longrightarrow> writes (f x) (es x)) \<Longrightarrow> writes (for_io f xs) (concat (map es xs))"
  by (induction xs) (simp_all add: writes_ret writes_seq)

lemma writes_to_tar: "writes (write_to_tar (traced_chart_io ci) nm body) [(nm, body)]"
  by (auto simp: writes_def write_to_tar_def traced_chart_io_def bind_io_def logged_def tar_of_def
      split: prod.splits sum.splits)

lemma writes_files: "writes (save_files (traced_chart_io ci) base fs) (file_entries base fs)"
  using writes_for[where xs = fs and es = "\<lambda>f. [(filepath_join [base, cf_name f], cf_data f)]", OF writes_to_tar]
  by (simp add: save_files_def file_entries_def)

lemma writes_values:
  "writes (save_values (traced_chart_io ci) base vs)
     (case vs of None \<Rightarrow> [] | Some raw \<Rightarrow> if raw = [] then [] else [(base @ ''/values.yaml'', raw)])"
  by (auto simp: save_values_def writes_ret writes_to_tar split: option.splits)

lemma write_tar_contents_entries:
  assumes "\<And>m d. ci_marshal ci m = Inr d \<Longrightarrow> enc m = d"
  shows "writes (write_tar_contents (traced_chart_io ci) pre c) (chart_entries enc pre c)"
proof (induction c arbitrary: pre)
  case (Chart md templates deps vs files)
  show ?case
  proof (cases "md = None \<or> (\<exists>e. ci_marshal ci (the md) = Inl e)")
    case True
    then show ?thesis
      by (auto simp: writes_def fail_def bind_io_def lift_result_def traced_chart_io_def Let_def split: option.splits)
  next
    case False
    then obtain m d where m: "md = Some m" "ci_marshal ci m = Inr d" by (cases "ci_marshal ci (the md)") auto
    let ?base = "filepath_join [pre, md_name m]"
    have deps: "writes (for_io (write_tar_contents (traced_chart_io ci) (?base @ ''/charts'')) deps)
        (concat (map (chart_entries enc (?base @ ''/charts'')) deps))"
      by (rule writes_for) (rule Chart.IH)
    have marshal: "ci_marshal (traced_chart_io ci) m = Inr d" using m(2) by (simp add: traced_chart_io_def)
    have lift: "bind_io (lift_result (Inr d)) f = f d" for f :: "string \<Rightarrow> (_, unit) io"
      by (simp add: bind_io_def lift_result_def fun_eq_iff)
    show ?thesis
      using writes_seq[OF writes_to_tar[of ci "?base @ ''/Chart.yaml''" d] writes_seq[OF writes_values[of ci ?base vs]
            writes_seq[OF writes_files[of ci ?base templates] writes_seq[OF writes_files[of ci ?base files] deps]]]]
        assms[OF m(2)] m(1)
      by (simp add: Let_def marshal lift)
  qed
qed

section \<open>Where the templates of a chart lie\<close>

definition plain_elem :: "string \<Rightarrow> bool" where
  "plain_elem e \<longleftrightarrow> e \<noteq> [] \<and> e \<noteq> ''.'' \<and> e \<noteq> ''..'' \<and> CHR ''/'' \<notin> set e"

lemma clean_plain_elems: "\<forall>e \<in> set es. plain_elem e \<Longrightarrow> clean_elems rooted acc es = rev acc @ es"
  by (induction es arbitrary: acc) (auto simp: plain_elem_def)

lemma join_append:
  "xs \<noteq> [] \<Longrightarrow> ys \<noteq> [] \<Longrightarrow> join_str (xs @ ys) sep = join_str xs sep @ sep @ join_str ys sep"
proof (induction xs)
  case (Cons x xs)
  then show ?case by (cases "xs = []") (auto simp: join_str_Cons)
qed simp

lemma join_plain_head:
  assumes "es \<noteq> []" and "\<forall>e \<in> set es. plain_elem e"
  shows "join_str es ''/'' \<noteq> []" and "\<not> has_prefix (join_str es ''/'') ''/''"
proof -
  obtain e es' where es: "es = e # es'" using assms(1) by (cases es) auto
  with assms(2) obtain c e' where e: "e = c # e'" "c \<noteq> CHR ''/''" by (cases e) (auto simp: plain_elem_def)
  show "join_str es ''/'' \<noteq> []" "\<not> has_prefix (join_str es ''/'') ''/''"
    by (cases "es' = []"; auto simp: es e join_str_Cons has_prefix_iff)+
qed

lemma clean_path_plain:
  assumes "es \<noteq> []" and "\<forall>e \<in> set es. plain_elem e"
  shows "clean_path (join_str es ''/'') = join_str es ''/''"
proof -
  have "split_str (join_str es ''/'') ''/'' = es"
    by (rule split_join_char) (use assms in \<open>auto simp: plain_elem_def\<close>)
  with clean_plain_elems[OF assms(2)] join_plain_head[OF assms] assms(1) show ?thesis
    by (simp add: clean_path_def Let_def)
qed

lemma filepath_join_plain:
  assumes "ys \<noteq> []" and "\<forall>e \<in> set (xs @ ys). plain_elem e"
  shows "filepath_join [join_str xs ''/'', join_str ys ''/''] = join_str (xs @ ys) ''/''"
proof (cases "xs = []")
  case True
  with join_plain_head(1)[OF assms(1)] clean_path_plain[OF assms(1)] assms(2) show ?thesis
    by (simp add: filepath_join_def)
next
  case False
  with join_plain_head(1)[OF False] clean_path_plain[of "xs @ ys"] assms show ?thesis
    by (simp add: filepath_join_def join_append join_str_Cons)
qed

text \<open>The charts in a chart, each with the names of the charts from the root down to it.\<close>

fun charts_in :: "string list \<Rightarrow> chart \<Rightarrow> (string list \<times> chart) list" where
  "charts_in up (Chart md templates deps vs files) =
     (case md of
        None \<Rightarrow> []
      | Some m \<Rightarrow> (up @ [md_name m], Chart md templates deps vs files) #
                  concat (map (charts_in (up @ [md_name m])) deps))"

definition dirs_above :: "string list \<Rightarrow> string list" where
  "dirs_above up = (if up = [] then [] else chart_dirs up @ [''charts''])"

lemma chart_dirs_snoc: "chart_dirs (up @ [n]) = dirs_above up @ [n]"
proof (induction up rule: chart_dirs.induct)
  case (3 c d cs)
  then show ?case by (cases cs) (auto simp: dirs_above_def)
qed (simp_all add: dirs_above_def)

lemma plain_dirs: "\<forall>e \<in> set up. plain_elem e \<Longrightarrow> e \<in> set (chart_dirs up) \<union> set (dirs_above up) \<Longrightarrow> plain_elem e"
  using set_chart_dirs[of up] by (auto simp: dirs_above_def plain_elem_def split: if_splits)

lemma chart_base:
  assumes "\<forall>e \<in> set (up @ [n]). plain_elem e"
  shows "filepath_join [join_str (dirs_above up) ''/'', n] = join_str (chart_dirs (up @ [n])) ''/''"
proof -
  have "\<forall>e \<in> set (dirs_above up @ [n]). plain_elem e"
    using plain_dirs[of up] assms by auto
  from filepath_join_plain[OF _ this] show ?thesis by (simp add: chart_dirs_snoc)
qed

lemma chart_base_charts:
  "join_str (chart_dirs (up @ [n])) ''/'' @ ''/charts'' = join_str (dirs_above (up @ [n])) ''/''"
  using join_append[of "chart_dirs (up @ [n])" "[''charts'']" "''/''"]
  by (simp add: dirs_above_def chart_dirs_snoc)

lemma template_entry:
  assumes "\<forall>e \<in> set up. plain_elem e" and "\<forall>(cs, d) \<in> set (charts_in up c). \<forall>e \<in> set cs. plain_elem e"
    and "(cs, d) \<in> set (charts_in up c)" and "t \<in> set (ch_templates d)"
  shows "(filepath_join [join_str (chart_dirs cs) ''/'', cf_name t], cf_data t) \<in>
     set (chart_entries enc (join_str (dirs_above up) ''/'') c)"
  using assms
proof (induction c arbitrary: up)
  case (Chart md templates deps vs files)
  obtain m where m: "md = Some m" using Chart.prems(3) by (cases md) auto
  let ?up = "up @ [md_name m]"
  have plain: "\<forall>e \<in> set ?up. plain_elem e" using Chart.prems(2) m by simp
  have base: "filepath_join [join_str (dirs_above up) ''/'', md_name m] = join_str (chart_dirs ?up) ''/''"
    by (rule chart_base[OF plain])
  from Chart.prems(3) consider "cs = ?up" "d = Chart md templates deps vs files"
    | dep where "dep \<in> set deps" "(cs, d) \<in> set (charts_in ?up dep)"
    using m by auto
  then show ?case
  proof cases
    case 1
    then show ?thesis using Chart.prems(4) by (auto simp: m Let_def base file_entries_def)
  next
    case 2
    have "\<forall>(cs, d) \<in> set (charts_in ?up dep). \<forall>e \<in> set cs. plain_elem e"
      using Chart.prems(2) 2(1) m by fastforce
    from Chart.IH[OF 2(1) plain this 2(2) Chart.prems(4)]
    have "(filepath_join [join_str (chart_dirs cs) ''/'', cf_name t], cf_data t) \<in>
        set (chart_entries enc (join_str (dirs_above ?up) ''/'') dep)" .
    with 2(1) show ?thesis by (auto simp: m Let_def base chart_base_charts)
  qed
qed

lemma template_path:
  assumes "cs \<noteq> []" and "\<forall>e \<in> set cs. plain_elem e" and "fs \<noteq> []" and "\<forall>e \<in> set fs. plain_elem e"
    and "\<not> sublist templates_dir (tl templates_dir @ join_str fs ''/'')"
  shows "logic_path_for_file (filepath_join [join_str (chart_dirs cs) ''/'', ''templates/'' @ join_str fs ''/'']) = Inr cs"
proof -
  have tpl: "''templates/'' @ join_str fs ''/'' = join_str (''templates'' # fs) ''/''"
    using join_str_Cons[OF assms(3), of "''templates''" "''/''"] by simp
  have "\<forall>e \<in> set (chart_dirs cs @ ''templates'' # fs). plain_elem e"
    using plain_dirs[OF assms(2)] assms(4) by (auto simp: plain_elem_def)
  from filepath_join_plain[OF _ this]
  have "filepath_join [join_str (chart_dirs cs) ''/'', ''templates/'' @ join_str fs ''/''] =
      join_str (chart_dirs cs) ''/'' @ templates_dir @ join_str fs ''/''"
    unfolding tpl
    by (simp add: join_append[OF chart_dirs_nonempty[OF assms(1)]] join_str_Cons[OF assms(3)] templates_dir_def)
  moreover have "\<forall>c \<in> set cs. c \<noteq> [] \<and> CHR ''/'' \<notin> set c" using assms(2) by (auto simp: plain_elem_def)
  ultimately show ?thesis using logic_path_of_chart[OF assms(1) _ assms(5)] by simp
qed

lemma archive_Inr:
  assumes "archive ci c st = (Inr bytes, st')"
  obtains st1 where "write_tar_contents ci [] c st = (Inr (), st1)"
proof -
  obtain r st1 where w: "write_tar_contents ci [] c st = (r, st1)" by (metis surj_pair)
  with assms have "\<exists>u. r = Inr u"
    by (auto simp: archive_def try_io_def fail_def split: sum.splits prod.splits if_splits)
  with w that show thesis by auto
qed

lemma charts_in_above: "(cs, d) \<in> set (charts_in up c) \<Longrightarrow> length up < length cs"
  by (induction up c rule: charts_in.induct) (fastforce split: option.splits)

end
