(* ===== verification/Release_CLI.thy ===== *)
theory Release_CLI
  imports Chart_Archive Render_Chart
begin

text \<open>
  \<open>cmd/release-cli\<close>: \<open>lint\<close> compares the types of the values of a chart with those of a standard and
  renders the chart; \<open>create\<close> and \<open>delete\<close> check their options and send releases to the server. The
  commands that only print (\<open>get\<close>, \<open>list\<close>) are in \<open>CLI_Printing\<close>. \<open>glog.Fatal\<close>, which ends the process,
  is an error that no code of the command looks at.
\<close>

section \<open>The types of values\<close>

text \<open>A decoded YAML document; the entries of an object stand in the order in which they are visited.\<close>

datatype json =
  JNull | JString string | JBool bool | JNumber string | JArray "json list" | JObject "(string \<times> json) list"

type_synonym type_table = "(string \<times> string list) list"

definition merge_map :: "type_table \<Rightarrow> type_table \<Rightarrow> type_table" where
  "merge_map dst src =
     fold (\<lambda>(k, v) d. AList.update k (case map_of d k of None \<Rightarrow> v | Some types \<Rightarrow> List.union types v) d) src dst"

fun lint_walkthrough :: "string \<Rightarrow> json \<Rightarrow> type_table" where
  "lint_walkthrough pre JNull = []"
| "lint_walkthrough pre (JObject kvs) =
     fold (\<lambda>p result. merge_map result (lint_walkthrough (pre @ ''.'' @ fst p) (snd p))) kvs []"
| "lint_walkthrough pre (JArray os) =
     fold (\<lambda>ob result. merge_map result (lint_walkthrough (pre @ ''[]'') ob)) os []"
| "lint_walkthrough pre (JString s) = [(pre, [''string''])]"
| "lint_walkthrough pre (JBool b) = [(pre, [''bool''])]"
| "lint_walkthrough pre (JNumber n) = [(pre, [''float64''])]"

text \<open>\<open>unmarshal\<close> decodes a document into a map.\<close>

type_synonym unmarshal_map = "string \<Rightarrow> error + (string \<times> json) list"

definition values_path :: "unmarshal_map \<Rightarrow> string \<Rightarrow> error + type_table" where
  "values_path unmarshal vs = bind_result (unmarshal vs) (\<lambda>kvs. Inr (lint_walkthrough [] (JObject kvs)))"

text \<open>What \<open>validateValues\<close> logs. After an error the table is empty and the comparison goes on.\<close>

datatype lint_report = Unreadable error | NotInStandard string | WrongType string string "string list"

definition read_table :: "unmarshal_map \<Rightarrow> string \<Rightarrow> lint_report list \<times> type_table" where
  "read_table unmarshal vs = (case values_path unmarshal vs of Inl e \<Rightarrow> ([Unreadable e], []) | Inr m \<Rightarrow> ([], m))"

definition path_reports :: "type_table \<Rightarrow> string \<times> string list \<Rightarrow> lint_report list" where
  "path_reports standard_map pt =
     (let st = (case map_of standard_map (fst pt) of None \<Rightarrow> [] | Some ts \<Rightarrow> ts)
      in if length st = 0 then [NotInStandard (fst pt)]
         else map (\<lambda>t. WrongType (fst pt) t st) (filter (\<lambda>t. t \<notin> set st) (snd pt)))"

definition validate_values :: "unmarshal_map \<Rightarrow> string \<Rightarrow> string \<Rightarrow> lint_report list" where
  "validate_values unmarshal standard vs =
     (case read_table unmarshal standard of (logged1, standard_map) \<Rightarrow>
      case read_table unmarshal vs of (logged2, target_map) \<Rightarrow>
        logged1 @ logged2 @ concat (map (path_reports standard_map) target_map))"

section \<open>The commands\<close>

record lint_options =
  lt_values :: string
  lt_template :: string
  lt_detail :: bool
  lt_standard :: string

text \<open>What \<open>lint\<close> says: the reports, and the manifest when details are asked for.\<close>

definition run_lint ::
  "'s chart_io \<Rightarrow> ('c, 'v) render_env \<Rightarrow> child_order \<Rightarrow> unmarshal_map \<Rightarrow> lint_options
     \<Rightarrow> ('s, lint_report list \<times> string option) io" where
  "run_lint ci env ord unmarshal opts =
     (if lt_template opts = [] then fail (Errorf ''--template must be set'')
      else bind_io (load_chart ci (lt_template opts) (lt_values opts)) (\<lambda>(tpl, config).
           bind_io (if lt_standard opts \<noteq> []
                    then bind_io (ci_read_file ci (lt_standard opts))
                           (\<lambda>standard. ret (validate_values unmarshal standard config))
                    else ret []) (\<lambda>reports.
           bind_io (lift_result (render env
               \<lparr>ro_namespace = ''default'', ro_release = ''release-name'', ro_version = 1,
                ro_template = Some tpl, ro_config = config, ro_suspend = None\<rparr>)) (\<lambda>root.
             ret (reports, if lt_detail opts then Some (merge_resources (tree_resources ord root)) else None)))))"

record cli_options =
  cli_server :: string
  cli_token :: string
  cli_kubeconfig :: string
  cli_namespace :: string

text \<open>
  \<open>newClientSet\<close>: what the client is configured from. A server that is given with a token is not
  asked for a certificate. \<open>load\<close> stands for \<open>BuildConfigFromFlags\<close>, \<open>connect\<close> for \<open>NewForConfig\<close>.
\<close>

record rest_config =
  rcf_host :: string
  rcf_token :: string
  rcf_insecure :: bool

definition new_client_set ::
  "(string \<Rightarrow> string \<Rightarrow> error + rest_config) \<Rightarrow> (rest_config \<Rightarrow> error + unit) \<Rightarrow> cli_options \<Rightarrow> error + unit" where
  "new_client_set load connect opts =
     (if cli_kubeconfig opts \<noteq> []
      then bind_result (load (cli_server opts) (cli_kubeconfig opts)) connect
      else connect \<lparr>rcf_host = cli_server opts, rcf_token = cli_token opts, rcf_insecure = True\<rparr>)"

text \<open>The checks that \<open>create\<close> and \<open>delete\<close> begin with.\<close>

definition check_server :: "cli_options \<Rightarrow> error + unit" where
  "check_server opts =
     (if cli_kubeconfig opts = [] \<and> (cli_server opts = [] \<or> cli_token opts = [])
      then Inl (Errorf ''Must specify either --kubeconfig or --bearer-token and --server'')
      else if cli_namespace opts = [] then Inl (Errorf ''--namespace must be set'')
      else Inr ())"

definition cli_release :: "string \<Rightarrow> string \<Rightarrow> string \<Rightarrow> release" where
  "cli_release nm config template =
     \<lparr>rel_meta = \<lparr>om_name = nm, om_namespace = [], om_uid = [], om_resource_version = [], om_creation = 0,
                  om_labels = None, om_annotations = None, om_owners = []\<rparr>,
      rel_spec = \<lparr>rs_description = [], rs_template = Some template, rs_config = config, rs_suspend = None,
                  rs_rollback_to = None\<rparr>,
      rel_status = \<lparr>st_version = 0, st_manifest = [], st_last_update = 0, st_details = None,
                    st_pods = \<lparr>ps_old = [], ps_updated = []\<rparr>, st_conditions = []\<rparr>\<rparr>"

text \<open>\<open>connect\<close> stands for \<open>newClientSet\<close>, \<open>send\<close> for the creation of a release in a namespace.\<close>

definition run_create ::
  "'s chart_io \<Rightarrow> (cli_options \<Rightarrow> ('s, unit) io) \<Rightarrow> (string \<Rightarrow> release \<Rightarrow> ('s, release) io)
     \<Rightarrow> cli_options \<Rightarrow> string \<Rightarrow> string \<Rightarrow> string list \<Rightarrow> ('s, release) io" where
  "run_create ci connect send opts template vs args =
     bind_io (lift_result (check_server opts)) (\<lambda>_.
       if template = [] then fail (Errorf ''--template must be set'')
       else if args = [] then fail (Errorf ''Must specify release name'')
       else if 1 < length args then fail (Errorf ''Two or more release names is not allowed'')
       else bind_io (load_chart ci template vs) (\<lambda>(tpl, config).
            bind_io (connect opts) (\<lambda>_.
              send (cli_namespace opts) (cli_release (hd args) config tpl))))"

definition run_delete ::
  "(cli_options \<Rightarrow> ('s, unit) io) \<Rightarrow> (string \<Rightarrow> string \<Rightarrow> ('s, unit) io) \<Rightarrow> cli_options \<Rightarrow> string list \<Rightarrow> ('s, unit) io" where
  "run_delete connect send opts args =
     bind_io (lift_result (check_server opts)) (\<lambda>_.
       if args = [] then fail (Errorf ''Must specify release name'')
       else bind_io (connect opts) (\<lambda>_. for_io (send (cli_namespace opts)) args))"

section \<open>Which types are found\<close>

definition types_at :: "type_table \<Rightarrow> string \<Rightarrow> string set" where
  "types_at m p = (case map_of m p of None \<Rightarrow> {} | Some ts \<Rightarrow> set ts)"

text \<open>The leaves of a document: their paths and the names of their types.\<close>

fun leaves :: "string \<Rightarrow> json \<Rightarrow> (string \<times> string) set" where
  "leaves pre JNull = {}"
| "leaves pre (JObject kvs) = (\<Union>p \<in> set kvs. leaves (pre @ ''.'' @ fst p) (snd p))"
| "leaves pre (JArray os) = (\<Union>ob \<in> set os. leaves (pre @ ''[]'') ob)"
| "leaves pre (JString s) = {(pre, ''string'')}"
| "leaves pre (JBool b) = {(pre, ''bool'')}"
| "leaves pre (JNumber n) = {(pre, ''float64'')}"

definition types_ok :: "type_table \<Rightarrow> bool" where
  "types_ok m \<longleftrightarrow> distinct (map fst m) \<and> (\<forall>(p, ts) \<in> set m. ts \<noteq> [])"

lemma types_ok_update:
  "types_ok m \<Longrightarrow> ts \<noteq> [] \<Longrightarrow> types_ok (AList.update k ts m)"
  by (auto simp: types_ok_def distinct_update dest!: in_set_update)

lemma types_at_update: "types_at (AList.update k ts m) p = (if p = k then set ts else types_at m p)"
  by (simp add: types_at_def update_conv')

lemma union_Nil_iff: "List.union xs ys = [] \<longleftrightarrow> xs = [] \<and> ys = []"
  using set_union[of xs ys] by (metis empty_set sup_eq_bot_iff set_empty)

lemma merge_map_step:
  assumes "types_ok d" and "v \<noteq> []"
  shows "types_ok (AList.update k (case map_of d k of None \<Rightarrow> v | Some types \<Rightarrow> List.union types v) d)"
    and "types_at (AList.update k (case map_of d k of None \<Rightarrow> v | Some types \<Rightarrow> List.union types v) d) p =
      types_at d p \<union> (if p = k then set v else {})"
proof -
  show "types_ok (AList.update k (case map_of d k of None \<Rightarrow> v | Some types \<Rightarrow> List.union types v) d)"
    using assms by (intro types_ok_update) (auto simp: union_Nil_iff split: option.splits)
  show "types_at (AList.update k (case map_of d k of None \<Rightarrow> v | Some types \<Rightarrow> List.union types v) d) p =
      types_at d p \<union> (if p = k then set v else {})"
    by (auto simp: types_at_update) (auto simp: types_at_def split: option.splits)
qed

lemma merge_map_types:
  assumes "types_ok d" and "types_ok src"
  shows "types_ok (merge_map d src) \<and> types_at (merge_map d src) p = types_at d p \<union> types_at src p"
  using assms
proof (induction src arbitrary: d)
  case Nil
  then show ?case by (simp add: merge_map_def types_at_def)
next
  case (Cons kv src)
  obtain k v where kv: "kv = (k, v)" by (cases kv)
  have src: "types_ok src" "v \<noteq> []" "k \<notin> fst ` set src" using Cons.prems(2) by (auto simp: types_ok_def kv)
  note step = merge_map_step[OF Cons.prems(1) src(2)]
  have "types_at ((k, v) # src) p = (if p = k then set v else {}) \<union> types_at src p"
    using src(3) by (auto simp: types_at_def map_of_in_dom[symmetric] split: option.splits)
  with Cons.IH[OF step(1) src(1)] step(2) show ?case by (auto simp: merge_map_def kv)
qed

lemma merge_all_types:
  assumes "\<And>x. x \<in> set xs \<Longrightarrow> types_ok (f x)" and "types_ok d"
  shows "types_ok (fold (\<lambda>x result. merge_map result (f x)) xs d) \<and>
     types_at (fold (\<lambda>x result. merge_map result (f x)) xs d) p = types_at d p \<union> (\<Union>x \<in> set xs. types_at (f x) p)"
  using assms
proof (induction xs arbitrary: d)
  case (Cons x xs)
  from merge_map_types[OF Cons.prems(2), of "f x"] Cons.prems(1)
  have "types_ok (merge_map d (f x))" "types_at (merge_map d (f x)) p = types_at d p \<union> types_at (f x) p" by auto
  with Cons.IH[of "merge_map d (f x)"] Cons.prems(1) show ?case by auto
qed simp

lemma walkthrough_types:
  "types_ok (lint_walkthrough pre j) \<and> types_at (lint_walkthrough pre j) p = {t. (p, t) \<in> leaves pre j}"
proof (induction pre j rule: lint_walkthrough.induct)
  case (2 pre kvs)
  from merge_all_types[of kvs "\<lambda>p. lint_walkthrough (pre @ ''.'' @ fst p) (snd p)" "[]" p] 2 show ?case
    by (auto simp: types_ok_def types_at_def)
next
  case (3 pre os)
  from merge_all_types[of os "lint_walkthrough (pre @ ''[]'')" "[]" p] 3 show ?case
    by (auto simp: types_ok_def types_at_def)
qed (auto simp: types_ok_def types_at_def)

lemma values_path_types:
  assumes "unmarshal vs = Inr kvs" and "values_path unmarshal vs = Inr m"
  shows "types_ok m" and "types_at m p = {t. (p, t) \<in> leaves [] (JObject kvs)}"
  using assms walkthrough_types[of "[]" "JObject kvs" p] by (simp_all add: values_path_def)

text \<open>What the reports say, path by path.\<close>

lemma types_ok_entry: "types_ok m \<Longrightarrow> map_of m p = Some ts \<Longrightarrow> ts \<noteq> []"
  by (auto simp: types_ok_def dest: map_of_SomeD)

lemma path_reports_iff:
  assumes "types_ok st"
  shows "NotInStandard p \<in> set (path_reports st (q, ts)) \<longleftrightarrow> p = q \<and> types_at st q = {}"
    and "WrongType p t want \<in> set (path_reports st (q, ts)) \<longleftrightarrow>
       p = q \<and> t \<in> set ts \<and> t \<notin> types_at st q \<and> map_of st q = Some want"
    and "Unreadable e \<notin> set (path_reports st (q, ts))"
  using types_ok_entry[OF assms, of q]
  by (cases "map_of st q"; auto simp: path_reports_def types_at_def)+

lemma types_ok_mem: "types_ok m \<Longrightarrow> (p, ts) \<in> set m \<longleftrightarrow> map_of m p = Some ts"
  by (simp add: types_ok_def)

lemma types_at_table: "types_ok m \<Longrightarrow> t \<in> types_at m p \<longleftrightarrow> (\<exists>ts. (p, ts) \<in> set m \<and> t \<in> set ts)"
  by (cases "map_of m p") (simp_all add: types_ok_mem types_at_def)

lemma types_at_entry: "types_ok m \<Longrightarrow> types_at m p \<noteq> {} \<longleftrightarrow> (\<exists>ts. (p, ts) \<in> set m)"
  using types_ok_entry[of m p] by (cases "map_of m p") (simp_all add: types_ok_mem types_at_def)

lemma validate_values_tables:
  assumes "unmarshal standard = Inr sk" and "unmarshal vs = Inr vk"
  obtains st m where "types_ok st" "types_ok m"
    "\<And>p. types_at st p = {t. (p, t) \<in> leaves [] (JObject sk)}" "\<And>p. types_at m p = {t. (p, t) \<in> leaves [] (JObject vk)}"
    "validate_values unmarshal standard vs = concat (map (path_reports st) m)"
proof -
  obtain st m where "values_path unmarshal standard = Inr st" "values_path unmarshal vs = Inr m"
    using assms by (simp add: values_path_def)
  with that[of st m] values_path_types[of unmarshal standard, OF assms(1)] values_path_types[of unmarshal vs, OF assms(2)] show thesis
    by (simp add: validate_values_def read_table_def)
qed

end
