(* ===== verification/CLI_Printing.thy ===== *)
theory CLI_Printing
  imports Release_CLI
begin

text \<open>
  The commands of \<open>cmd/release-cli\<close> that print: \<open>printer.go\<close> lays a table out, \<open>list.go\<close> shows the
  releases of a namespace, \<open>get.go\<close> one release. What is printed is the second part of the state.
  Maps are ranged over in the orders of \<open>print_order\<close>.
\<close>

section \<open>Runes\<close>

text \<open>
  \<open>fmt\<close> counts the width of a text in runes. An invalid byte counts as one rune; \<open>rune_tail\<close> are the
  ranges of the bytes that have to follow a first byte.
\<close>

definition rune_tail :: "nat \<Rightarrow> (nat \<times> nat) list" where
  "rune_tail b =
     (if b < 194 then []
      else if b \<le> 223 then [(128, 191)]
      else if b = 224 then [(160, 191), (128, 191)]
      else if b = 237 then [(128, 159), (128, 191)]
      else if b \<le> 239 then [(128, 191), (128, 191)]
      else if b = 240 then [(144, 191), (128, 191), (128, 191)]
      else if b \<le> 243 then [(128, 191), (128, 191), (128, 191)]
      else if b = 244 then [(128, 143), (128, 191), (128, 191)]
      else [])"

fun in_ranges :: "(nat \<times> nat) list \<Rightarrow> string \<Rightarrow> bool" where
  "in_ranges [] s = True"
| "in_ranges (p # ps) [] = False"
| "in_ranges (p # ps) (c # s) \<longleftrightarrow> fst p \<le> of_char c \<and> of_char c \<le> snd p \<and> in_ranges ps s"

function rune_count :: "string \<Rightarrow> nat" where
  "rune_count [] = 0"
| "rune_count (c # s) =
     Suc (rune_count (if in_ranges (rune_tail (of_char c)) s then drop (length (rune_tail (of_char c))) s else s))"
  by pat_completeness auto
termination by (relation "measure length") auto

section \<open>Tables (\<open>printer.go\<close>)\<close>

definition newline :: string where
  "newline = [byte 10]"

definition widen :: "nat \<times> string \<Rightarrow> nat list \<Rightarrow> nat list" where
  "widen ic widths =
     (if fst ic \<ge> length widths then widths @ [length (snd ic)]
      else if widths ! fst ic < length (snd ic) then widths[fst ic := length (snd ic)]
      else widths)"

definition column_widths :: "string list list \<Rightarrow> nat list" where
  "column_widths table = fold (\<lambda>row. fold widen (enumerate 0 row)) table []"

text \<open>
  \<open>fmt.Printf("%-<w>s", col)\<close>. A width of eight digits or more above ten million is refused by the
  parser of the format, which then takes the verb for missing.
\<close>

definition pad_right :: "nat \<Rightarrow> string \<Rightarrow> string" where
  "pad_right w col =
     (if w div 10 > 1000000 then ''%!(NOVERB)%!(EXTRA string='' @ col @ '')''
      else col @ replicate (w - rune_count col) CHR '' '')"

definition print_cell :: "nat list \<Rightarrow> nat \<times> string \<Rightarrow> string" where
  "print_cell widths ic =
     (if fst ic < length widths - 1 then pad_right (widths ! fst ic + 3) (snd ic) else snd ic)"

definition print_row :: "nat list \<Rightarrow> string list \<Rightarrow> string" where
  "print_row widths row = concat (map (print_cell widths) (enumerate 0 row)) @ newline"

definition print_table :: "string list list \<Rightarrow> string" where
  "print_table table = concat (map (print_row (column_widths table)) table)"

section \<open>Counters and the list of releases (\<open>list.go\<close>)\<close>

record print_order =
  po_details :: "(string \<times> detail_status) list \<Rightarrow> (string \<times> detail_status) list"
  po_resources :: "(string \<times> resource_counter) list \<Rightarrow> (string \<times> resource_counter) list"
  po_counter :: "resource_counter \<Rightarrow> resource_counter"

fun phase_text :: "resource_phase \<Rightarrow> string" where
  "phase_text ResourceSuspended = ''Suspended''"
| "phase_text ResourcePending = ''Pending''"
| "phase_text ResourceProgressing = ''Progressing''"
| "phase_text ResourceUpdating = ''Updating''"
| "phase_text ResourceRunning = ''Running''"
| "phase_text ResourceSucceeded = ''Succeeded''"
| "phase_text ResourceFailed = ''Failed''"

definition counter_entry :: "resource_phase \<times> int32 \<Rightarrow> string" where
  "counter_entry kv = phase_text (fst kv) @ '':'' @ int_str (sint (snd kv))"

definition print_counter :: "print_order \<Rightarrow> resource_counter \<Rightarrow> string" where
  "print_counter ord c = join_str (map counter_entry (range_over (po_counter ord) c)) '',''"

definition details_of :: "print_order \<Rightarrow> release \<Rightarrow> (string \<times> detail_status) list" where
  "details_of ord r =
     (case st_details (rel_status r) of None \<Rightarrow> [] | Some ds \<Rightarrow> range_over (po_details ord) ds)"

definition add_count :: "resource_phase \<times> int32 \<Rightarrow> resource_counter \<Rightarrow> resource_counter" where
  "add_count kn counter =
     AList.update (fst kn) (case map_of counter (fst kn) of Some m \<Rightarrow> m + snd kn | None \<Rightarrow> snd kn) counter"

definition release_counter :: "print_order \<Rightarrow> release \<Rightarrow> resource_counter" where
  "release_counter ord r =
     fold (\<lambda>kv. fold (\<lambda>rc. fold add_count (range_over (po_counter ord) (snd rc)))
                  (range_over (po_resources ord) (ds_resources (snd kv))))
       (details_of ord r) []"

definition valid_text :: "release \<Rightarrow> string" where
  "valid_text r =
     fold (\<lambda>c condition. if co_type c = ReleaseFailure then ''NO'' else condition) (st_conditions (rel_status r)) ''YES''"

definition list_table :: "print_order \<Rightarrow> release list \<Rightarrow> string list list" where
  "list_table ord items =
     [''NAMESPACE'', ''NAME'', ''VALID'', ''STATUS''] #
     map (\<lambda>r. [rel_namespace r, rel_name r, valid_text r, print_counter ord (release_counter ord r)]) items"

definition check_access :: "cli_options \<Rightarrow> error + unit" where
  "check_access opts =
     (if cli_kubeconfig opts = [] \<and> (cli_server opts = [] \<or> cli_token opts = [])
      then Inl (Errorf ''Must specify either --kubeconfig or --bearer-token and --server'')
      else Inr ())"

definition print_text :: "string \<Rightarrow> ('s \<times> string, unit) io" where
  "print_text t = modify_st (\<lambda>(s, out). (s, out @ t))"

definition run_list ::
  "(cli_options \<Rightarrow> ('s, unit) io) \<Rightarrow> (string \<Rightarrow> ('s, release list) io) \<Rightarrow> print_order \<Rightarrow> cli_options
     \<Rightarrow> ('s \<times> string, unit) io" where
  "run_list connect list_releases ord opts =
     bind_io (lift_result (check_access opts)) (\<lambda>_.
     bind_io (quiet (connect opts)) (\<lambda>_.
     bind_io (quiet (list_releases (cli_namespace opts))) (\<lambda>items.
       print_text (print_table (list_table ord items)))))"

section \<open>One release (\<open>get.go\<close>)\<close>

definition status_message :: "release \<Rightarrow> string" where
  "status_message r =
     (let status = (case st_conditions (rel_status r) of [] \<Rightarrow> [] | c # _ \<Rightarrow> co_message c)
      in if status = [] then ''N/A'' else status)"

text \<open>\<open>time_text\<close> is the \<open>String\<close> method of \<open>metav1.Time\<close>.\<close>

definition meta_table :: "(int \<Rightarrow> string) \<Rightarrow> release \<Rightarrow> string list list" where
  "meta_table time_text r =
     [[''Name:'', rel_name r], [''Namespace:'', rel_namespace r],
      [''Version:'', int_str (sint (st_version (rel_status r)))],
      [''Description:'', rs_description (rel_spec r)],
      [''Start Time:'', time_text (om_creation (rel_meta r))],
      [''Last Update:'', time_text (st_last_update (rel_status r))],
      [''Status Message:'', status_message r], [''Status Details:'', []]]"

text \<open>The lines of one node: its key and path stand only before its first resource.\<close>

fun detail_lines :: "print_order \<Rightarrow> string list \<Rightarrow> (string \<times> resource_counter) list \<Rightarrow> string list list" where
  "detail_lines ord line [] = []"
| "detail_lines ord line (rc # rcs) =
     (line @ [fst rc, print_counter ord (snd rc)]) # detail_lines ord [[], []] rcs"

definition details_table :: "print_order \<Rightarrow> release \<Rightarrow> string list list" where
  "details_table ord r =
     [''Key'', ''Path'', ''Resource'', ''STATUS''] #
     concat (map (\<lambda>kv. detail_lines ord [fst kv, ds_path (snd kv)]
                         (range_over (po_resources ord) (ds_resources (snd kv)))) (details_of ord r))"

text \<open>
  What one \<open>Write\<close> to a base64 encoder passes on: whole groups of three bytes. The rest stays in
  the encoder until it is closed.
\<close>

definition base64_digit :: "nat \<Rightarrow> char" where
  "base64_digit n = ''ABCDEFGHIJKLMNOPQRSTUVWXYZabcdefghijklmnopqrstuvwxyz0123456789+/'' ! n"

fun encoder_write :: "string \<Rightarrow> string" where
  "encoder_write (a # b # c # s) =
     (let v = of_char a * 65536 + of_char b * 256 + of_char c :: nat
      in [base64_digit (v div 262144), base64_digit (v div 4096 mod 64), base64_digit (v div 64 mod 64),
          base64_digit (v mod 64)] @ encoder_write s)"
| "encoder_write s = []"

definition template_text :: "release \<Rightarrow> string" where
  "template_text r = (case rs_template (rel_spec r) of None \<Rightarrow> [] | Some t \<Rightarrow> t)"

definition detail_text :: "release \<Rightarrow> string" where
  "detail_text r =
     ''Template:'' @ newline @ encoder_write (template_text r) @ newline @
     ''Manifest:'' @ newline @ st_manifest (rel_status r) @ newline"

definition run_get ::
  "(cli_options \<Rightarrow> ('s, unit) io) \<Rightarrow> (string \<Rightarrow> string \<Rightarrow> ('s, release) io) \<Rightarrow> (string \<Rightarrow> error + string)
     \<Rightarrow> (int \<Rightarrow> string) \<Rightarrow> print_order \<Rightarrow> cli_options \<Rightarrow> bool \<Rightarrow> string list \<Rightarrow> ('s \<times> string, unit) io" where
  "run_get connect get_release json_to_yaml time_text ord opts detail args =
     bind_io (lift_result (check_server opts)) (\<lambda>_.
       if args = [] then fail (Errorf ''Must specify release name'')
       else if 1 < length args then fail (Errorf ''Two or more release names is not allowed'')
       else bind_io (quiet (connect opts)) (\<lambda>_.
            bind_io (quiet (get_release (cli_namespace opts) (hd args))) (\<lambda>r.
            bind_io (print_text (print_table (meta_table time_text r))) (\<lambda>_.
            bind_io (print_text (print_table (details_table ord r))) (\<lambda>_.
            bind_io (print_text (''Config(YAML):'' @ newline)) (\<lambda>_.
            bind_io (lift_result (json_to_yaml (rs_config (rel_spec r)))) (\<lambda>cfg.
            bind_io (print_text (cfg @ newline)) (\<lambda>_.
              if detail then print_text (detail_text r) else ret ()))))))))"

section \<open>Columns\<close>

lemma rune_tail_cont: "p \<in> set (rune_tail b) \<Longrightarrow> 128 \<le> fst p"
  by (auto simp: rune_tail_def split: if_splits)

lemma rune_count_le: "rune_count s \<le> length s"
  by (induction s rule: rune_count.induct) (auto split: if_splits intro: order.trans)

lemma in_ranges_length: "in_ranges ps s \<Longrightarrow> length ps \<le> length s"
  by (induction ps s rule: in_ranges.induct) auto

lemma in_ranges_blanks:
  "(\<forall>p \<in> set ps. 128 \<le> fst p) \<Longrightarrow> in_ranges ps (s @ replicate k CHR '' '') = in_ranges ps s"
proof (induction ps s rule: in_ranges.induct)
  case (2 p ps)
  then show ?case by (cases k) auto
qed auto

lemma rune_count_blanks: "rune_count (s @ replicate k CHR '' '') = rune_count s + k"
proof (induction s rule: rune_count.induct)
  case 1
  show ?case by (induction k) (simp_all add: rune_tail_def)
next
  case (2 c s)
  have "in_ranges (rune_tail (of_char c)) (s @ replicate k CHR '' '') = in_ranges (rune_tail (of_char c)) s"
    by (rule in_ranges_blanks) (use rune_tail_cont in blast)
  with 2 show ?case by (auto dest: in_ranges_length)
qed

text \<open>The widths of a table cover all its cells.\<close>

definition covers :: "nat list \<Rightarrow> string list \<Rightarrow> bool" where
  "covers widths row \<longleftrightarrow> length row \<le> length widths \<and> (\<forall>i < length row. length (row ! i) \<le> widths ! i)"

definition wider :: "nat list \<Rightarrow> nat list \<Rightarrow> bool" where
  "wider ws us \<longleftrightarrow> length ws \<le> length us \<and> (\<forall>i < length ws. ws ! i \<le> us ! i)"

lemma wider_refl [simp]: "wider ws ws"
  by (simp add: wider_def)

lemma wider_trans: "wider ws us \<Longrightarrow> wider us vs \<Longrightarrow> wider ws vs"
  unfolding wider_def by (meson le_trans less_le_trans)

lemma covers_wider: "covers ws row \<Longrightarrow> wider ws us \<Longrightarrow> covers us row"
  unfolding covers_def wider_def by (meson le_trans less_le_trans)

lemma widen_wider: "wider ws (widen ic ws)"
  by (auto simp: wider_def widen_def nth_append nth_list_update)

lemma widen_row:
  "k \<le> length ws \<Longrightarrow> wider ws (fold widen (enumerate k row) ws) \<and>
     k + length row \<le> length (fold widen (enumerate k row) ws) \<and>
     (\<forall>i < length row. length (row ! i) \<le> fold widen (enumerate k row) ws ! (k + i))"
proof (induction row arbitrary: k ws)
  case (Cons col row)
  let ?ws = "widen (k, col) ws"
  have ws: "Suc k \<le> length ?ws" "length col \<le> ?ws ! k"
    using Cons.prems by (auto simp: widen_def nth_append)
  from Cons.IH[OF ws(1)] have IH: "wider ?ws (fold widen (enumerate (Suc k) row) ?ws)"
    "Suc k + length row \<le> length (fold widen (enumerate (Suc k) row) ?ws)"
    "\<forall>i < length row. length (row ! i) \<le> fold widen (enumerate (Suc k) row) ?ws ! (Suc k + i)" by simp_all
  have "length col \<le> fold widen (enumerate (Suc k) row) ?ws ! k"
    using IH(1) ws by (auto simp: wider_def Suc_le_eq intro: order.trans)
  with IH wider_trans[OF widen_wider IH(1)] show ?case by (auto simp: less_Suc_eq_0_disj)
qed simp

lemma table_wider: "wider ws (fold (\<lambda>row. fold widen (enumerate 0 row)) table ws)"
proof (induction table arbitrary: ws)
  case (Cons row table)
  from wider_trans[OF conjunct1[OF widen_row[of 0 ws row]] Cons.IH] show ?case by simp
qed simp

lemma table_covers: "row \<in> set table \<Longrightarrow> covers (fold (\<lambda>row. fold widen (enumerate 0 row)) table ws) row"
proof (induction table arbitrary: ws)
  case (Cons r table)
  have "covers (fold widen (enumerate 0 r) ws) r" using widen_row[of 0 ws r] by (simp add: covers_def)
  from covers_wider[OF this table_wider] Cons show ?case by auto
qed simp

lemma column_widths_cover: "row \<in> set table \<Longrightarrow> covers (column_widths table) row"
  unfolding column_widths_def by (rule table_covers)

text \<open>Every cell but those of the last column is filled up to the width of its column and three blanks more.\<close>

lemma cells_align:
  assumes "row \<in> set table" and "i < length row" and "i + 1 < length (column_widths table)"
    and "column_widths table ! i < 10000000"
  shows "\<exists>k \<ge> 3. print_cell (column_widths table) (i, row ! i) = row ! i @ replicate k CHR '' '' \<and>
     rune_count (print_cell (column_widths table) (i, row ! i)) = column_widths table ! i + 3"
proof -
  let ?w = "column_widths table ! i"
  have "length (row ! i) \<le> ?w" using column_widths_cover[OF assms(1)] assms(2) by (simp add: covers_def)
  then have le: "rune_count (row ! i) \<le> ?w" using rune_count_le order.trans by blast
  have "\<not> (?w + 3) div 10 > 1000000" using assms(4) by linarith
  then have cell: "print_cell (column_widths table) (i, row ! i) = row ! i @ replicate (?w + 3 - rune_count (row ! i)) CHR '' ''"
    using assms(3) by (simp add: print_cell_def pad_right_def)
  with le show ?thesis by (intro exI[of _ "?w + 3 - rune_count (row ! i)"]) (simp add: rune_count_blanks)
qed

section \<open>Totals\<close>

text \<open>All counts a release records, in some order, and their sums.\<close>

definition recorded_counts :: "release \<Rightarrow> (resource_phase \<times> int32) list" where
  "recorded_counts r =
     concat (map (\<lambda>kv. concat (map snd (ds_resources (snd kv))))
       (case st_details (rel_status r) of None \<Rightarrow> [] | Some ds \<Rightarrow> ds))"

definition sum_phase :: "resource_phase \<Rightarrow> (resource_phase \<times> int32) list \<Rightarrow> int32" where
  "sum_phase p kns = sum_list (map snd (filter (\<lambda>kn. fst kn = p) kns))"

lemma sum_phase_mset: "mset xs = mset ys \<Longrightarrow> sum_phase p xs = sum_phase p ys"
  by (simp add: sum_phase_def flip: sum_mset_sum_list)

definition counted :: "resource_counter \<Rightarrow> resource_phase \<Rightarrow> int32" where
  "counted c p = (case map_of c p of None \<Rightarrow> 0 | Some n \<Rightarrow> n)"

lemma add_count_one:
  "distinct (map fst c) \<Longrightarrow> distinct (map fst (add_count kn c))"
  "dom (map_of (add_count kn c)) = insert (fst kn) (dom (map_of c))"
  "counted (add_count kn c) p = counted c p + (if fst kn = p then snd kn else 0)"
  by (auto simp: add_count_def distinct_update update_conv' counted_def split: option.splits if_splits)

lemma add_counts:
  "distinct (map fst c) \<Longrightarrow> distinct (map fst (fold add_count kns c))"
  "dom (map_of (fold add_count kns c)) = dom (map_of c) \<union> fst ` set kns"
  "counted (fold add_count kns c) p = counted c p + sum_phase p kns"
  by (induction kns arbitrary: c) (simp_all add: add_count_one sum_phase_def)

lemma concat_range_mset:
  "(\<And>x. mset (f x) = mset (g x)) \<Longrightarrow> mset (concat (map f (range_over rng xs))) = mset (concat (map g xs))"
  by (simp add: mset_concat_sum comp_def flip: sum_mset_sum_list)

lemma fold_concat: "fold (\<lambda>x. fold f (g x)) xs c = fold f (concat (map g xs)) c"
  by (induction xs arbitrary: c) simp_all

lemma concat_nested: "concat (map f (concat (map g xs))) = concat (map (\<lambda>x. concat (map f (g x))) xs)"
  by (induction xs) simp_all

lemma release_counter_fold:
  "\<exists>kns. mset kns = mset (recorded_counts r) \<and> release_counter ord r = fold add_count kns []"
proof (intro exI conjI)
  let ?inner = "\<lambda>kv. concat (map (\<lambda>rc. range_over (po_counter ord) (snd rc)) (range_over (po_resources ord) (ds_resources (snd kv))))"
  show "release_counter ord r = fold add_count (concat (map ?inner (details_of ord r))) []"
    by (simp add: release_counter_def fold_concat concat_nested)
  have "mset (?inner kv) = mset (concat (map snd (ds_resources (snd kv))))" for kv :: "string \<times> detail_status"
    by (rule concat_range_mset) simp
  from concat_range_mset[of ?inner "\<lambda>kv. concat (map snd (ds_resources (snd kv)))", OF this]
  show "mset (concat (map ?inner (details_of ord r))) = mset (recorded_counts r)"
    by (auto simp: details_of_def recorded_counts_def split: option.splits)
qed

lemma release_counter_totals:
  "distinct (map fst (release_counter ord r)) \<and>
   map_of (release_counter ord r) p =
     (if p \<in> fst ` set (recorded_counts r) then Some (sum_phase p (recorded_counts r)) else None)"
proof -
  obtain kns where kns: "mset kns = mset (recorded_counts r)" "release_counter ord r = fold add_count kns []"
    using release_counter_fold by blast
  have "set kns = set (recorded_counts r)" using kns(1) by (rule mset_eq_setD)
  moreover have "p \<in> dom (map_of (release_counter ord r)) \<longleftrightarrow> p \<in> fst ` set kns" by (simp add: kns(2) add_counts(2))
  moreover have "counted (release_counter ord r) p = sum_phase p (recorded_counts r)"
    using add_counts(3)[of kns "[]" p] sum_phase_mset[OF kns(1)] by (simp add: kns(2) counted_def)
  ultimately show ?thesis
    using add_counts(1)[of "[]" kns] by (auto simp: counted_def kns(2) split: option.splits)
qed

lemma valid_text_iff: "valid_text r = (if \<exists>c \<in> set (st_conditions (rel_status r)). co_type c = ReleaseFailure then ''NO'' else ''YES'')"
proof -
  have "fold (\<lambda>c condition. if co_type c = ReleaseFailure then ''NO'' else condition) cs x =
      (if \<exists>c \<in> set cs. co_type c = ReleaseFailure then ''NO'' else x)" for cs x
    by (induction cs arbitrary: x) auto
  then show ?thesis unfolding valid_text_def by blast
qed

section \<open>What the encoder passes on\<close>

definition base64_value :: "char \<Rightarrow> nat" where
  "base64_value c =
     length (takeWhile (\<lambda>x. x \<noteq> c) ''ABCDEFGHIJKLMNOPQRSTUVWXYZabcdefghijklmnopqrstuvwxyz0123456789+/'')"

fun base64_decode :: "string \<Rightarrow> string" where
  "base64_decode (a # b # c # d # s) =
     (let v = base64_value a * 262144 + base64_value b * 4096 + base64_value c * 64 + base64_value d
      in [byte (v div 65536), byte (v div 256 mod 256), byte (v mod 256)] @ base64_decode s)"
| "base64_decode s = []"

lemma index_nth: "distinct xs \<Longrightarrow> n < length xs \<Longrightarrow> length (takeWhile (\<lambda>x. x \<noteq> xs ! n) xs) = n"
proof (induction xs arbitrary: n)
  case (Cons x xs)
  then show ?case by (cases n) auto
qed simp

lemma base64_value_digit: "n < 64 \<Longrightarrow> base64_value (base64_digit n) = n"
  unfolding base64_value_def base64_digit_def by (rule index_nth) simp_all

lemma base64_group:
  assumes "v < 16777216"
  shows "base64_value (base64_digit (v div 262144)) * 262144 + base64_value (base64_digit (v div 4096 mod 64)) * 4096 +
     base64_value (base64_digit (v div 64 mod 64)) * 64 + base64_value (base64_digit (v mod 64)) = v"
proof -
  have "v div 262144 < 64" using assms by linarith
  moreover have "v div 262144 * 262144 + v div 4096 mod 64 * 4096 + v div 64 mod 64 * 64 + v mod 64 = v"
  proof -
    have "v div 64 div 64 = v div 4096" "v div 4096 div 64 = v div 262144" by (simp_all flip: div_mult2_eq)
    with div_mult_mod_eq[of v 64] div_mult_mod_eq[of "v div 64" 64] div_mult_mod_eq[of "v div 4096" 64]
    show ?thesis by linarith
  qed
  ultimately show ?thesis by (simp add: base64_value_digit)
qed

lemma base64_bytes:
  assumes "(b::nat) < 256" and "c < 256" and "v = a * 65536 + b * 256 + c"
  shows "v div 65536 = a" "v div 256 mod 256 = b" "v mod 256 = c"
proof -
  have split: "(x * 256 + y) div 256 = x \<and> (x * 256 + y) mod 256 = y" if "y < 256" for x y :: nat using that by simp
  have v: "v = (a * 256 + b) * 256 + c" using assms(3) by simp
  have "v div 256 = a * 256 + b" "v mod 256 = c" unfolding v using split[OF assms(2)] by blast+
  moreover have "v div 65536 = v div 256 div 256" by (simp flip: div_mult2_eq)
  ultimately show "v div 65536 = a" "v div 256 mod 256 = b" "v mod 256 = c" using split[OF assms(1)] by simp_all
qed

lemma base64_three: "base64_decode (encoder_write (a # b # c # s)) = a # b # c # base64_decode (encoder_write s)"
proof -
  define v :: nat where "v = of_char a * 65536 + of_char b * 256 + of_char c"
  have lt: "of_char a < (256::nat)" "of_char b < (256::nat)" "of_char c < (256::nat)" by simp_all
  then have "v < 16777216" unfolding v_def by linarith
  note v = base64_group[OF this] base64_bytes[OF lt(2,3) v_def]
  have "byte (v div 65536) = a" "byte (v div 256 mod 256) = b" "byte (v mod 256) = c"
    unfolding v(2-4) byte_def by simp_all
  with v(1) show ?thesis
    by (simp add: v_def[symmetric] Let_def)
qed

lemma encoder_decodes: "base64_decode (encoder_write s) = take (3 * (length s div 3)) s"
proof (induction s rule: encoder_write.induct)
  case (1 a b c s)
  have "3 * (length (a # b # c # s) div 3) = 3 + 3 * (length s div 3)" using div_add_self1[of "3::nat" "length s"] by simp
  moreover have "take (3 + n) (a # b # c # s) = a # b # c # take n s" for n by (simp add: numeral_3_eq_3)
  ultimately show ?case by (simp only: base64_three 1)
qed simp_all

end
