(* ===== verification/Tool_Properties.thy ===== *)
theory Tool_Properties
  imports Release_CLI CLI_Printing Release_Properties
begin

text \<open>
  What the commands of \<open>release-cli\<close> promise: the archive of a chart is laid out the way the renderer
  reads it, and \<open>lint\<close> reports exactly the values whose types the standard does not have.
\<close>

section \<open>The archive of a chart\<close>

text \<open>
  When a chart is archived, every template of it and of the charts it depends on has an entry with
  its data under a name that the renderer files under the path of the chart: the names of the charts
  from the root down to it. The names of the charts and of the template have to be plain path
  elements, and the template must not lie in a further directory called \<open>templates\<close>.
\<close>

lemma archived_templates_are_found:
  assumes "archive (traced_chart_io ci) c (s, []) = (Inr bytes, (s', log))"
    and "\<forall>(cs, d) \<in> set (charts_in [] c). \<forall>e \<in> set cs. plain_elem e"
    and "(cs, d) \<in> set (charts_in [] c)" and "t \<in> set (ch_templates d)"
    and "cf_name t = ''templates/'' @ join_str fs ''/''" and "fs \<noteq> []" and "\<forall>e \<in> set fs. plain_elem e"
    and "\<not> sublist templates_dir (tl templates_dir @ join_str fs ''/'')"
  shows "\<exists>p. logic_path_for_file p = Inr cs \<and>
     sublist [Header p 493 (length (cf_data t)), Body (cf_data t)] (rev log)"
proof -
  let ?enc = "\<lambda>m. case ci_marshal ci m of Inl _ \<Rightarrow> [] | Inr d \<Rightarrow> d"
  let ?p = "filepath_join [join_str (chart_dirs cs) ''/'', cf_name t]"
  obtain s1 log1 where w: "write_tar_contents (traced_chart_io ci) [] c (s, []) = (Inr (), (s1, log1))"
    using archive_Inr[OF assms(1)] by (metis surj_pair)
  have "writes (write_tar_contents (traced_chart_io ci) [] c) (chart_entries ?enc [] c)"
    by (rule write_tar_contents_entries) simp
  with w have "log1 = rev (tar_of (chart_entries ?enc [] c)) @ []" by (fastforce simp: writes_def)
  then have log1: "rev log1 = tar_of (chart_entries ?enc [] c)" by simp
  have "log = log1"
    using assms(1) w by (auto simp: archive_def try_io_def traced_chart_io_def quiet_def split: prod.splits sum.splits if_splits)
  have "(?p, cf_data t) \<in> set (chart_entries ?enc (join_str (dirs_above []) ''/'') c)"
    by (rule template_entry[OF _ assms(2-4)]) simp
  then obtain xs ys where "chart_entries ?enc [] c = xs @ (?p, cf_data t) # ys"
    by (auto simp: dirs_above_def dest: split_list)
  with log1 \<open>log = log1\<close> have "rev log = tar_of xs @ [Header ?p 493 (length (cf_data t)), Body (cf_data t)] @ tar_of ys"
    by (simp add: tar_of_def)
  then have "sublist [Header ?p 493 (length (cf_data t)), Body (cf_data t)] (rev log)"
    by (auto simp: sublist_def)
  moreover have "cs \<noteq> []" using charts_in_above[OF assms(3)] by auto
  then have "logic_path_for_file ?p = Inr cs"
    using template_path[OF _ _ assms(6-8)] assms(2,3,5) by fastforce
  ultimately show ?thesis by blast
qed

text \<open>A chart with one dependency, written without errors.\<close>

definition sts_file :: chart_file where
  "sts_file = \<lparr>cf_name = ''templates/sts.yaml'', cf_data = ''kind''\<rparr>"

definition db_chart :: chart where
  "db_chart = Chart (Some \<lparr>md_name = ''db'', md_rest = []\<rparr>) [sts_file] [] None []"

definition web_chart :: chart where
  "web_chart = Chart (Some \<lparr>md_name = ''web'', md_rest = []\<rparr>) [] [db_chart] None []"

definition good_writer :: "unit chart_io" where
  "good_writer =
     \<lparr>ci_load = (\<lambda>_. ret web_chart), ci_read_file = (\<lambda>_. ret []), ci_marshal = (\<lambda>_. Inr []),
      ci_header = (\<lambda>_ _ _. ret ()), ci_write = (\<lambda>_. ret ()), ci_close = ret (), ci_bytes = (\<lambda>_. ''tgz'')\<rparr>"

lemma archived_templates_are_found_example:
  "\<exists>log p. archive (traced_chart_io good_writer) web_chart ((), []) = (Inr ''tgz'', ((), log)) \<and>
     logic_path_for_file p = Inr [''web'', ''db''] \<and> sublist [Header p 493 4, Body ''kind''] (rev log)"
proof -
  have plain: "plain_elem ''web''" "plain_elem ''db''" "plain_elem ''sts.yaml''" by (simp_all add: plain_elem_def)
  have charts: "charts_in [] web_chart = [([''web''], web_chart), ([''web'', ''db''], db_chart)]"
    by (simp add: web_chart_def db_chart_def)
  obtain log where run: "archive (traced_chart_io good_writer) web_chart ((), []) = (Inr ''tgz'', ((), log))"
    by (simp add: archive_def web_chart_def db_chart_def sts_file_def try_io_def bind_io_def lift_result_def Let_def
        traced_chart_io_def good_writer_def write_to_tar_def logged_def ret_def quiet_def save_values_def save_files_def)
  have tpl: "sts_file \<in> set (ch_templates db_chart)" "cf_name sts_file = ''templates/'' @ join_str [''sts.yaml''] ''/''"
    "cf_data sts_file = ''kind''"
    by (simp_all add: db_chart_def sts_file_def)
  have "\<not> sublist templates_dir (tl templates_dir @ join_str [''sts.yaml''] ''/'')" by code_simp
  from archived_templates_are_found[OF run _ _ tpl(1,2) _ _ this, of "[''web'', ''db'']"]
  show ?thesis using run by (auto simp: charts plain tpl(3) eval_nat_numeral)
qed

section \<open>Lint\<close>

text \<open>
  \<open>lint\<close> says that a path is not in the standard exactly when some value stands there and the
  standard has none at that path, and that a value has a wrong type exactly when the standard has
  values at that path and none of that type; in whatever order the maps are ranged over.
\<close>

lemma lint_reports_types:
  assumes "unmarshal standard = Inr sk" and "unmarshal vs = Inr vk"
  shows "(NotInStandard p \<in> set (validate_values unmarshal standard vs) \<longleftrightarrow>
       (\<exists>t. (p, t) \<in> leaves [] (JObject vk)) \<and> \<not> (\<exists>t. (p, t) \<in> leaves [] (JObject sk))) \<and>
     ((\<exists>want. WrongType p t want \<in> set (validate_values unmarshal standard vs)) \<longleftrightarrow>
       (p, t) \<in> leaves [] (JObject vk) \<and> (p, t) \<notin> leaves [] (JObject sk) \<and>
       (\<exists>t'. (p, t') \<in> leaves [] (JObject sk)))"
proof -
  from validate_values_tables[OF assms] obtain st m where ok: "types_ok st" "types_ok m"
    and at: "\<And>p. types_at st p = {t. (p, t) \<in> leaves [] (JObject sk)}" "\<And>p. types_at m p = {t. (p, t) \<in> leaves [] (JObject vk)}"
    and reports: "validate_values unmarshal standard vs = concat (map (path_reports st) m)" by blast
  have missing: "NotInStandard p \<in> set (validate_values unmarshal standard vs) \<longleftrightarrow>
      (\<exists>ts. (p, ts) \<in> set m) \<and> types_at st p = {}"
    by (auto simp: reports Bex_def split_paired_Ex path_reports_iff(1)[OF ok(1)])
  have wrong: "WrongType p t want \<in> set (validate_values unmarshal standard vs) \<longleftrightarrow>
      (\<exists>ts. (p, ts) \<in> set m \<and> t \<in> set ts) \<and> t \<notin> types_at st p \<and> map_of st p = Some want" for want
    by (auto simp: reports Bex_def split_paired_Ex path_reports_iff(2)[OF ok(1)])
  have some: "(\<exists>want. map_of st p = Some want) \<longleftrightarrow> types_at st p \<noteq> {}"
    using types_at_entry[OF ok(1), of p] types_ok_mem[OF ok(1)] by simp
  show ?thesis
    using types_at_entry[OF ok(2), of p] types_at_table[OF ok(2), of t p] some
    by (auto simp: missing wrong at)
qed

definition demo_unmarshal :: unmarshal_map where
  "demo_unmarshal s = Inr (if s = ''standard'' then [(''n'', JNumber ''1'')]
     else [(''n'', JString ''one''), (''x'', JArray [JBool True])])"

lemma lint_reports_types_example:
  "NotInStandard ''.x[]'' \<in> set (validate_values demo_unmarshal ''standard'' ''values'') \<and>
   (\<exists>want. WrongType ''.n'' ''string'' want \<in> set (validate_values demo_unmarshal ''standard'' ''values''))"
proof -
  have vs: "demo_unmarshal ''standard'' = Inr [(''n'', JNumber ''1'')]"
    "demo_unmarshal ''values'' = Inr [(''n'', JString ''one''), (''x'', JArray [JBool True])]"
    by (simp_all add: demo_unmarshal_def)
  from lint_reports_types[OF vs, of "''.x[]''"] lint_reports_types[OF vs, of "''.n''" "''string''"] show ?thesis
    by simp
qed

section \<open>Printing\<close>

lemma range_over_map_of:
  "distinct (map fst c) \<Longrightarrow> distinct (map fst (range_over rng c)) \<and> map_of (range_over rng c) = map_of c"
proof -
  assume d: "distinct (map fst c)"
  have "mset (map fst (range_over rng c)) = mset (map fst c)" by simp
  with d have "distinct (map fst (range_over rng c))" by (metis mset_eq_imp_distinct_iff)
  with d show ?thesis by (metis map_of_inject_set set_range_over)
qed

text \<open>
  \<open>list\<close> prints one row per release of the namespace: NO exactly when one of its conditions, not
  only the first, is a failure, and each phase that some resource of some node records exactly once,
  with the sum of its counts over all nodes and kinds, in whatever orders the maps are ranged over.
\<close>

lemma list_totals:
  assumes "run_list connect list_releases ord opts (s, out) = (Inr (), (s', out'))"
  shows "\<exists>items rows. (\<exists>s1. list_releases (cli_namespace opts) s1 = (Inr items, s')) \<and>
     out' = out @ print_table ([''NAMESPACE'', ''NAME'', ''VALID'', ''STATUS''] # rows) \<and>
     list_all2 (\<lambda>r row. \<exists>tot. row = [rel_namespace r, rel_name r,
           if \<exists>c \<in> set (st_conditions (rel_status r)). co_type c = ReleaseFailure then ''NO'' else ''YES'',
           join_str (map counter_entry tot) '',''] \<and>
         distinct (map fst tot) \<and>
         (\<forall>p. map_of tot p = (if p \<in> fst ` set (recorded_counts r) then Some (sum_phase p (recorded_counts r)) else None)))
       items rows"
proof -
  obtain s1 items where run: "list_releases (cli_namespace opts) s1 = (Inr items, s')"
    and out: "out' = out @ print_table (list_table ord items)"
    using assms by (auto simp: run_list_def bind_io_def quiet_def lift_result_def print_text_def modify_st_def split: prod.splits sum.splits)
  let ?row = "\<lambda>r. [rel_namespace r, rel_name r, valid_text r, print_counter ord (release_counter ord r)]"
  have "\<exists>tot. ?row r = [rel_namespace r, rel_name r,
           if \<exists>c \<in> set (st_conditions (rel_status r)). co_type c = ReleaseFailure then ''NO'' else ''YES'',
           join_str (map counter_entry tot) '',''] \<and> distinct (map fst tot) \<and>
         (\<forall>p. map_of tot p = (if p \<in> fst ` set (recorded_counts r) then Some (sum_phase p (recorded_counts r)) else None))" for r
    using release_counter_totals[of ord r] range_over_map_of[of "release_counter ord r" "po_counter ord"]
    by (intro exI[of _ "range_over (po_counter ord) (release_counter ord r)"]) (simp add: valid_text_iff print_counter_def)
  then have "list_all2 (\<lambda>r row. \<exists>tot. row = [rel_namespace r, rel_name r,
           if \<exists>c \<in> set (st_conditions (rel_status r)). co_type c = ReleaseFailure then ''NO'' else ''YES'',
           join_str (map counter_entry tot) '',''] \<and> distinct (map fst tot) \<and>
         (\<forall>p. map_of tot p = (if p \<in> fst ` set (recorded_counts r) then Some (sum_phase p (recorded_counts r)) else None)))
       items (map ?row items)" by (simp add: list_all2_map2 list.rel_refl)
  with run out show ?thesis unfolding list_table_def by blast
qed

definition plain_order :: print_order where
  "plain_order = \<lparr>po_details = rev, po_resources = id, po_counter = rev\<rparr>"

definition two_nodes :: release where
  "two_nodes = web\<lparr>rel_status := (rel_status web)\<lparr>st_details := Some
     [(''a'', \<lparr>ds_path = ''/a'', ds_resources = [(''Service'', [(ResourceRunning, 2)])], ds_reason = [], ds_message = []\<rparr>),
      (''b'', \<lparr>ds_path = ''/b'', ds_resources = [(''Job'', [(ResourceRunning, 1), (ResourceFailed, 1)])],
        ds_reason = [], ds_message = []\<rparr>)]\<rparr>\<rparr>"

definition cli_access :: cli_options where
  "cli_access = \<lparr>cli_server = [], cli_token = [], cli_kubeconfig = ''config'', cli_namespace = ''ns''\<rparr>"

lemma list_totals_example:
  "\<exists>row tot. row ! 3 = join_str (map counter_entry tot) '','' \<and> map_of tot ResourceRunning = Some 3 \<and>
     map_of tot ResourcePending = None \<and>
     run_list (\<lambda>_. ret ()) (\<lambda>_. ret [two_nodes]) plain_order cli_access ((), []) =
       (Inr (), ((), print_table [[''NAMESPACE'', ''NAME'', ''VALID'', ''STATUS''], row]))"
proof -
  have run: "run_list (\<lambda>_. ret ()) (\<lambda>_. ret [two_nodes]) plain_order cli_access ((), []) =
      (Inr (), ((), print_table (list_table plain_order [two_nodes])))"
    by (simp add: run_list_def bind_io_def quiet_def lift_result_def print_text_def modify_st_def ret_def check_access_def cli_access_def)
  have "recorded_counts two_nodes = [(ResourceRunning, 2), (ResourceRunning, 1), (ResourceFailed, 1)]"
    by (simp add: recorded_counts_def two_nodes_def)
  then have "sum_phase ResourceRunning (recorded_counts two_nodes) = 3"
    "fst ` set (recorded_counts two_nodes) = {ResourceRunning, ResourceFailed}" by (simp_all add: sum_phase_def)
  note sums = this
  from list_totals[OF run] obtain rows where
    out: "print_table (list_table plain_order [two_nodes]) = print_table ([''NAMESPACE'', ''NAME'', ''VALID'', ''STATUS''] # rows)"
    and rows: "list_all2 (\<lambda>r row. \<exists>tot. row = [rel_namespace r, rel_name r,
           if \<exists>c \<in> set (st_conditions (rel_status r)). co_type c = ReleaseFailure then ''NO'' else ''YES'',
           join_str (map counter_entry tot) '',''] \<and> distinct (map fst tot) \<and>
         (\<forall>p. map_of tot p = (if p \<in> fst ` set (recorded_counts r) then Some (sum_phase p (recorded_counts r)) else None)))
       [two_nodes] rows" by (auto simp: ret_def)
  then obtain row tot where "rows = [row]" "row ! 3 = join_str (map counter_entry tot) '',''"
    "\<forall>p. map_of tot p = (if p \<in> fst ` set (recorded_counts two_nodes) then Some (sum_phase p (recorded_counts two_nodes)) else None)"
    by (auto simp: list_all2_Cons1)
  with run out sums show ?thesis by (intro exI[of _ row] exI[of _ tot]) simp
qed

text \<open>
  The template that \<open>get\<close> prints with details is cut off: the encoder is never closed, so what is
  printed decodes to the template without its last one or two bytes when its length is no multiple of
  three. The manifest that follows is printed in full.
\<close>

lemma get_truncates_template:
  assumes "run_get connect get_release json_to_yaml time_text ord opts True args (s, out) = (Inr (), (s', out'))"
  shows "\<exists>r before encoded. (\<exists>s1. get_release (cli_namespace opts) (hd args) s1 = (Inr r, s')) \<and>
     out' = out @ before @ ''Template:'' @ newline @ encoded @ newline @ ''Manifest:'' @ newline @
       st_manifest (rel_status r) @ newline \<and>
     base64_decode encoded = take (3 * (length (template_text r) div 3)) (template_text r)"
proof -
  obtain s1 r before where "get_release (cli_namespace opts) (hd args) s1 = (Inr r, s')"
    and "out' = out @ before @ detail_text r"
    using assms by (auto simp: run_get_def bind_io_def quiet_def lift_result_def print_text_def modify_st_def fail_def
        split: prod.splits sum.splits if_splits)
  then show ?thesis
    by (intro exI[of _ r] exI[of _ before] exI[of _ "encoder_write (template_text r)"])
      (auto simp: detail_text_def encoder_decodes)
qed

lemma get_truncates_template_example:
  "\<exists>out before encoded.
     run_get (\<lambda>_. ret ()) (\<lambda>_ _. ret (web\<lparr>rel_spec := (rel_spec web)\<lparr>rs_template := Some ''abcde''\<rparr>\<rparr>)) Inr (\<lambda>_. ''now'')
       plain_order cli_access True [''web''] ((), []) = (Inr (), ((), out)) \<and>
     out = before @ ''Template:'' @ newline @ encoded @ newline @ ''Manifest:'' @ newline @ st_manifest (rel_status web) @ newline \<and>
     base64_decode encoded = ''abc''"
proof -
  let ?r = "web\<lparr>rel_spec := (rel_spec web)\<lparr>rs_template := Some ''abcde''\<rparr>\<rparr>"
  obtain out where run: "run_get (\<lambda>_. ret ()) (\<lambda>_ _. ret ?r) Inr (\<lambda>_. ''now'') plain_order cli_access True [''web''] ((), []) =
      (Inr (), ((), out))"
    by (simp add: run_get_def bind_io_def quiet_def lift_result_def print_text_def modify_st_def ret_def check_server_def cli_access_def)
  have "template_text ?r = ''abcde''" by (simp add: template_text_def)
  with get_truncates_template[OF run] run show ?thesis by (fastforce simp: ret_def)
qed

end
