(* ===== verification/CLI_Commands.thy ===== *)
theory CLI_Commands
  imports CLI_Printing Release_CLI
begin

text \<open>
  The commands of \<open>cmd/release-cli\<close> as their \<open>init\<close> functions register them: the flags with names,
  shorthands and defaults and the option each of them writes, the function each command runs, and
  \<open>main\<close> with the flags of the logger. What is modelled of pflag is the registration of a flag;
  cutting the command line into flags with their values and arguments is left to it.
\<close>

section \<open>Registering flags\<close>

datatype flag_value = FlagString string | FlagBool bool

record 'o flag =
  fl_name :: string
  fl_short :: string
  fl_default :: flag_value
  fl_usage :: string
  fl_write :: "flag_value \<Rightarrow> 'o \<Rightarrow> 'o"

text \<open>\<open>StringVarP\<close> and \<open>BoolVarP\<close> on an option; the defaults are empty and false.\<close>

definition string_var :: "string \<Rightarrow> string \<Rightarrow> string \<Rightarrow> (string \<Rightarrow> 'o \<Rightarrow> 'o) \<Rightarrow> 'o flag" where
  "string_var nm short usage write =
     \<lparr>fl_name = nm, fl_short = short, fl_default = FlagString [], fl_usage = usage,
      fl_write = (\<lambda>v opts. case v of FlagString s \<Rightarrow> write s opts | FlagBool _ \<Rightarrow> opts)\<rparr>"

definition bool_var :: "string \<Rightarrow> string \<Rightarrow> string \<Rightarrow> (bool \<Rightarrow> 'o \<Rightarrow> 'o) \<Rightarrow> 'o flag" where
  "bool_var nm short usage write =
     \<lparr>fl_name = nm, fl_short = short, fl_default = FlagBool False, fl_usage = usage,
      fl_write = (\<lambda>v opts. case v of FlagBool b \<Rightarrow> write b opts | FlagString _ \<Rightarrow> opts)\<rparr>"

record flag_set =
  fs_formal :: "string list"
  fs_shorthands :: "(string \<times> string) list"

definition new_flag_set :: flag_set where
  "new_flag_set = \<lparr>fs_formal = [], fs_shorthands = []\<rparr>"

text \<open>\<open>FlagSet.AddFlag\<close> of pflag panics on a name or a shorthand that is taken.\<close>

definition add_flag :: "string \<Rightarrow> string \<Rightarrow> flag_set \<Rightarrow> error + flag_set" where
  "add_flag nm short fs =
     (if nm \<in> set (fs_formal fs) then Inl (Panic (''flag redefined: '' @ nm))
      else let fs' = fs\<lparr>fs_formal := fs_formal fs @ [nm]\<rparr>
           in if short = [] then Inr fs'
              else if 1 < length short then Inl (Panic ''shorthand is more than one ASCII character'')
              else case map_of (fs_shorthands fs) short of
                     Some used \<Rightarrow> Inl (Panic (''it's already used for '' @ used))
                   | None \<Rightarrow> Inr (fs'\<lparr>fs_shorthands := fs_shorthands fs @ [(short, nm)]\<rparr>))"

text \<open>An \<open>init\<close> function: every flag gives its option the default and is registered.\<close>

fun register :: "'o flag list \<Rightarrow> 'o \<Rightarrow> flag_set \<Rightarrow> error + ('o \<times> flag_set)" where
  "register [] opts fs = Inr (opts, fs)"
| "register (f # fl) opts fs =
     (case add_flag (fl_name f) (fl_short f) fs of
        Inl e \<Rightarrow> Inl e
      | Inr fs' \<Rightarrow> register fl (fl_write f (fl_default f) opts) fs')"

text \<open>\<open>FlagSet.AddFlagSet\<close> skips the names that are there; cobra adds the flags of the parents and help.\<close>

fun add_flags_of :: "(string \<times> string) list \<Rightarrow> flag_set \<Rightarrow> error + flag_set" where
  "add_flags_of [] fs = Inr fs"
| "add_flags_of ((nm, short) # others) fs =
     (if nm \<in> set (fs_formal fs) then add_flags_of others fs
      else bind_result (add_flag nm short fs) (add_flags_of others))"

text \<open>What the flags on the command line write, one after the other.\<close>

fun set_flags :: "'o flag list \<Rightarrow> (string \<times> flag_value) list \<Rightarrow> 'o \<Rightarrow> error + 'o" where
  "set_flags fl [] opts = Inr opts"
| "set_flags fl ((nm, v) # given) opts =
     (case find (\<lambda>f. fl_name f = nm) fl of
        None \<Rightarrow> Inl (Errorf (''unknown flag: --'' @ nm))
      | Some f \<Rightarrow> set_flags fl given (fl_write f v opts))"

section \<open>Options\<close>

definition no_access :: cli_options where
  "no_access = \<lparr>cli_server = [], cli_token = [], cli_kubeconfig = [], cli_namespace = []\<rparr>"

record create_options =
  co_access :: cli_options
  co_values :: string
  co_template :: string

definition new_create_options :: create_options where
  "new_create_options = \<lparr>co_access = no_access, co_values = [], co_template = []\<rparr>"

definition delete_options_of :: cli_options where
  "delete_options_of = no_access"

definition list_options :: cli_options where
  "list_options = no_access"

record get_options_cli =
  gc_access :: cli_options
  gc_detail :: bool

definition new_get_options :: get_options_cli where
  "new_get_options = \<lparr>gc_access = no_access, gc_detail = False\<rparr>"

definition new_lint_options :: lint_options where
  "new_lint_options = \<lparr>lt_values = [], lt_template = [], lt_detail = False, lt_standard = []\<rparr>"

section \<open>The flags of the commands\<close>

definition create_flags :: "create_options flag list" where
  "create_flags =
     [string_var ''server'' ''s'' ''Kubernetes master host'' (\<lambda>s x. x\<lparr>co_access := (co_access x)\<lparr>cli_server := s\<rparr>\<rparr>),
      string_var ''bearer-token'' ''b'' ''Kubernetes master bearer token'' (\<lambda>s x. x\<lparr>co_access := (co_access x)\<lparr>cli_token := s\<rparr>\<rparr>),
      string_var ''namespace'' ''n'' ''Kubernetes namespace'' (\<lambda>s x. x\<lparr>co_access := (co_access x)\<lparr>cli_namespace := s\<rparr>\<rparr>),
      string_var ''values'' ''c'' ''Chart values file path. Override values.yaml in template'' (\<lambda>s x. x\<lparr>co_values := s\<rparr>),
      string_var ''template'' ''t'' ''Chart template file path. Can be a tgz package or a chart directory'' (\<lambda>s x. x\<lparr>co_template := s\<rparr>),
      string_var ''kubeconfig'' ''k'' ''Kubernetes config path'' (\<lambda>s x. x\<lparr>co_access := (co_access x)\<lparr>cli_kubeconfig := s\<rparr>\<rparr>)]"

definition delete_flags :: "cli_options flag list" where
  "delete_flags =
     [string_var ''server'' ''s'' ''Kubernetes master host'' (\<lambda>s x. x\<lparr>cli_server := s\<rparr>),
      string_var ''bearer-token'' ''b'' ''Kubernetes master bearer token'' (\<lambda>s x. x\<lparr>cli_token := s\<rparr>),
      string_var ''namespace'' ''n'' ''Kubernetes namespace'' (\<lambda>s x. x\<lparr>cli_namespace := s\<rparr>),
      string_var ''kubeconfig'' ''k'' ''Kubernetes config path'' (\<lambda>s x. x\<lparr>cli_kubeconfig := s\<rparr>)]"

definition list_flags :: "cli_options flag list" where
  "list_flags =
     [string_var ''server'' ''s'' ''Kubernetes master host'' (\<lambda>s x. x\<lparr>cli_server := s\<rparr>),
      string_var ''bearer-token'' ''b'' ''Kubernetes master bearer token'' (\<lambda>s x. x\<lparr>cli_token := s\<rparr>),
      string_var ''namespace'' ''n'' ''Kubernetes namespace'' (\<lambda>s x. x\<lparr>cli_namespace := s\<rparr>),
      string_var ''kubeconfig'' ''k'' ''Kubernetes config path'' (\<lambda>s x. x\<lparr>cli_kubeconfig := s\<rparr>)]"

definition get_flags :: "get_options_cli flag list" where
  "get_flags =
     [string_var ''server'' ''s'' ''Kubernetes master host'' (\<lambda>s x. x\<lparr>gc_access := (gc_access x)\<lparr>cli_server := s\<rparr>\<rparr>),
      string_var ''bearer-token'' ''b'' ''Kubernetes master bearer token'' (\<lambda>s x. x\<lparr>gc_access := (gc_access x)\<lparr>cli_token := s\<rparr>\<rparr>),
      string_var ''namespace'' ''n'' ''Kubernetes namespace'' (\<lambda>s x. x\<lparr>gc_access := (gc_access x)\<lparr>cli_namespace := s\<rparr>\<rparr>),
      bool_var ''detail'' ''d'' ''Show details'' (\<lambda>b x. x\<lparr>gc_detail := b\<rparr>),
      string_var ''kubeconfig'' ''k'' ''Kubernetes config path'' (\<lambda>s x. x\<lparr>gc_access := (gc_access x)\<lparr>cli_kubeconfig := s\<rparr>\<rparr>)]"

definition lint_flags :: "lint_options flag list" where
  "lint_flags =
     [string_var ''values'' ''c'' ''Chart values file path. Override values.yaml in template'' (\<lambda>s x. x\<lparr>lt_values := s\<rparr>),
      string_var ''standard'' ''s'' ''Standard Chart values file path'' (\<lambda>s x. x\<lparr>lt_standard := s\<rparr>),
      string_var ''template'' ''t'' ''Chart template file path. Can be a tgz package or a chart directory'' (\<lambda>s x. x\<lparr>lt_template := s\<rparr>),
      bool_var ''detail'' ''d'' ''Show details'' (\<lambda>b x. x\<lparr>lt_detail := b\<rparr>)]"

section \<open>The commands\<close>

text \<open>What a command is used by, what it is for, and what it runs on its options and arguments.\<close>

record ('o, 'r) command =
  cmd_use :: string
  cmd_short :: string
  cmd_run :: "'o \<Rightarrow> string list \<Rightarrow> 'r"

definition create_command ::
  "'s chart_io \<Rightarrow> (cli_options \<Rightarrow> ('s, unit) io) \<Rightarrow> (string \<Rightarrow> release \<Rightarrow> ('s, release) io)
     \<Rightarrow> (create_options, ('s, release) io) command" where
  "create_command ci connect send =
     \<lparr>cmd_use = ''create'', cmd_short = ''Create a release into kubernetes cluster'',
      cmd_run = (\<lambda>x args. run_create ci connect send (co_access x) (co_template x) (co_values x) args)\<rparr>"

definition delete_command ::
  "(cli_options \<Rightarrow> ('s, unit) io) \<Rightarrow> (string \<Rightarrow> string \<Rightarrow> ('s, unit) io) \<Rightarrow> (cli_options, ('s, unit) io) command" where
  "delete_command connect send =
     \<lparr>cmd_use = ''delete'', cmd_short = ''Delete a release from kubernetes cluster'', cmd_run = run_delete connect send\<rparr>"

definition list_command ::
  "(cli_options \<Rightarrow> ('s, unit) io) \<Rightarrow> (string \<Rightarrow> ('s, release list) io) \<Rightarrow> print_order
     \<Rightarrow> (cli_options, ('s \<times> string, unit) io) command" where
  "list_command connect list_releases ord =
     \<lparr>cmd_use = ''list'', cmd_short = ''List releases from a kubernetes cluster'',
      cmd_run = (\<lambda>x args. run_list connect list_releases ord x)\<rparr>"

definition get_command ::
  "(cli_options \<Rightarrow> ('s, unit) io) \<Rightarrow> (string \<Rightarrow> string \<Rightarrow> ('s, release) io) \<Rightarrow> (string \<Rightarrow> error + string)
     \<Rightarrow> (int \<Rightarrow> string) \<Rightarrow> print_order \<Rightarrow> (get_options_cli, ('s \<times> string, unit) io) command" where
  "get_command connect get_release json_to_yaml time_text ord =
     \<lparr>cmd_use = ''get'', cmd_short = ''Get a release from kubernetes cluster'',
      cmd_run = (\<lambda>x args. run_get connect get_release json_to_yaml time_text ord (gc_access x) (gc_detail x) args)\<rparr>"

definition lint_command ::
  "'s chart_io \<Rightarrow> ('c, 'v) render_env \<Rightarrow> child_order \<Rightarrow> unmarshal_map
     \<Rightarrow> (lint_options, ('s, lint_report list \<times> string option) io) command" where
  "lint_command ci env ord unmarshal =
     \<lparr>cmd_use = ''lint'', cmd_short = ''Lint checks if a chart is right'',
      cmd_run = (\<lambda>x args. run_lint ci env ord unmarshal x)\<rparr>"

text \<open>
  \<open>main\<close>: the Go flags become persistent flags of the root, a one-letter name being its own shorthand,
  and logging to standard error becomes the default. The lookup panics when the flag is missing.
\<close>

definition persistent_flags :: "(string \<times> string) list \<Rightarrow> (string \<times> string \<times> string) list" where
  "persistent_flags go_flags = map (\<lambda>(nm, v). (nm, if length nm = 1 then nm else [], v)) go_flags"

definition cli_main :: "(string \<times> string) list \<Rightarrow> error + (string \<times> string \<times> string) list" where
  "cli_main go_flags =
     (let fl = persistent_flags go_flags
      in if list_ex (\<lambda>f. fst f = ''logtostderr'') fl
         then Inr (map (\<lambda>(nm, short, v). (nm, short, if nm = ''logtostderr'' then ''true'' else v)) fl)
         else Inl (Panic ''nil pointer dereference''))"

text \<open>A command line that names a command: its flags write its options, then it runs.\<close>

definition execute :: "'o flag list \<Rightarrow> 'o \<Rightarrow> ('o, ('s, 'a) io) command \<Rightarrow> (string \<times> flag_value) list \<Rightarrow> string list
     \<Rightarrow> ('s, 'a) io" where
  "execute fl opts cmd given args = bind_io (lift_result (set_flags fl given opts)) (\<lambda>x. cmd_run cmd x args)"

section \<open>Facts\<close>

definition glog_flags :: "(string \<times> string) list" where
  "glog_flags =
     [(''logtostderr'', ''false''), (''alsologtostderr'', ''false''), (''v'', ''0''), (''stderrthreshold'', ''2''),
      (''vmodule'', []), (''log_backtrace_at'', '':0''), (''log_dir'', [])]"

text \<open>The flags a command has when it is executed: its own, those of the root, and help.\<close>

definition merged_flags :: "'o flag list \<Rightarrow> 'o \<Rightarrow> (string \<times> string) list \<Rightarrow> error + ('o \<times> flag_set)" where
  "merged_flags fl opts go_flags =
     bind_result (register fl opts new_flag_set) (\<lambda>(x, fs).
     bind_result (add_flags_of (map (\<lambda>(nm, short, _). (nm, short)) (persistent_flags go_flags) @ [(''help'', ''h'')]) fs)
       (\<lambda>fs'. Inr (x, fs')))"

text \<open>No name and no shorthand is taken twice, whatever was registered before.\<close>

lemma register_Inr:
  assumes "distinct (fs_formal fs @ map fl_name fl)"
    and "distinct (map fst (fs_shorthands fs) @ map fl_short fl)" and "\<forall>f \<in> set fl. length (fl_short f) = 1"
  shows "\<exists>opts'. register fl opts fs = Inr (opts', \<lparr>fs_formal = fs_formal fs @ map fl_name fl,
     fs_shorthands = fs_shorthands fs @ map (\<lambda>f. (fl_short f, fl_name f)) fl\<rparr>)"
  using assms
proof (induction fl arbitrary: opts fs)
  case Nil
  then show ?case by simp
next
  case (Cons f fl)
  have "map_of (fs_shorthands fs) (fl_short f) = None" using Cons.prems(2) by (auto simp: map_of_eq_None_iff)
  moreover have "fl_short f \<noteq> []" using Cons.prems(3) by auto
  ultimately have "add_flag (fl_name f) (fl_short f) fs = Inr (fs\<lparr>fs_formal := fs_formal fs @ [fl_name f],
      fs_shorthands := fs_shorthands fs @ [(fl_short f, fl_name f)]\<rparr>)"
    using Cons.prems by (simp add: add_flag_def)
  with Cons.IH[of "fs\<lparr>fs_formal := fs_formal fs @ [fl_name f], fs_shorthands := fs_shorthands fs @ [(fl_short f, fl_name f)]\<rparr>"] Cons.prems
  show ?case by simp
qed

text \<open>
  Every command registers its flags, and takes the flags of the logger and help, without a panic, and
  starts with the options empty.
\<close>

definition registers :: "'o flag list \<Rightarrow> 'o \<Rightarrow> bool" where
  "registers fl opts = (case merged_flags fl opts glog_flags of Inl _ \<Rightarrow> False | Inr (x, fs) \<Rightarrow> x = opts)"

lemma commands_register:
  "registers create_flags new_create_options" "registers delete_flags delete_options_of" "registers list_flags list_options"
  "registers get_flags new_get_options" "registers lint_flags new_lint_options"
  by code_simp+

text \<open>The value that was given last for a flag.\<close>

fun last_given :: "string \<Rightarrow> (string \<times> flag_value) list \<Rightarrow> string \<Rightarrow> string" where
  "last_given nm [] s = s"
| "last_given nm ((n, v) # given) s =
     last_given nm given (if n = nm then (case v of FlagString t \<Rightarrow> t | FlagBool _ \<Rightarrow> s) else s)"

definition given_options :: "(string \<times> flag_value) list \<Rightarrow> create_options \<Rightarrow> create_options" where
  "given_options given opts =
     \<lparr>co_access =
        \<lparr>cli_server = last_given ''server'' given (cli_server (co_access opts)),
         cli_token = last_given ''bearer-token'' given (cli_token (co_access opts)),
         cli_kubeconfig = last_given ''kubeconfig'' given (cli_kubeconfig (co_access opts)),
         cli_namespace = last_given ''namespace'' given (cli_namespace (co_access opts))\<rparr>,
      co_values = last_given ''values'' given (co_values opts),
      co_template = last_given ''template'' given (co_template opts)\<rparr>"

lemma create_flag_writes:
  assumes "f \<in> set create_flags"
  shows "given_options given (fl_write f v opts) = given_options ((fl_name f, v) # given) opts"
  using assms
  by (cases v) (auto simp: create_flags_def string_var_def given_options_def)

lemma create_options_given: "set_flags create_flags given opts = Inr x \<Longrightarrow> x = given_options given opts"
proof (induction given arbitrary: opts)
  case Nil
  then show ?case by (simp add: given_options_def)
next
  case (Cons p given)
  obtain nm v where p: "p = (nm, v)" by (cases p)
  from Cons.prems obtain f where f: "find (\<lambda>f. fl_name f = nm) create_flags = Some f"
    and rest: "set_flags create_flags given (fl_write f v opts) = Inr x"
    by (auto simp: p split: option.splits)
  from f have "f \<in> set create_flags" "fl_name f = nm" by (auto simp: find_Some_iff)
  with create_flag_writes[of f given v opts] Cons.IH[OF rest] show ?case by (simp add: p)
qed

text \<open>What \<open>create\<close> sends is what the command line gave, the last value of a flag given twice.\<close>

lemma create_sends_given:
  assumes "execute create_flags new_create_options (create_command ci connect send) given args s = (Inr r, s')"
  shows "\<exists>tpl config s1 s2 nm. args = [nm] \<and> last_given ''namespace'' given [] \<noteq> [] \<and>
     load_chart ci (last_given ''template'' given []) (last_given ''values'' given []) s = (Inr (tpl, config), s1) \<and>
     send (last_given ''namespace'' given []) (cli_release nm config tpl) s2 = (Inr r, s')"
proof -
  obtain x where x: "set_flags create_flags given new_create_options = Inr x"
    and run: "run_create ci connect send (co_access x) (co_template x) (co_values x) args s = (Inr r, s')"
    using assms by (auto simp: execute_def bind_io_def lift_result_def create_command_def split: sum.splits)
  from create_options_given[OF x] have opts: "cli_namespace (co_access x) = last_given ''namespace'' given []"
    "co_template x = last_given ''template'' given []" "co_values x = last_given ''values'' given []"
    by (simp_all add: given_options_def new_create_options_def no_access_def)
  from run show ?thesis
    unfolding opts[symmetric]
    by (auto simp: run_create_def bind_io_def lift_result_def fail_def check_server_def split: sum.splits prod.splits if_splits)
      (cases args; auto)+
qed

end
