(* ===== verification/Spec2Isabelle.thy ===== *)
theory Spec2Isabelle
  imports Kube_Properties Store_Properties Render_Properties Release_Properties Controller_Properties
    System_Properties Handler_Properties Storage_Server Handler_World Release_Wiring Status_Beside Tool_Properties CLI_Commands
begin

text \<open>
  A model of \<^bold>\<open>Rudder\<close>, a Kubernetes controller in Go that turns releases (custom resources naming
  a Helm chart, a configuration and a rollback request) into objects of a cluster, keeps a history of
  every release, reports the state of its objects and removes the ones it no longer asks for.

  \<^bold>\<open>The parts and how they interact.\<close> The release controller takes the keys of changed releases from
  a work queue and hands each release to the release manager, which runs one handler per release. The
  handler applies the newest release it got: it chooses a version from the histories in the storage,
  renders the chart to a carrier of resources, merges them to a manifest, lets the cluster client
  apply it under the ownership of the release, and records version and condition in the storage. The
  client and the storage note what they wrote in the layers of the integration store, which answer
  reads until the informers have caught up. The garbage collector follows the objects owned by
  releases and deletes those that a release's manifest does not name; the status controller looks up
  every resource of a manifest, in the order of the tree of charts, and patches the status of the release.

  \<^bold>\<open>Conventions.\<close> A method that can fail and changes state is a function of the type \<open>('s, 'a) io\<close> of
  \<open>Prelude\<close>: from a state to \<open>error + 'a\<close> and a new state; \<open>bind_io\<close> is the code's early return on an
  error, \<open>try_io\<close> the code that looks at the error. A panic is the error \<open>Panic\<close>. Records are structs
  with their fields prefixed, maps are association lists (Go leaves the order of iteration open; where
  it matters a parameter or a relation ranges over it), \<open>int32\<close>, \<open>int64\<close> and \<open>int8\<close> are words, strings are
  byte lists. Goroutines are relations that admit every interleaving of the calls between which they
  can be preempted. The API server, the decoder and the serializer of objects, the patch routines,
  the chart engine, the informers and the clock are functions in the records \<open>kube_env\<close>, \<open>storage_env\<close>,
  \<open>gc_env\<close>, \<open>status_env\<close>, \<open>codec\<close>: arguments of every definition that uses them. They stand for
  packages outside the repository; what is needed of them is a hypothesis of the theorem that needs it.

  \<^bold>\<open>Theories.\<close>
  \<^item> \<open>Prelude\<close>: errors, the \<open>io\<close> type with its weakest preconditions (\<open>wp\<close>), association lists.
    \<open>Go_Strings\<close>: the routines of \<open>strings\<close>, \<open>strconv\<close>, \<open>path\<close> and \<open>sort\<close> the code calls.
  \<^item> \<open>Kube_Objects\<close>: the API types. \<open>Kube_Codec\<close>: \<open>pkg/kube/codec.go\<close>. \<open>Kube_Sorter\<close>:
    \<open>pkg/kube/sorter.go\<close>. \<open>Kube_Appliers\<close>: \<open>pkg/kube/apply\<close>. \<open>Specified_IPs\<close>: \<open>pkg/kube/specified_ip_util.go\<close>.
    \<open>API_Resources\<close>: \<open>pkg/kube/resource.go\<close> and \<open>rest.go\<close>.
  \<^item> \<open>Kube_Interfaces\<close>: the interfaces \<open>CacheLayers\<close> and \<open>CacheLayer\<close>. \<open>Kube_Client\<close>:
    \<open>pkg/kube/client.go\<close>, \<open>options.go\<close> and \<open>specified_ip.go\<close>. \<open>Client_Traces\<close>: the logged client, and
    what justifies each request. \<open>Client_Caching\<close>: the client over layers that keep their contract.
  \<^item> \<open>Cache_Layer\<close> and \<open>Integration_Store\<close>: \<open>pkg/store/store.go\<close>.
  \<^item> \<open>Render_Tree\<close>: \<open>pkg/render/util.go\<close> and the tree of \<open>tree.go\<close>. \<open>Render_Exec\<close>: \<open>treeCarrier.Run\<close>.
    \<open>Render_Paths\<close>: the paths of the nodes. \<open>Render_Chart\<close>: \<open>pkg/render/render.go\<close>.
  \<^item> \<open>Release_Interfaces\<close> and \<open>Release_Storage\<close>: \<open>pkg/storage\<close>. \<open>Release_Apply\<close>: \<open>pkg/release/apply.go\<close>
    and \<open>util.go\<close>. \<open>Release_Handler\<close>: \<open>pkg/release/handler.go\<close> and \<open>release.go\<close>.
  \<^item> \<open>Work_Queue\<close> and \<open>Controller_Keys\<close>: what is used of client-go. \<open>Release_Controller\<close>,
    \<open>Garbage_Collector\<close> (the table and \<open>collect\<close>), \<open>Collector_Loop\<close> (its workers, informers and
    resync), \<open>Status_Controller\<close>: \<open>pkg/controller\<close>.
  \<^item> \<open>Release_System\<close>: the release controller, its manager and the goroutines of all handlers, also of
    those that were stopped, as one step relation, with its invariant.
  \<^item> \<open>Storage_Server\<close>: the storage over a server that merges patches, and the properties of both together.
    \<open>Handler_World\<close>: one release handler, the releases that are reported to it and the server it
    writes to, as one step relation.
  \<^item> \<open>Release_Wiring\<close>: the program that \<open>NewReleaseController\<close> puts together from the client, its pool,
    the layers and the storage, over one state. \<open>Status_Beside\<close>: the status controller beside the handler.
  \<^item> \<open>Controller_Setup\<close>: \<open>cmd/controller/app\<close>, from the options to \<open>Run\<close>, and the constructors of the
    controllers. \<open>Chart_Archive\<close>: \<open>cmd/release-cli/util.go\<close>. \<open>Release_CLI\<close>: the commands \<open>lint\<close>, \<open>create\<close>
    and \<open>delete\<close>. \<open>CLI_Printing\<close>: \<open>list\<close>, \<open>get\<close> and \<open>printer.go\<close>. \<open>CLI_Commands\<close>: the commands with
    their flags and \<open>main\<close>.
  \<^item> \<open>Kube_Properties\<close>, \<open>Store_Properties\<close>, \<open>Render_Properties\<close>, \<open>Release_Properties\<close>,
    \<open>Controller_Properties\<close>, \<open>System_Properties\<close>, \<open>Handler_Properties\<close>, \<open>Tool_Properties\<close>: the properties, each with a concrete run that meets its hypotheses.

  \<^bold>\<open>Interfaces.\<close> \<open>read_your_creates\<close> (Kube_Interfaces) is what the client relies on in the layers: an
  object recorded as created is what the next read returns; the integration store interprets it.
  \<open>release_backend\<close> (Release_Interfaces) is what applying a release relies on in the storage: the listed
  histories are its own and descend in their versions, and a successful call returns the release that is kept;
  \<open>releaseStorage\<close> interprets it. \<open>queue_contract\<close> (Work_Queue) is the promise of the work queue, that a
  key is never processed twice at once and nothing added is lost; the queue of client-go interprets it.

  \<^bold>\<open>What the lemmas show.\<close> For the client: the order of installation is the order of kinds; every
  request that changes the server is justified by an earlier answer of the same run (a log is an
  argument of the traced client, and the traced and the plain client agree); an update splits into
  creations, patches and deletions. For the store: an invariant over every reachable state, what a
  read after a write returns, and the two cases in which the layers hide or ignore something. For
  rendering: nothing is lost between files, carrier and manifest; every schedule of a run respects
  the order, handles every node once and ends; the cases in which an error is lost. For releases: the
  storage keeps what the server answered, versions are fresh, a rollback restores what was recorded,
  an apply has the order of steps of the code, retries are bounded, the newest release is applied,
  and no release has two live handlers; over all goroutines together a handler applies only its own
  release, a listed release comes to be applied, and a stopped handler applies at most once more, which
  can overlap with the next handler of the release. Over a server that merges patches a successful
  apply is recorded there, and a rollback can leave its request in place. Of one handler and its server
  together, a successful apply settles the handler: the reports that follow wake it no more; a release
  that always fails never comes to rest, since its recorded failure wakes the handler again. The
  objects that a release creates come from the resources of its rendered chart. The program that the
  release controller builds writes only where the handler's hypotheses let it write, so that they hold
  of it; and the syncs of the status controller wake no handler. For the controllers: the table of the collector refines a plain
  map, a collection deletes only garbage, the workers of the collector are counted right, a release
  that cannot be collected fills the queue, and a status reports every node and counts every resource.
  Across components: an object that a release creates is tracked for it and survives every collection
  while the manifest names it; the archive of a chart is laid out the way the renderer reads it; the
  server starts its controllers only over definitions and resources that are there; the totals that
  the tool lists are those of the details.

  \<^bold>\<open>Bounds and termination.\<close> No definition needs fuel: the recursions are structural or have a
  measure. The loops of the goroutines that never end in the code are step relations whose reachable
  states are studied. Bounds that appear as hypotheses are those of the code's integers: versions
  below the largest \<open>int32\<close>, counters modulo \<open>2 ^ 32\<close>, ranks of kinds in an \<open>int8\<close>.

  \<^bold>\<open>Not modelled.\<close> The flags are modelled as they are registered, with their defaults and targets;
  cutting the command line into them is left to the flag packages. The configuration of the clients and
  the health endpoint have no state of their own; \<open>import_known_versions.go\<close> has only imports;
  \<open>Run\<close> of the controllers is modelled by what it waits for and the workers it starts, the goroutines as
  relations; \<open>Watch\<close> hands a channel through. Logging is left out. In \<open>Handler_World\<close> an apply is one
  step: what others write to the server comes before or after it. Delays of queues and tickers are not measured: a delayed key is on
  hold until some step releases it. Data races (the handlers of the status controller, the target of
  the release handler, the counter of the collector) are not modelled: shared variables are read and
  written in one step.
\<close>

end
